(* ===== verification/Prelude.thy ===== *)
theory Prelude
  imports Main "HOL-Library.Word" "HOL-Library.List_Lexorder" "HOL-Library.Char_ord"
    "HOL-Library.Product_Lexorder" "HOL-Library.Option_ord"
    "HOL-Library.Multiset"
begin

text \<open>
  Shared notions of the development: the error type of the core crate and the messages it
  carries, the result type with its sequencing, signed 32-bit arithmetic, identifiers and
  timestamps, and the list facts the component theories use.

  Strings are UTF-8 byte strings (a \<open>char\<close> is a byte), so \<open>length\<close> is Rust's \<open>str::len\<close>.
\<close>

named_theorems unfolds \<open>definitions of operations, unfolded when an operation is analysed\<close>
named_theorems keeps \<open>what an operation leaves unchanged\<close>

section \<open>Messages and errors (error.rs)\<close>

text \<open>
  A message is the argument list of a \<open>format!\<close>: literal pieces, interpolated strings,
  strings interpolated between single quotes, numbers, and lists printed with \<open>{:?}\<close>.
\<close>

datatype piece = Lit string | Str string | Quo string | Num int | Dbg "string list"

type_synonym message = "piece list"

datatype db_error =
    RowNotFound
  | UniqueViolation
  | ForeignKeyViolation
  | CheckViolation
  | OutOfRange
  | InvalidValue
  | Unavailable string

datatype error =
    Config message
  | Database db_error
  | Migration
  | NotFound message
  | Conflict message
  | Validation message
  | Internal message
  | ServiceUnavailable message

type_synonym 'a result = "error + 'a"

section \<open>Sequencing of fallible steps\<close>

text \<open>\<open>rbind m f\<close> is the \<open>?\<close> operator: an error ends the function, a value goes on.\<close>

definition rbind :: "'e + 'a \<Rightarrow> ('a \<Rightarrow> 'e + 'b) \<Rightarrow> 'e + 'b" where
  "rbind m f = (case m of Inl e \<Rightarrow> Inl e | Inr x \<Rightarrow> f x)"

lemma rbind_Inl [simp]: "rbind (Inl e) f = Inl e"
  by (simp add: rbind_def)

lemma rbind_Inr [simp]: "rbind (Inr x) f = f x"
  by (simp add: rbind_def)

lemma rbind_eq_Inr [simp]: "rbind m f = Inr y \<longleftrightarrow> (\<exists>x. m = Inr x \<and> f x = Inr y)"
  by (cases m) simp_all

lemma rbind_eq_Inl: "rbind m f = Inl e \<longleftrightarrow> m = Inl e \<or> (\<exists>x. m = Inr x \<and> f x = Inl e)"
  by (cases m) simp_all

lemma rbind_cong [fundef_cong]:
  "m = m' \<Longrightarrow> (\<And>x. m' = Inr x \<Longrightarrow> f x = f' x) \<Longrightarrow> rbind m f = rbind m' f'"
  by (cases m') simp_all

text \<open>\<open>reject_if b e\<close> is \<open>if b { return Err(e) }\<close>.\<close>

definition reject_if :: "bool \<Rightarrow> 'e \<Rightarrow> 'e + unit" where
  "reject_if b e = (if b then Inl e else Inr ())"

lemma reject_if_True [simp]: "reject_if True e = Inl e"
  by (simp add: reject_if_def)

lemma reject_if_False [simp]: "reject_if False e = Inr ()"
  by (simp add: reject_if_def)

lemma reject_if_eq_Inr [simp]: "reject_if b e = Inr u \<longleftrightarrow> \<not> b"
  by (simp add: reject_if_def)

lemma reject_if_eq_Inl [simp]: "reject_if b e = Inl e' \<longleftrightarrow> b \<and> e' = e"
  by (auto simp: reject_if_def)

text \<open>\<open>ok_or x e\<close> is \<open>x.ok_or(e)\<close>.\<close>

definition ok_or :: "'a option \<Rightarrow> 'e \<Rightarrow> 'e + 'a" where
  "ok_or x e = (case x of None \<Rightarrow> Inl e | Some v \<Rightarrow> Inr v)"

lemma ok_or_simps [simp]: "ok_or None e = Inl e" "ok_or (Some v) e = Inr v"
  by (simp_all add: ok_or_def)

lemma ok_or_eq_Inr [simp]: "ok_or x e = Inr v \<longleftrightarrow> x = Some v"
  by (cases x) simp_all

lemma ok_or_eq_Inl [simp]: "ok_or x e = Inl e' \<longleftrightarrow> x = None \<and> e' = e"
  by (cases x) auto

text \<open>A \<open>for\<close> loop whose body may return early.\<close>

fun for_each :: "('a \<Rightarrow> 'e + unit) \<Rightarrow> 'a list \<Rightarrow> 'e + unit" where
  "for_each f [] = Inr ()"
| "for_each f (x # xs) = rbind (f x) (\<lambda>_. for_each f xs)"

lemma for_each_eq_Inr [simp]: "for_each f xs = Inr u \<longleftrightarrow> (\<forall>x \<in> set xs. f x = Inr ())"
  by (induction xs) auto

text \<open>A loop that collects the results of a fallible body.\<close>

fun map_result :: "('a \<Rightarrow> 'e + 'b) \<Rightarrow> 'a list \<Rightarrow> 'e + 'b list" where
  "map_result f [] = Inr []"
| "map_result f (x # xs) = rbind (f x) (\<lambda>y. rbind (map_result f xs) (\<lambda>ys. Inr (y # ys)))"

lemma map_result_Inr: "(\<And>x. x \<in> set xs \<Longrightarrow> f x = Inr (g x)) \<Longrightarrow> map_result f xs = Inr (map g xs)"
  by (induction xs) simp_all

lemma map_result_cong [fundef_cong]:
  "xs = ys \<Longrightarrow> (\<And>x. x \<in> set ys \<Longrightarrow> f x = g x) \<Longrightarrow> map_result f xs = map_result g ys"
  by (induction ys arbitrary: xs) simp_all

definition is_ok :: "'e + 'a \<Rightarrow> bool" where
  "is_ok m = (case m of Inl _ \<Rightarrow> False | Inr _ \<Rightarrow> True)"

lemma is_ok_simps [simp]: "is_ok (Inl e) = False" "is_ok (Inr x) = True"
  by (simp_all add: is_ok_def)

lemma is_ok_iff: "is_ok m \<longleftrightarrow> (\<exists>x. m = Inr x)"
  by (cases m) simp_all

text \<open>The errors a computation can end with.\<close>

definition errs_in :: "'e set \<Rightarrow> 'e + 'a \<Rightarrow> bool" where
  "errs_in E m \<longleftrightarrow> (\<forall>e. m = Inl e \<longrightarrow> e \<in> E)"

named_theorems errs \<open>which errors an operation can return\<close>

lemma errs_in_Inr [errs]: "errs_in E (Inr x)"
  by (simp add: errs_in_def)

lemma errs_in_Inl [errs]: "e \<in> E \<Longrightarrow> errs_in E (Inl e)"
  by (simp add: errs_in_def)

lemma errs_in_rbind [errs]:
  "errs_in E m \<Longrightarrow> (\<And>x. m = Inr x \<Longrightarrow> errs_in E (f x)) \<Longrightarrow> errs_in E (rbind m f)"
  by (cases m) (simp_all add: errs_in_def)

lemma errs_in_reject_if [errs]: "(b \<Longrightarrow> e \<in> E) \<Longrightarrow> errs_in E (reject_if b e)"
  by (auto simp: errs_in_def)

lemma errs_in_ok_or [errs]: "(x = None \<Longrightarrow> e \<in> E) \<Longrightarrow> errs_in E (ok_or x e)"
  by (auto simp: errs_in_def)

lemma errs_in_if [errs]: "(b \<Longrightarrow> errs_in E m) \<Longrightarrow> (\<not> b \<Longrightarrow> errs_in E m') \<Longrightarrow> errs_in E (if b then m else m')"
  by simp

lemma errs_in_for_each [errs]: "(\<And>x. x \<in> set xs \<Longrightarrow> errs_in E (f x)) \<Longrightarrow> errs_in E (for_each f xs)"
  by (induction xs) (auto intro!: errs_in_rbind simp: errs_in_Inr)

lemma errs_in_mono: "errs_in E m \<Longrightarrow> E \<subseteq> E' \<Longrightarrow> errs_in E' m"
  by (auto simp: errs_in_def)

section \<open>Steps that keep their effects\<close>

text \<open>
  A computation whose effects stay when it ends with an error: \<open>and_then\<close> is \<open>?\<close> on it, and
  \<open>transaction\<close> is a database operation, which changes nothing when it fails.
\<close>

definition and_then :: "('e + 'a) \<times> 's \<Rightarrow> ('a \<Rightarrow> 's \<Rightarrow> ('e + 'b) \<times> 's) \<Rightarrow> ('e + 'b) \<times> 's" where
  "and_then m f = (case m of (Inl e, s) \<Rightarrow> (Inl e, s) | (Inr x, s) \<Rightarrow> f x s)"

lemma and_then_simps [simp]: "and_then (Inl e, s) f = (Inl e, s)" "and_then (Inr x, s) f = f x s"
  by (simp_all add: and_then_def)

lemma and_then_Inr: "and_then m f = (Inr y, s') \<longleftrightarrow> (\<exists>x s. m = (Inr x, s) \<and> f x s = (Inr y, s'))"
  by (cases m; cases "fst m") auto

definition transaction :: "('s \<Rightarrow> ('a \<times> 's) result) \<Rightarrow> 's \<Rightarrow> 'a result \<times> 's" where
  "transaction f s = (case f s of Inl e \<Rightarrow> (Inl e, s) | Inr (x, s') \<Rightarrow> (Inr x, s'))"

lemma transaction_cases [simp]:
  "f s = Inr (x, s') \<Longrightarrow> transaction f s = (Inr x, s')" "f s = Inl e \<Longrightarrow> transaction f s = (Inl e, s)"
  by (simp_all add: transaction_def)

lemma transaction_Inr: "transaction f s = (Inr x, s') \<longleftrightarrow> f s = Inr (x, s')"
  by (auto simp: transaction_def split: sum.split)

lemma transaction_Inl: "transaction f s = (Inl e, s') \<longleftrightarrow> f s = Inl e \<and> s' = s"
  by (auto simp: transaction_def split: sum.split)

section \<open>Signed 32-bit integers\<close>

text \<open>
  An \<open>i32\<close> is an \<open>int\<close> between \<open>i32_min\<close> and \<open>i32_max\<close>; casts and additions of the
  release build wrap, written out with \<open>wrap_i32\<close>.
\<close>

type_synonym i32 = int

definition i32_min :: int where "i32_min = - (2 ^ 31)"

definition i32_max :: int where "i32_max = 2 ^ 31 - 1"

definition in_i32 :: "int \<Rightarrow> bool" where
  "in_i32 x \<longleftrightarrow> i32_min \<le> x \<and> x \<le> i32_max"

definition wrap_i32 :: "int \<Rightarrow> i32" where
  "wrap_i32 x = (x + 2 ^ 31) mod 2 ^ 32 - 2 ^ 31"

lemma wrap_i32_id: "in_i32 x \<Longrightarrow> wrap_i32 x = x"
  by (simp add: wrap_i32_def in_i32_def i32_min_def i32_max_def)

lemma in_i32_wrap: "in_i32 (wrap_i32 x)"
  using pos_mod_bound [of "2 ^ 32" "x + 2 ^ 31"] pos_mod_sign [of "2 ^ 32" "x + 2 ^ 31"]
  by (simp add: wrap_i32_def in_i32_def i32_min_def i32_max_def)

section \<open>Identifiers and timestamps\<close>

text \<open>
  A UUID is its value read as a number: Postgres orders \<open>uuid\<close> values that way, and
  \<open>Uuid::nil()\<close> is 0. A timestamp is a count of microseconds.
\<close>

type_synonym uuid = nat
type_synonym timestamp = int

definition nil_uuid :: uuid where "nil_uuid = 0"

section \<open>Lists\<close>

text \<open>\<open>first_dup f seen xs\<close>: the loop \<open>if !seen.insert(f x) { return Err }\<close>; the first
  element whose key was seen before.\<close>

fun first_dup :: "('a \<Rightarrow> 'k) \<Rightarrow> 'k list \<Rightarrow> 'a list \<Rightarrow> 'a option" where
  "first_dup f seen [] = None"
| "first_dup f seen (x # xs) =
     (if f x \<in> set seen then Some x else first_dup f (f x # seen) xs)"

lemma first_dup_None_gen:
  "first_dup f seen xs = None \<longleftrightarrow> distinct (map f xs) \<and> set seen \<inter> f ` set xs = {}"
  by (induction xs arbitrary: seen) auto

lemma first_dup_None [simp]: "first_dup f [] xs = None \<longleftrightarrow> distinct (map f xs)"
  by (simp add: first_dup_None_gen)

text \<open>\<open>find_row\<close>: the row a query on a unique column returns.\<close>

lemma find_Some_in: "find P xs = Some x \<Longrightarrow> x \<in> set xs \<and> P x"
  by (auto simp: find_Some_iff)

lemma find_append: "find P (xs @ ys) = (case find P xs of None \<Rightarrow> find P ys | Some x \<Rightarrow> Some x)"
  by (induction xs) simp_all

lemma find_unique:
  assumes "x \<in> set xs" "P x" "\<And>y. y \<in> set xs \<Longrightarrow> P y \<Longrightarrow> y = x"
  shows "find P xs = Some x"
proof (cases "find P xs")
  case None
  with assms(1,2) show ?thesis by (auto simp: find_None_iff)
next
  case (Some z)
  then have "z \<in> set xs" "P z" by (auto dest: find_Some_in)
  with assms(3) Some show ?thesis by simp
qed

lemma distinct_map_inj:
  "distinct (map f xs) \<Longrightarrow> x \<in> set xs \<Longrightarrow> y \<in> set xs \<Longrightarrow> f x = f y \<Longrightarrow> x = y"
  by (auto simp: distinct_map dest: inj_onD)

lemma find_by_key:
  "distinct (map f xs) \<Longrightarrow> x \<in> set xs \<Longrightarrow> find (\<lambda>y. f y = f x) xs = Some x"
  by (rule find_unique) (auto dest: distinct_map_inj)

lemma find_None_key: "find (\<lambda>y. f y = k) xs = None \<longleftrightarrow> k \<notin> f ` set xs"
  by (auto simp: find_None_iff)

lemma filter_by_key:
  "distinct (map f xs) \<Longrightarrow> x \<in> set xs \<Longrightarrow> filter (\<lambda>y. f y = f x) xs = [x]"
  by (induction xs) (auto simp: filter_empty_conv image_iff)

lemma concat_map_single: "(\<And>x. x \<in> set xs \<Longrightarrow> f x = [g x]) \<Longrightarrow> concat (map f xs) = map g xs"
  by (induction xs) simp_all

lemma map_pair_eq:
  "map f xs = map f' ys \<Longrightarrow> map g xs = map g' ys \<Longrightarrow> map (\<lambda>x. (f x, g x)) xs = map (\<lambda>y. (f' y, g' y)) ys"
proof (induction xs arbitrary: ys)
  case (Cons x xs)
  then show ?case by (cases ys) auto
qed simp

lemma distinct_map_filter: "distinct (map f xs) \<Longrightarrow> distinct (map f (filter P xs))"
  by (simp add: distinct_map inj_on_def)

text \<open>An \<open>UPDATE\<close> by key: every row with the key is replaced.\<close>

definition update_where :: "('a \<Rightarrow> bool) \<Rightarrow> ('a \<Rightarrow> 'a) \<Rightarrow> 'a list \<Rightarrow> 'a list" where
  "update_where P f xs = map (\<lambda>x. if P x then f x else x) xs"

lemma length_update_where [simp]: "length (update_where P f xs) = length xs"
  by (simp add: update_where_def)

lemma map_update_where:
  "(\<And>x. x \<in> set xs \<Longrightarrow> P x \<Longrightarrow> g (f x) = g x) \<Longrightarrow> map g (update_where P f xs) = map g xs"
  by (simp add: update_where_def)

lemma map_eq_image: "map f xs = map f ys \<Longrightarrow> f ` set xs = f ` set ys"
  by (metis list.set_map)

lemma image_filter_mem: "f ` {x \<in> A. f x \<in> B} = B \<inter> f ` A"
  by auto

lemma set_update_where: "set (update_where P f xs) = (\<lambda>x. if P x then f x else x) ` set xs"
  by (simp add: update_where_def)

text \<open>Sorting depends on the keys of the rows only.\<close>

lemma insort_key_same:
  assumes "f x = g x" "\<forall>y \<in> set ys. f y = g y"
  shows "insort_key f x ys = insort_key g x ys"
  using assms(2) by (induction ys) (simp_all add: assms(1))

lemma sort_key_same:
  assumes "\<And>x. x \<in> set xs \<Longrightarrow> f x = g x"
  shows "sort_key f xs = sort_key g xs"
  using assms
proof (induction xs)
  case (Cons x xs)
  then have "sort_key f xs = sort_key g xs" by simp
  moreover have "insort_key f x (sort_key g xs) = insort_key g x (sort_key g xs)"
    using Cons.prems by (intro insort_key_same) auto
  ultimately show ?case by simp
qed simp

lemma map_insort_key: "map h (insort_key (\<lambda>x. f (h x)) x ys) = insort_key f (h x) (map h ys)"
  by (induction ys) auto

lemma map_sort_key: "map h (sort_key (\<lambda>x. f (h x)) ys) = sort_key f (map h ys)"
  by (induction ys) (simp_all add: map_insort_key)

end
