(* ===== verification/Values.thy ===== *)
theory Values
  imports Prelude
begin

text \<open>
  Scores (\<open>f64\<close>) as bit patterns with the order Postgres and Redis sort them by, and
  \<open>serde_json::Value\<close> with the accessors the code uses.
\<close>

section \<open>Scores: f64\<close>

type_synonym f64 = "64 word"

definition f64_magnitude :: "f64 \<Rightarrow> nat" where
  "f64_magnitude x = unat x mod 2 ^ 63"

definition f64_negative :: "f64 \<Rightarrow> bool" where
  "f64_negative x \<longleftrightarrow> 2 ^ 63 \<le> unat x"

text \<open>The magnitude of infinity: the exponent field all ones, the fraction zero.\<close>

definition f64_infinity_bits :: nat where
  "f64_infinity_bits = 2047 * 2 ^ 52"

definition f64_is_nan :: "f64 \<Rightarrow> bool" where
  "f64_is_nan x \<longleftrightarrow> f64_infinity_bits < f64_magnitude x"

definition f64_is_infinite :: "f64 \<Rightarrow> bool" where
  "f64_is_infinite x \<longleftrightarrow> f64_magnitude x = f64_infinity_bits"

definition f64_is_finite :: "f64 \<Rightarrow> bool" where
  "f64_is_finite x \<longleftrightarrow> f64_magnitude x < f64_infinity_bits"

text \<open>
  The sort key of a \<open>double precision\<close> value: the sign applied to the magnitude, so both
  zeros are equal; NaN is equal to itself and above everything (the rule of Postgres).
\<close>

definition f64_key :: "f64 \<Rightarrow> int" where
  "f64_key x =
     (if f64_is_nan x then 2 ^ 63
      else if f64_negative x then - int (f64_magnitude x)
      else int (f64_magnitude x))"

lemma f64_finite_iff: "f64_is_finite x \<longleftrightarrow> \<not> f64_is_nan x \<and> \<not> f64_is_infinite x"
  by (auto simp: f64_is_finite_def f64_is_nan_def f64_is_infinite_def)

lemma f64_key_bound: "\<bar>f64_key x\<bar> \<le> 2 ^ 63"
proof -
  have "f64_magnitude x < 2 ^ 63" by (simp add: f64_magnitude_def)
  then have "int (f64_magnitude x) < 2 ^ 63" by (simp only: of_nat_less_numeral_power_cancel_iff)
  then show ?thesis by (auto simp: f64_key_def)
qed

text \<open>Finite values with the same key are the same bits, up to the sign of zero.\<close>

lemma unat_f64_split: "unat (x :: f64) = (if f64_negative x then 2 ^ 63 else 0) + f64_magnitude x"
proof -
  have "unat x < 2 ^ 64" using unsigned_less [of x, where ?'a = nat] by simp
  then show ?thesis
    by (auto simp: f64_negative_def f64_magnitude_def le_mod_geq mod_less)
qed

lemma f64_key_inj:
  assumes "f64_is_finite x" "f64_is_finite y" "f64_key x = f64_key y" "f64_key x \<noteq> 0"
  shows "x = y"
proof -
  have k: "f64_key x = (if f64_negative x then - int (f64_magnitude x) else int (f64_magnitude x))"
    "f64_key y = (if f64_negative y then - int (f64_magnitude y) else int (f64_magnitude y))"
    using assms(1,2) by (simp_all add: f64_key_def f64_finite_iff)
  from k assms(3,4) have "f64_negative x = f64_negative y" "f64_magnitude x = f64_magnitude y"
    by (auto split: if_splits)
  then have "unat x = unat y" by (simp add: unat_f64_split)
  then show ?thesis by (simp add: word_unat_eq_iff)
qed

section \<open>JSON values\<close>

text \<open>
  An object is a \<open>BTreeMap\<close> (serde_json without \<open>preserve_order\<close>): its entries in key
  order. Equality of values is then equality of the terms.
\<close>

datatype json =
    JNull
  | JBool bool
  | JInt int
  | JFloat f64
  | JString string
  | JArray "json list"
  | JObject "(string \<times> json) list"

fun json_get :: "string \<Rightarrow> json \<Rightarrow> json option" where
  "json_get k (JObject kvs) = map_of kvs k"
| "json_get k _ = None"

fun as_array :: "json \<Rightarrow> json list option" where
  "as_array (JArray xs) = Some xs"
| "as_array _ = None"

fun as_str :: "json \<Rightarrow> string option" where
  "as_str (JString s) = Some s"
| "as_str _ = None"

fun as_i64 :: "json \<Rightarrow> int option" where
  "as_i64 (JInt i) = (if - (2 ^ 63) \<le> i \<and> i < 2 ^ 63 then Some i else None)"
| "as_i64 _ = None"

text \<open>\<open>obj.insert(key, value)\<close> on a \<open>BTreeMap\<close>.\<close>

fun obj_insert :: "string \<Rightarrow> json \<Rightarrow> (string \<times> json) list \<Rightarrow> (string \<times> json) list" where
  "obj_insert k v [] = [(k, v)]"
| "obj_insert k v ((k', v') # kvs) =
     (if k < k' then (k, v) # (k', v') # kvs
      else if k = k' then (k, v) # kvs
      else (k', v') # obj_insert k v kvs)"

lemma map_of_obj_insert [simp]: "map_of (obj_insert k v kvs) = (map_of kvs)(k \<mapsto> v)"
  by (induction k v kvs rule: obj_insert.induct) (auto simp: fun_eq_iff)

lemma set_fst_obj_insert [simp]: "fst ` set (obj_insert k v kvs) = insert k (fst ` set kvs)"
  by (induction k v kvs rule: obj_insert.induct) auto

lemma obj_insert_sorted:
  "sorted_wrt (<) (map fst kvs) \<Longrightarrow> sorted_wrt (<) (map fst (obj_insert k v kvs))"
proof (induction k v kvs rule: obj_insert.induct)
  case (2 k v k' v' kvs)
  show ?case
  proof (cases "k < k' \<or> k = k'")
    case True
    with 2(2) show ?thesis by (auto intro: less_trans)
  next
    case False
    then have "k' < k" by (meson linorder_neqE)
    with 2 False show ?thesis
      by (auto simp flip: image_set)
  qed
qed simp

section \<open>The services of the database server\<close>

text \<open>
  What the SQL statements take from the server: the \<open>n\<close>-th value drawn from \<open>uuidv7()\<close>,
  the transaction time \<open>now()\<close> after \<open>n\<close> draws, the sort key of the text collation, the text
  of a JSON value that is neither a string nor null, and the cast \<open>text::int\<close>. What the code
  relies on: drawn ids differ and are not the nil UUID, and the cast reads back the text of an
  integer in range.
\<close>

record svc =
  uuidv7 :: "nat \<Rightarrow> uuid"
  pg_now :: "nat \<Rightarrow> timestamp"
  collation :: "string \<Rightarrow> string"
  jsonb_text :: "json \<Rightarrow> string"
  text_to_int :: "string \<Rightarrow> int option"

definition svc_ok :: "svc \<Rightarrow> bool" where
  "svc_ok S \<longleftrightarrow>
     inj (uuidv7 S) \<and> (\<forall>n. uuidv7 S n \<noteq> nil_uuid) \<and>
     (\<forall>i. in_i32 i \<longrightarrow> text_to_int S (jsonb_text S (JInt i)) = Some i)"

text \<open>A concrete server, on which the theorems are instantiated: integers are a sign and tally marks.\<close>

definition sample_svc :: svc where
  "sample_svc =
     \<lparr>uuidv7 = Suc, pg_now = int, collation = (\<lambda>s. s),
      jsonb_text = (\<lambda>v. case v of
          JInt i \<Rightarrow> (if i < 0 then CHR ''-'' else CHR ''+'') # replicate (nat \<bar>i\<bar>) (CHR ''1'')
        | _ \<Rightarrow> ''?''),
      text_to_int = (\<lambda>s. case s of
          [] \<Rightarrow> None
        | c # r \<Rightarrow>
            (if c = CHR ''-'' then Some (- int (length r))
             else if c = CHR ''+'' then Some (int (length r)) else None))\<rparr>"

lemma sample_svc_ok [simp]: "svc_ok sample_svc"
  by (simp add: svc_ok_def sample_svc_def nil_uuid_def)

end
