(* ===== verification/Schema.thy ===== *)
theory Schema
  imports Values
begin

text \<open>
  The rows and inputs of \<open>models.rs\<close>, the database as a record of tables, the constraints the
  migrations declare, and the SQL statements the repository functions are made of. A statement
  that violates a constraint is a \<open>Database\<close> error; a function that returns an error leaves its
  transaction uncommitted, which is why an error carries no new database.
\<close>

section \<open>PATCH fields\<close>

datatype 'a nullable = Absent | Null | Value 'a

definition is_absent :: "'a nullable \<Rightarrow> bool" where
  "is_absent x = (case x of Absent \<Rightarrow> True | _ \<Rightarrow> False)"

text \<open>The deserializer runs only for a field that is present: \<open>null\<close> or a value.\<close>

definition nullable_deserialize :: "'a option \<Rightarrow> 'a nullable" where
  "nullable_deserialize opt = (case opt of Some v \<Rightarrow> Value v | None \<Rightarrow> Null)"

text \<open>The match each \<open>update\<close> makes on such a field.\<close>

definition patch :: "'a nullable \<Rightarrow> 'a option \<Rightarrow> 'a option" where
  "patch f old = (case f of Absent \<Rightarrow> old | Null \<Rightarrow> None | Value v \<Rightarrow> Some v)"

lemma patch_simps [simp]: "patch Absent old = old" "patch Null old = None" "patch (Value v) old = Some v"
  by (simp_all add: patch_def)

definition unwrap_or :: "'a option \<Rightarrow> 'a \<Rightarrow> 'a" where
  "unwrap_or x d = (case x of None \<Rightarrow> d | Some v \<Rightarrow> v)"

lemma unwrap_or_simps [simp]: "unwrap_or None d = d" "unwrap_or (Some v) d = v"
  by (simp_all add: unwrap_or_def)

section \<open>Rows\<close>

record board =
  b_id :: uuid
  b_slug :: string
  b_name :: string
  b_board_type :: string
  b_sort_direction :: string
  b_tier_config :: "json option"
  b_metadata :: "json option"
  b_accumulative :: bool
  b_realtime :: bool
  b_clear_on_snapshot :: bool
  b_created_at :: timestamp
  b_updated_at :: timestamp

record create_board =
  cb_slug :: string
  cb_name :: string
  cb_board_type :: string
  cb_sort_direction :: string
  cb_tier_config :: "json option"
  cb_metadata :: "json option"
  cb_accumulative :: bool
  cb_realtime :: bool
  cb_clear_on_snapshot :: bool

record update_board =
  ub_name :: "string option"
  ub_sort_direction :: "string option"
  ub_tier_config :: "json nullable"
  ub_metadata :: "json nullable"
  ub_realtime :: "bool option"
  ub_clear_on_snapshot :: "bool option"

definition default_sort_direction :: string where
  "default_sort_direction = ''desc''"

record entry =
  e_id :: uuid
  e_board_id :: uuid
  e_slug :: string
  e_name :: string
  e_metadata :: "json option"
  e_created_at :: timestamp
  e_updated_at :: timestamp

record create_entry =
  ce_slug :: string
  ce_name :: string
  ce_metadata :: "json option"

record update_entry =
  ue_name :: "string option"
  ue_metadata :: "json nullable"

record version =
  v_id :: uuid
  v_board_id :: uuid
  v_number :: i32
  v_note :: "string option"
  v_metadata :: "json option"
  v_created_at :: timestamp

record placement =
  p_id :: uuid
  p_version_id :: uuid
  p_entry_id :: uuid
  p_position :: "i32 option"
  p_score :: "f64 option"
  p_tier :: "string option"
  p_metadata :: "json option"

record create_placement =
  cp_entry_slug :: string
  cp_position :: "i32 option"
  cp_score :: "f64 option"
  cp_tier :: "string option"
  cp_metadata :: "json option"

record create_version =
  cv_note :: "string option"
  cv_metadata :: "json option"
  cv_placements :: "create_placement list"

text \<open>\<open>PlacementWithEntry\<close>: the placement row with the slug and name of its entry.\<close>

record placement_with_entry = placement +
  pe_entry_slug :: string
  pe_entry_name :: string

record version_with_placements =
  vp_version :: version
  vp_placements :: "placement_with_entry list"

record board_summary =
  bs_board :: board
  bs_latest_version :: "i32 option"
  bs_entry_count :: int

record entry_history_item =
  h_version_number :: i32
  h_position :: "i32 option"
  h_score :: "f64 option"
  h_tier :: "string option"
  h_metadata :: "json option"
  h_created_at :: timestamp

record diff_entry =
  d_entry_slug :: string
  d_entry_name :: string
  d_position :: "i32 option"
  d_score :: "f64 option"
  d_tier :: "string option"

record diff_moved_entry =
  dm_entry_slug :: string
  dm_entry_name :: string
  dm_from_position :: "i32 option"
  dm_to_position :: "i32 option"
  dm_from_score :: "f64 option"
  dm_to_score :: "f64 option"
  dm_from_tier :: "string option"
  dm_to_tier :: "string option"

record version_diff =
  vd_from_version :: i32
  vd_to_version :: i32
  vd_added :: "diff_entry list"
  vd_removed :: "diff_entry list"
  vd_moved :: "diff_moved_entry list"
  vd_unchanged :: "diff_entry list"

record board_reference =
  br_id :: uuid
  br_board_id :: uuid
  br_pinned_version_id :: "uuid option"
  br_uri :: string
  br_ref_type :: string
  br_label :: "string option"
  br_created_at :: timestamp

record create_reference =
  cr_pinned_version_number :: "i32 option"
  cr_uri :: string
  cr_ref_type :: string
  cr_label :: "string option"

record collection =
  c_id :: uuid
  c_slug :: string
  c_name :: string
  c_metadata :: "json option"
  c_created_at :: timestamp
  c_updated_at :: timestamp

record create_collection =
  cc_slug :: string
  cc_name :: string
  cc_metadata :: "json option"

record update_collection =
  uc_name :: "string option"
  uc_metadata :: "json nullable"

text \<open>A row of \<open>collection_boards\<close>.\<close>

record collection_board =
  m_collection_id :: uuid
  m_board_id :: uuid
  m_display_order :: i32

record collection_board_entry =
  cbe_slug :: string
  cbe_name :: string
  cbe_board_type :: string
  cbe_display_order :: i32
  cbe_latest_version :: "i32 option"

record add_board_to_collection =
  ab_board_slug :: string
  ab_display_order :: i32

record accumulated_score =
  a_id :: uuid
  a_board_id :: uuid
  a_entry_id :: uuid
  a_score :: f64
  a_submitted_at :: timestamp

record submit_score =
  ss_entry_slug :: string
  ss_entry_name :: string
  ss_score :: f64

record snapshot_input =
  si_note :: "string option"
  si_metadata :: "json option"

section \<open>The database\<close>

record db =
  boards :: "board list"
  entries :: "entry list"
  versions :: "version list"
  placements :: "placement list"
  board_references :: "board_reference list"
  accumulated_scores :: "accumulated_score list"
  collections :: "collection list"
  collection_boards :: "collection_board list"
  drawn :: nat

definition empty_db :: db where
  "empty_db =
     \<lparr>boards = [], entries = [], versions = [], placements = [], board_references = [],
      accumulated_scores = [], collections = [], collection_boards = [], drawn = 0\<rparr>"

definition next_id :: "svc \<Rightarrow> db \<Rightarrow> uuid" where
  "next_id S db = uuidv7 S (drawn db)"

definition tx_now :: "svc \<Rightarrow> db \<Rightarrow> timestamp" where
  "tx_now S db = pg_now S (drawn db)"

end
