(* ===== verification/Tables.thy ===== *)
theory Tables
  imports Schema
begin

text \<open>
  The constraints of the migrations (CHECK, UNIQUE, foreign keys with ON DELETE CASCADE) as the
  behaviour of INSERT, UPDATE and DELETE on the tables, the invariant every reachable database
  satisfies, and its preservation by each statement.

  The invariant holds more than the schema: an entry and a version joined by a placement belong
  to the same board, and a pinned version belongs to the board of its reference. DESIGN.md leaves
  these to the application code, so each statement's lemma has them as premises, which the
  component theories discharge.
\<close>

section \<open>CHECK constraints\<close>

definition board_check :: "board \<Rightarrow> bool" where
  "board_check b \<longleftrightarrow>
     b_board_type b \<in> {''ordered'', ''scored'', ''tiered''} \<and>
     b_sort_direction b \<in> {''asc'', ''desc''} \<and>
     (b_accumulative b \<longrightarrow> b_board_type b = ''scored'') \<and>
     (b_realtime b \<longrightarrow> b_accumulative b \<and> b_board_type b = ''scored'') \<and>
     (b_clear_on_snapshot b \<longrightarrow> b_realtime b)"

definition version_check :: "version \<Rightarrow> bool" where
  "version_check v \<longleftrightarrow> 0 < v_number v"

definition reference_check :: "board_reference \<Rightarrow> bool" where
  "reference_check r \<longleftrightarrow> br_ref_type r \<in> {''embed'', ''citation'', ''context''}"

section \<open>Statements\<close>

text \<open>
  An INSERT evaluates the CHECK constraints, then the unique indexes, then the foreign keys.
  A row drawn its id from \<open>uuidv7()\<close>, so a successful insert advances \<open>drawn\<close>.
\<close>

definition insert_board :: "board \<Rightarrow> db \<Rightarrow> db result" where
  "insert_board b db =
     (if \<not> board_check b then Inl (Database CheckViolation)
      else if b_id b \<in> b_id ` set (boards db) \<or> b_slug b \<in> b_slug ` set (boards db)
        then Inl (Database UniqueViolation)
      else Inr (db\<lparr>boards := boards db @ [b], drawn := Suc (drawn db)\<rparr>))"

definition insert_entry :: "entry \<Rightarrow> db \<Rightarrow> db result" where
  "insert_entry e db =
     (if e_id e \<in> e_id ` set (entries db) \<or>
         (e_board_id e, e_slug e) \<in> (\<lambda>e. (e_board_id e, e_slug e)) ` set (entries db)
        then Inl (Database UniqueViolation)
      else if e_board_id e \<notin> b_id ` set (boards db) then Inl (Database ForeignKeyViolation)
      else Inr (db\<lparr>entries := entries db @ [e], drawn := Suc (drawn db)\<rparr>))"

text \<open>\<open>version_number\<close> is an \<open>integer\<close> column: a value past 32 bits is out of range.\<close>

definition insert_version :: "version \<Rightarrow> db \<Rightarrow> db result" where
  "insert_version v db =
     (if \<not> in_i32 (v_number v) then Inl (Database OutOfRange)
      else if \<not> version_check v then Inl (Database CheckViolation)
      else if v_id v \<in> v_id ` set (versions db) \<or>
         (v_board_id v, v_number v) \<in> (\<lambda>v. (v_board_id v, v_number v)) ` set (versions db)
        then Inl (Database UniqueViolation)
      else if v_board_id v \<notin> b_id ` set (boards db) then Inl (Database ForeignKeyViolation)
      else Inr (db\<lparr>versions := versions db @ [v], drawn := Suc (drawn db)\<rparr>))"

definition insert_placement :: "placement \<Rightarrow> db \<Rightarrow> db result" where
  "insert_placement p db =
     (if p_id p \<in> p_id ` set (placements db) \<or>
         (p_version_id p, p_entry_id p) \<in> (\<lambda>p. (p_version_id p, p_entry_id p)) ` set (placements db)
        then Inl (Database UniqueViolation)
      else if p_version_id p \<notin> v_id ` set (versions db) \<or> p_entry_id p \<notin> e_id ` set (entries db)
        then Inl (Database ForeignKeyViolation)
      else Inr (db\<lparr>placements := placements db @ [p], drawn := Suc (drawn db)\<rparr>))"

definition insert_reference :: "board_reference \<Rightarrow> db \<Rightarrow> db result" where
  "insert_reference r db =
     (if \<not> reference_check r then Inl (Database CheckViolation)
      else if br_id r \<in> br_id ` set (board_references db) then Inl (Database UniqueViolation)
      else if br_board_id r \<notin> b_id ` set (boards db) \<or>
          (case br_pinned_version_id r of None \<Rightarrow> False | Some vid \<Rightarrow> vid \<notin> v_id ` set (versions db))
        then Inl (Database ForeignKeyViolation)
      else Inr (db\<lparr>board_references := board_references db @ [r], drawn := Suc (drawn db)\<rparr>))"

definition insert_collection :: "collection \<Rightarrow> db \<Rightarrow> db result" where
  "insert_collection c db =
     (if c_id c \<in> c_id ` set (collections db) \<or> c_slug c \<in> c_slug ` set (collections db)
        then Inl (Database UniqueViolation)
      else Inr (db\<lparr>collections := collections db @ [c], drawn := Suc (drawn db)\<rparr>))"

definition insert_collection_board :: "collection_board \<Rightarrow> db \<Rightarrow> db result" where
  "insert_collection_board m db =
     (if (m_collection_id m, m_board_id m) \<in>
           (\<lambda>m. (m_collection_id m, m_board_id m)) ` set (collection_boards db)
        then Inl (Database UniqueViolation)
      else if m_collection_id m \<notin> c_id ` set (collections db) \<or>
              m_board_id m \<notin> b_id ` set (boards db)
        then Inl (Database ForeignKeyViolation)
      else Inr (db\<lparr>collection_boards := collection_boards db @ [m]\<rparr>))"

text \<open>
  \<open>INSERT INTO entries ... ON CONFLICT (board_id, slug) DO UPDATE SET name, updated_at
  RETURNING id\<close>.
\<close>

definition upsert_entry :: "svc \<Rightarrow> timestamp \<Rightarrow> uuid \<Rightarrow> string \<Rightarrow> string \<Rightarrow> db \<Rightarrow> (uuid \<times> db) result" where
  "upsert_entry S t bid slug name db =
     (case find (\<lambda>e. e_board_id e = bid \<and> e_slug e = slug) (entries db) of
        Some e \<Rightarrow>
          Inr (e_id e,
               db\<lparr>entries := update_where (\<lambda>x. e_id x = e_id e)
                    (\<lambda>x. x\<lparr>e_name := name, e_updated_at := t\<rparr>) (entries db)\<rparr>)
      | None \<Rightarrow>
          rbind (insert_entry
                   \<lparr>e_id = next_id S db, e_board_id = bid, e_slug = slug, e_name = name,
                    e_metadata = None, e_created_at = t, e_updated_at = t\<rparr> db)
            (\<lambda>db'. Inr (next_id S db, db')))"

text \<open>
  \<open>INSERT INTO accumulated_scores ... ON CONFLICT (board_id, entry_id) DO UPDATE SET score,
  submitted_at RETURNING *\<close>.
\<close>

definition upsert_score ::
  "svc \<Rightarrow> timestamp \<Rightarrow> uuid \<Rightarrow> uuid \<Rightarrow> f64 \<Rightarrow> db \<Rightarrow> (accumulated_score \<times> db) result" where
  "upsert_score S t bid eid sc db =
     (case find (\<lambda>a. a_board_id a = bid \<and> a_entry_id a = eid) (accumulated_scores db) of
        Some a \<Rightarrow>
          Inr (a\<lparr>a_score := sc, a_submitted_at := t\<rparr>,
               db\<lparr>accumulated_scores := update_where (\<lambda>x. a_id x = a_id a)
                    (\<lambda>x. x\<lparr>a_score := sc, a_submitted_at := t\<rparr>) (accumulated_scores db)\<rparr>)
      | None \<Rightarrow>
          (let a = \<lparr>a_id = next_id S db, a_board_id = bid, a_entry_id = eid, a_score = sc,
                    a_submitted_at = t\<rparr> in
           if a_id a \<in> a_id ` set (accumulated_scores db) then Inl (Database UniqueViolation)
           else if bid \<notin> b_id ` set (boards db) \<or> eid \<notin> e_id ` set (entries db)
             then Inl (Database ForeignKeyViolation)
           else Inr (a, db\<lparr>accumulated_scores := accumulated_scores db @ [a],
                           drawn := Suc (drawn db)\<rparr>)))"

text \<open>\<open>DELETE FROM entries WHERE id = $1\<close>, with its cascades.\<close>

definition delete_entry_row :: "uuid \<Rightarrow> db \<Rightarrow> db" where
  "delete_entry_row eid db =
     db\<lparr>entries := filter (\<lambda>e. e_id e \<noteq> eid) (entries db),
        placements := filter (\<lambda>p. p_entry_id p \<noteq> eid) (placements db),
        accumulated_scores := filter (\<lambda>a. a_entry_id a \<noteq> eid) (accumulated_scores db)\<rparr>"

text \<open>\<open>DELETE FROM boards WHERE slug = $1\<close>: the rows deleted and every row that refers to them.\<close>

definition delete_board_rows :: "uuid list \<Rightarrow> db \<Rightarrow> db" where
  "delete_board_rows ids db =
     (let gone_v = v_id ` set (filter (\<lambda>v. v_board_id v \<in> set ids) (versions db));
          gone_e = e_id ` set (filter (\<lambda>e. e_board_id e \<in> set ids) (entries db)) in
      db\<lparr>boards := filter (\<lambda>b. b_id b \<notin> set ids) (boards db),
         entries := filter (\<lambda>e. e_board_id e \<notin> set ids) (entries db),
         versions := filter (\<lambda>v. v_board_id v \<notin> set ids) (versions db),
         placements := filter (\<lambda>p. p_version_id p \<notin> gone_v \<and> p_entry_id p \<notin> gone_e) (placements db),
         board_references :=
           map (\<lambda>r. if br_pinned_version_id r \<in> Some ` gone_v
                    then r\<lparr>br_pinned_version_id := None\<rparr> else r)
             (filter (\<lambda>r. br_board_id r \<notin> set ids) (board_references db)),
         accumulated_scores :=
           filter (\<lambda>a. a_board_id a \<notin> set ids \<and> a_entry_id a \<notin> gone_e) (accumulated_scores db),
         collection_boards := filter (\<lambda>m. m_board_id m \<notin> set ids) (collection_boards db)\<rparr>)"

definition delete_collection_rows :: "uuid list \<Rightarrow> db \<Rightarrow> db" where
  "delete_collection_rows ids db =
     db\<lparr>collections := filter (\<lambda>c. c_id c \<notin> set ids) (collections db),
        collection_boards := filter (\<lambda>m. m_collection_id m \<notin> set ids) (collection_boards db)\<rparr>"

section \<open>The invariant\<close>

definition keys_ok :: "db \<Rightarrow> bool" where
  "keys_ok db \<longleftrightarrow>
     distinct (map b_id (boards db)) \<and> distinct (map b_slug (boards db)) \<and>
     distinct (map e_id (entries db)) \<and>
     distinct (map (\<lambda>e. (e_board_id e, e_slug e)) (entries db)) \<and>
     distinct (map v_id (versions db)) \<and>
     distinct (map (\<lambda>v. (v_board_id v, v_number v)) (versions db)) \<and>
     distinct (map p_id (placements db)) \<and>
     distinct (map (\<lambda>p. (p_version_id p, p_entry_id p)) (placements db)) \<and>
     distinct (map br_id (board_references db)) \<and>
     distinct (map a_id (accumulated_scores db)) \<and>
     distinct (map (\<lambda>a. (a_board_id a, a_entry_id a)) (accumulated_scores db)) \<and>
     distinct (map c_id (collections db)) \<and> distinct (map c_slug (collections db)) \<and>
     distinct (map (\<lambda>m. (m_collection_id m, m_board_id m)) (collection_boards db))"

lemma keys_okD:
  assumes "keys_ok db"
  shows "distinct (map b_id (boards db))" "distinct (map b_slug (boards db))"
    "distinct (map e_id (entries db))" "distinct (map (\<lambda>e. (e_board_id e, e_slug e)) (entries db))"
    "distinct (map v_id (versions db))" "distinct (map (\<lambda>v. (v_board_id v, v_number v)) (versions db))"
    "distinct (map p_id (placements db))"
    "distinct (map (\<lambda>p. (p_version_id p, p_entry_id p)) (placements db))"
    "distinct (map (\<lambda>a. (a_board_id a, a_entry_id a)) (accumulated_scores db))"
    "distinct (map c_id (collections db))" "distinct (map c_slug (collections db))"
    "distinct (map br_id (board_references db))"
  using assms by (simp_all add: keys_ok_def)

definition checks_ok :: "db \<Rightarrow> bool" where
  "checks_ok db \<longleftrightarrow>
     (\<forall>b \<in> set (boards db). board_check b) \<and>
     (\<forall>v \<in> set (versions db). version_check v \<and> in_i32 (v_number v)) \<and>
     (\<forall>r \<in> set (board_references db). reference_check r)"

definition version_keys :: "db \<Rightarrow> (uuid \<times> uuid) set" where
  "version_keys db = (\<lambda>v. (v_id v, v_board_id v)) ` set (versions db)"

definition entry_keys :: "db \<Rightarrow> (uuid \<times> uuid) set" where
  "entry_keys db = (\<lambda>e. (e_id e, e_board_id e)) ` set (entries db)"

text \<open>The entry \<open>eid\<close> and the version \<open>vid\<close> exist and belong to one board.\<close>

definition same_board :: "db \<Rightarrow> uuid \<Rightarrow> uuid \<Rightarrow> bool" where
  "same_board db vid eid \<longleftrightarrow> (\<exists>bid. (vid, bid) \<in> version_keys db \<and> (eid, bid) \<in> entry_keys db)"

definition pin_ok :: "db \<Rightarrow> board_reference \<Rightarrow> bool" where
  "pin_ok db r \<longleftrightarrow>
     (case br_pinned_version_id r of None \<Rightarrow> True
      | Some vid \<Rightarrow> (vid, br_board_id r) \<in> version_keys db)"

definition refs_ok :: "db \<Rightarrow> bool" where
  "refs_ok db \<longleftrightarrow>
     (\<forall>e \<in> set (entries db). e_board_id e \<in> b_id ` set (boards db)) \<and>
     (\<forall>v \<in> set (versions db). v_board_id v \<in> b_id ` set (boards db)) \<and>
     (\<forall>p \<in> set (placements db). same_board db (p_version_id p) (p_entry_id p)) \<and>
     (\<forall>r \<in> set (board_references db). br_board_id r \<in> b_id ` set (boards db) \<and> pin_ok db r) \<and>
     (\<forall>a \<in> set (accumulated_scores db).
        (a_entry_id a, a_board_id a) \<in> entry_keys db) \<and>
     (\<forall>m \<in> set (collection_boards db).
        m_collection_id m \<in> c_id ` set (collections db) \<and> m_board_id m \<in> b_id ` set (boards db))"

definition all_ids :: "db \<Rightarrow> uuid set" where
  "all_ids db =
     b_id ` set (boards db) \<union> e_id ` set (entries db) \<union> v_id ` set (versions db) \<union>
     p_id ` set (placements db) \<union> br_id ` set (board_references db) \<union>
     a_id ` set (accumulated_scores db) \<union> c_id ` set (collections db)"

definition ids_ok :: "svc \<Rightarrow> db \<Rightarrow> bool" where
  "ids_ok S db \<longleftrightarrow> all_ids db \<subseteq> uuidv7 S ` {..<drawn db}"

definition db_inv :: "svc \<Rightarrow> db \<Rightarrow> bool" where
  "db_inv S db \<longleftrightarrow> keys_ok db \<and> checks_ok db \<and> refs_ok db \<and> ids_ok S db"

lemma db_inv_empty [simp]: "db_inv S empty_db"
  by (simp add: db_inv_def keys_ok_def checks_ok_def refs_ok_def ids_ok_def all_ids_def empty_db_def)

lemma next_id_fresh: "svc_ok S \<Longrightarrow> ids_ok S db \<Longrightarrow> next_id S db \<notin> all_ids db"
  by (auto simp: svc_ok_def ids_ok_def next_id_def subset_iff dest: injD)

lemma ids_ok_grow:
  "ids_ok S db \<Longrightarrow> all_ids db' \<subseteq> insert (next_id S db) (all_ids db) \<Longrightarrow> drawn db' = Suc (drawn db) \<Longrightarrow>
   ids_ok S db'"
  by (fastforce simp: ids_ok_def next_id_def lessThan_Suc)

lemma ids_ok_same:
  "ids_ok S db \<Longrightarrow> all_ids db' \<subseteq> all_ids db \<Longrightarrow> drawn db' = drawn db \<Longrightarrow> ids_ok S db'"
  by (auto simp: ids_ok_def)

lemmas inv_unfolds = keys_ok_def checks_ok_def refs_ok_def

section \<open>Each statement keeps the invariant\<close>

lemma version_keys_mono: "set (versions db) \<subseteq> set (versions db') \<Longrightarrow> version_keys db \<subseteq> version_keys db'"
  by (auto simp: version_keys_def)

lemma entry_keys_mono: "set (entries db) \<subseteq> set (entries db') \<Longrightarrow> entry_keys db \<subseteq> entry_keys db'"
  by (auto simp: entry_keys_def)

lemma same_board_mono:
  "same_board db vid eid \<Longrightarrow> set (versions db) \<subseteq> set (versions db') \<Longrightarrow>
   set (entries db) \<subseteq> set (entries db') \<Longrightarrow> same_board db' vid eid"
  unfolding same_board_def using version_keys_mono entry_keys_mono by blast

lemma pin_ok_mono:
  "pin_ok db r \<Longrightarrow> set (versions db) \<subseteq> set (versions db') \<Longrightarrow> pin_ok db' r"
  unfolding pin_ok_def using version_keys_mono by (auto split: option.splits)

text \<open>Rows are only added, and each added row satisfies its references in the new database.\<close>

lemma refs_ok_grow:
  assumes "refs_ok db"
    and sub: "set (boards db) \<subseteq> set (boards db')" "set (entries db) \<subseteq> set (entries db')"
      "set (versions db) \<subseteq> set (versions db')" "set (collections db) \<subseteq> set (collections db')"
    and "\<And>e. e \<in> set (entries db') - set (entries db) \<Longrightarrow> e_board_id e \<in> b_id ` set (boards db')"
    and "\<And>v. v \<in> set (versions db') - set (versions db) \<Longrightarrow> v_board_id v \<in> b_id ` set (boards db')"
    and pl: "\<And>p. p \<in> set (placements db') - set (placements db) \<Longrightarrow>
      same_board db' (p_version_id p) (p_entry_id p)"
    and rf: "\<And>r. r \<in> set (board_references db') - set (board_references db) \<Longrightarrow>
      br_board_id r \<in> b_id ` set (boards db') \<and> pin_ok db' r"
    and ac: "\<And>a. a \<in> set (accumulated_scores db') - set (accumulated_scores db) \<Longrightarrow>
      (a_entry_id a, a_board_id a) \<in> entry_keys db'"
    and cb: "\<And>m. m \<in> set (collection_boards db') - set (collection_boards db) \<Longrightarrow>
      m_collection_id m \<in> c_id ` set (collections db') \<and> m_board_id m \<in> b_id ` set (boards db')"
  shows "refs_ok db'"
proof -
  have b: "b_id ` set (boards db) \<subseteq> b_id ` set (boards db')"
    and c: "c_id ` set (collections db) \<subseteq> c_id ` set (collections db')"
    using sub by auto
  have "e_board_id e \<in> b_id ` set (boards db')" if "e \<in> set (entries db')" for e
    using that assms(1,6) b by (cases "e \<in> set (entries db)") (auto simp: refs_ok_def)
  moreover have "v_board_id v \<in> b_id ` set (boards db')" if "v \<in> set (versions db')" for v
    using that assms(1,7) b by (cases "v \<in> set (versions db)") (auto simp: refs_ok_def)
  moreover have "same_board db' (p_version_id p) (p_entry_id p)" if "p \<in> set (placements db')" for p
    using that assms(1) pl sub
    by (cases "p \<in> set (placements db)") (auto simp: refs_ok_def intro: same_board_mono)
  moreover have "br_board_id r \<in> b_id ` set (boards db') \<and> pin_ok db' r"
    if "r \<in> set (board_references db')" for r
  proof (cases "r \<in> set (board_references db)")
    case True
    with assms(1) have "br_board_id r \<in> b_id ` set (boards db)" "pin_ok db r"
      by (auto simp: refs_ok_def)
    with b sub show ?thesis by (blast intro: pin_ok_mono)
  qed (use that rf in blast)
  moreover have "(a_entry_id a, a_board_id a) \<in> entry_keys db'"
    if "a \<in> set (accumulated_scores db')" for a
    using that assms(1) ac entry_keys_mono [OF sub(2)]
    by (cases "a \<in> set (accumulated_scores db)") (auto simp: refs_ok_def)
  moreover have "m_collection_id m \<in> c_id ` set (collections db') \<and> m_board_id m \<in> b_id ` set (boards db')"
    if "m \<in> set (collection_boards db')" for m
    using that assms(1) cb b c
    by (cases "m \<in> set (collection_boards db)") (auto simp: refs_ok_def)
  ultimately show ?thesis unfolding refs_ok_def by blast
qed

lemma insert_board_inv:
  assumes "db_inv S db" "insert_board b db = Inr db'" "b_id b = next_id S db"
  shows "db_inv S db'"
proof -
  from assms(2) have d: "board_check b" "b_id b \<notin> b_id ` set (boards db)"
      "b_slug b \<notin> b_slug ` set (boards db)"
      "db' = db\<lparr>boards := boards db @ [b], drawn := Suc (drawn db)\<rparr>"
    by (auto simp: insert_board_def split: if_splits)
  have "keys_ok db'" using assms(1) d by (simp add: db_inv_def keys_ok_def)
  moreover have "checks_ok db'" using assms(1) d by (simp add: db_inv_def checks_ok_def)
  moreover have "refs_ok db'"
    by (rule refs_ok_grow [of db]) (use assms(1) d in \<open>auto simp: db_inv_def\<close>)
  moreover have "ids_ok S db'"
    by (rule ids_ok_grow [of S db]) (use assms(1,3) d in \<open>auto simp: db_inv_def all_ids_def\<close>)
  ultimately show ?thesis by (simp add: db_inv_def)
qed

lemma insert_entry_inv:
  assumes "db_inv S db" "insert_entry e db = Inr db'" "e_id e = next_id S db"
  shows "db_inv S db'"
proof -
  from assms(2) have d: "e_id e \<notin> e_id ` set (entries db)"
      "(e_board_id e, e_slug e) \<notin> (\<lambda>e. (e_board_id e, e_slug e)) ` set (entries db)"
      "e_board_id e \<in> b_id ` set (boards db)"
      "db' = db\<lparr>entries := entries db @ [e], drawn := Suc (drawn db)\<rparr>"
    by (auto simp: insert_entry_def split: if_splits)
  have "keys_ok db'" using assms(1) d by (simp add: db_inv_def keys_ok_def)
  moreover have "checks_ok db'" using assms(1) d by (simp add: db_inv_def checks_ok_def)
  moreover have "refs_ok db'"
    by (rule refs_ok_grow [of db]) (use assms(1) d in \<open>auto simp: db_inv_def\<close>)
  moreover have "ids_ok S db'"
    by (rule ids_ok_grow [of S db]) (use assms(1,3) d in \<open>auto simp: db_inv_def all_ids_def\<close>)
  ultimately show ?thesis by (simp add: db_inv_def)
qed

lemma insert_version_inv:
  assumes "db_inv S db" "insert_version v db = Inr db'" "v_id v = next_id S db"
  shows "db_inv S db'"
proof -
  from assms(2) have d: "in_i32 (v_number v)" "version_check v" "v_id v \<notin> v_id ` set (versions db)"
      "(v_board_id v, v_number v) \<notin> (\<lambda>v. (v_board_id v, v_number v)) ` set (versions db)"
      "v_board_id v \<in> b_id ` set (boards db)"
      "db' = db\<lparr>versions := versions db @ [v], drawn := Suc (drawn db)\<rparr>"
    by (auto simp: insert_version_def split: if_splits)
  have "keys_ok db'" using assms(1) d by (simp add: db_inv_def keys_ok_def)
  moreover have "checks_ok db'" using assms(1) d by (simp add: db_inv_def checks_ok_def)
  moreover have "refs_ok db'"
    by (rule refs_ok_grow [of db]) (use assms(1) d in \<open>auto simp: db_inv_def\<close>)
  moreover have "ids_ok S db'"
    by (rule ids_ok_grow [of S db]) (use assms(1,3) d in \<open>auto simp: db_inv_def all_ids_def\<close>)
  ultimately show ?thesis by (simp add: db_inv_def)
qed

lemma insert_placement_inv:
  assumes "db_inv S db" "insert_placement p db = Inr db'" "p_id p = next_id S db"
    and "same_board db (p_version_id p) (p_entry_id p)"
  shows "db_inv S db'"
proof -
  from assms(2) have d: "p_id p \<notin> p_id ` set (placements db)"
      "(p_version_id p, p_entry_id p) \<notin> (\<lambda>p. (p_version_id p, p_entry_id p)) ` set (placements db)"
      "db' = db\<lparr>placements := placements db @ [p], drawn := Suc (drawn db)\<rparr>"
    by (auto simp: insert_placement_def split: if_splits)
  have "same_board db' (p_version_id p) (p_entry_id p)"
    by (rule same_board_mono [OF assms(4)]) (simp_all add: d)
  note sb = this
  have "refs_ok db'"
    by (rule refs_ok_grow [of db]) (use assms(1) sb d in \<open>auto simp: db_inv_def\<close>)
  moreover have "keys_ok db'" using assms(1) d by (simp add: db_inv_def keys_ok_def)
  moreover have "checks_ok db'" using assms(1) d by (simp add: db_inv_def checks_ok_def)
  moreover have "ids_ok S db'"
    by (rule ids_ok_grow [of S db]) (use assms(1,3) d in \<open>auto simp: db_inv_def all_ids_def\<close>)
  ultimately show ?thesis by (simp add: db_inv_def)
qed

lemma insert_reference_inv:
  assumes "db_inv S db" "insert_reference r db = Inr db'" "br_id r = next_id S db"
    and "pin_ok db r"
  shows "db_inv S db'"
proof -
  from assms(2) have d: "reference_check r" "br_id r \<notin> br_id ` set (board_references db)"
      "br_board_id r \<in> b_id ` set (boards db)"
      "db' = db\<lparr>board_references := board_references db @ [r], drawn := Suc (drawn db)\<rparr>"
    by (auto simp: insert_reference_def split: if_splits option.splits)
  have sb: "pin_ok db' r" by (rule pin_ok_mono [OF assms(4)]) (simp add: d)
  have "refs_ok db'"
    by (rule refs_ok_grow [of db]) (use assms(1) sb d in \<open>auto simp: db_inv_def\<close>)
  moreover have "keys_ok db'" using assms(1) d by (simp add: db_inv_def keys_ok_def)
  moreover have "checks_ok db'" using assms(1) d by (simp add: db_inv_def checks_ok_def)
  moreover have "ids_ok S db'"
    by (rule ids_ok_grow [of S db]) (use assms(1,3) d in \<open>auto simp: db_inv_def all_ids_def\<close>)
  ultimately show ?thesis by (simp add: db_inv_def)
qed

lemma insert_collection_inv:
  assumes "db_inv S db" "insert_collection c db = Inr db'" "c_id c = next_id S db"
  shows "db_inv S db'"
proof -
  from assms(2) have d: "c_id c \<notin> c_id ` set (collections db)" "c_slug c \<notin> c_slug ` set (collections db)"
      "db' = db\<lparr>collections := collections db @ [c], drawn := Suc (drawn db)\<rparr>"
    by (auto simp: insert_collection_def split: if_splits)
  have "refs_ok db'"
    by (rule refs_ok_grow [of db]) (use assms(1) d in \<open>auto simp: db_inv_def\<close>)
  moreover have "keys_ok db'" using assms(1) d by (simp add: db_inv_def keys_ok_def)
  moreover have "checks_ok db'" using assms(1) d by (simp add: db_inv_def checks_ok_def)
  moreover have "ids_ok S db'"
    by (rule ids_ok_grow [of S db]) (use assms(1,3) d in \<open>auto simp: db_inv_def all_ids_def\<close>)
  ultimately show ?thesis by (simp add: db_inv_def)
qed

lemma insert_collection_board_inv:
  assumes "db_inv S db" "insert_collection_board m db = Inr db'"
  shows "db_inv S db'"
proof -
  from assms(2) have d: "(m_collection_id m, m_board_id m) \<notin>
        (\<lambda>m. (m_collection_id m, m_board_id m)) ` set (collection_boards db)"
      "m_collection_id m \<in> c_id ` set (collections db)" "m_board_id m \<in> b_id ` set (boards db)"
      "db' = db\<lparr>collection_boards := collection_boards db @ [m]\<rparr>"
    by (auto simp: insert_collection_board_def split: if_splits)
  have "refs_ok db'"
    by (rule refs_ok_grow [of db]) (use assms(1) d in \<open>auto simp: db_inv_def\<close>)
  moreover have "keys_ok db'" using assms(1) d by (simp add: db_inv_def keys_ok_def)
  moreover have "checks_ok db'" using assms(1) d by (simp add: db_inv_def checks_ok_def)
  moreover have "ids_ok S db'"
    by (rule ids_ok_same [of S db]) (use assms(1) d in \<open>auto simp: db_inv_def all_ids_def\<close>)
  ultimately show ?thesis by (simp add: db_inv_def)
qed

text \<open>
  The references of a database depend on the tables only through their key columns.
\<close>

lemma refs_ok_cong:
  assumes "refs_ok db"
    and "b_id ` set (boards db') = b_id ` set (boards db)"
    and "entry_keys db' = entry_keys db" "version_keys db' = version_keys db"
    and "c_id ` set (collections db') = c_id ` set (collections db)"
    and "(\<lambda>p. (p_version_id p, p_entry_id p)) ` set (placements db') =
         (\<lambda>p. (p_version_id p, p_entry_id p)) ` set (placements db)"
    and "board_references db' = board_references db"
    and "(\<lambda>a. (a_entry_id a, a_board_id a)) ` set (accumulated_scores db') =
         (\<lambda>a. (a_entry_id a, a_board_id a)) ` set (accumulated_scores db)"
    and "collection_boards db' = collection_boards db"
  shows "refs_ok db'"
proof -
  have sb: "same_board db' = same_board db" and pin: "pin_ok db' = pin_ok db"
    using assms(3,4) by (simp_all add: same_board_def pin_ok_def fun_eq_iff split: option.split)
  have e: "(\<forall>e \<in> set (entries x). e_board_id e \<in> B) \<longleftrightarrow> snd ` entry_keys x \<subseteq> B" for x :: db and B
    by (simp add: entry_keys_def image_image image_subset_iff)
  have v: "(\<forall>v \<in> set (versions x). v_board_id v \<in> B) \<longleftrightarrow> snd ` version_keys x \<subseteq> B" for x :: db and B
    by (simp add: version_keys_def image_image image_subset_iff)
  have p: "(\<forall>p \<in> set (placements x). P (p_version_id p) (p_entry_id p)) \<longleftrightarrow>
      (\<forall>q \<in> (\<lambda>p. (p_version_id p, p_entry_id p)) ` set (placements x). P (fst q) (snd q))" for x :: db and P
    by auto
  have a: "(\<forall>a \<in> set (accumulated_scores x). (a_entry_id a, a_board_id a) \<in> E) \<longleftrightarrow>
      (\<lambda>a. (a_entry_id a, a_board_id a)) ` set (accumulated_scores x) \<subseteq> E" for x :: db and E
    by auto
  show ?thesis
    using assms(1) unfolding refs_ok_def e v p a sb pin assms(2-9) .
qed

text \<open>Updates that leave every key and reference column alone.\<close>

lemma update_boards_inv:
  assumes "db_inv S db"
    and "\<And>b. b \<in> set (boards db) \<Longrightarrow> P b \<Longrightarrow> b_id (f b) = b_id b \<and> b_slug (f b) = b_slug b \<and> board_check (f b)"
  shows "db_inv S (db\<lparr>boards := update_where P f (boards db)\<rparr>)"
proof -
  let ?db = "db\<lparr>boards := update_where P f (boards db)\<rparr>"
  have m: "map b_id (boards ?db) = map b_id (boards db)" "map b_slug (boards ?db) = map b_slug (boards db)"
    using assms(2) by (simp_all add: map_update_where)
  note i = map_eq_image [OF m(1)]
  have "keys_ok ?db" using assms(1) m by (simp add: db_inv_def keys_ok_def)
  moreover have "checks_ok ?db"
    using assms by (auto simp: db_inv_def checks_ok_def set_update_where)
  moreover have "refs_ok ?db"
    by (rule refs_ok_cong [of db]) (use assms(1) i in \<open>simp_all add: db_inv_def entry_keys_def version_keys_def\<close>)
  moreover have "ids_ok S ?db" using assms(1) i by (simp add: db_inv_def ids_ok_def all_ids_def)
  ultimately show ?thesis by (simp add: db_inv_def)
qed

lemma update_entries_inv:
  assumes "db_inv S db"
    and f: "\<And>e. e \<in> set (entries db) \<Longrightarrow> P e \<Longrightarrow>
      e_id (f e) = e_id e \<and> e_board_id (f e) = e_board_id e \<and> e_slug (f e) = e_slug e"
  shows "db_inv S (db\<lparr>entries := update_where P f (entries db)\<rparr>)"
proof -
  let ?db = "db\<lparr>entries := update_where P f (entries db)\<rparr>"
  have m: "map e_id (entries ?db) = map e_id (entries db)"
      "map (\<lambda>e. (e_board_id e, e_slug e)) (entries ?db) = map (\<lambda>e. (e_board_id e, e_slug e)) (entries db)"
      "map (\<lambda>e. (e_id e, e_board_id e)) (entries ?db) = map (\<lambda>e. (e_id e, e_board_id e)) (entries db)"
    using f by (simp_all add: map_update_where)
  note i = map_eq_image [OF m(1)] map_eq_image [OF m(3), folded entry_keys_def]
  have "refs_ok ?db"
    by (rule refs_ok_cong [of db]) (use assms(1) i in \<open>simp_all add: db_inv_def version_keys_def\<close>)
  moreover have "keys_ok ?db" using assms(1) m by (simp add: db_inv_def keys_ok_def)
  moreover have "checks_ok ?db" using assms(1) by (simp add: db_inv_def checks_ok_def)
  moreover have "ids_ok S ?db" using assms(1) i by (simp add: db_inv_def ids_ok_def all_ids_def)
  ultimately show ?thesis by (simp add: db_inv_def)
qed

lemma update_placements_inv:
  assumes "db_inv S db"
    and "\<And>p. p \<in> set (placements db) \<Longrightarrow> P p \<Longrightarrow>
      p_id (f p) = p_id p \<and> p_version_id (f p) = p_version_id p \<and> p_entry_id (f p) = p_entry_id p"
  shows "db_inv S (db\<lparr>placements := update_where P f (placements db)\<rparr>)"
proof -
  let ?db = "db\<lparr>placements := update_where P f (placements db)\<rparr>"
  have m: "map p_id (placements ?db) = map p_id (placements db)"
      "map (\<lambda>p. (p_version_id p, p_entry_id p)) (placements ?db) =
       map (\<lambda>p. (p_version_id p, p_entry_id p)) (placements db)"
    using assms(2) by (simp_all add: map_update_where)
  note i = map_eq_image [OF m(1)] map_eq_image [OF m(2)]
  have "keys_ok ?db" using assms(1) m by (simp add: db_inv_def keys_ok_def)
  moreover have "checks_ok ?db" using assms(1) by (simp add: db_inv_def checks_ok_def)
  moreover have "refs_ok ?db"
    by (rule refs_ok_cong [of db]) (use assms(1) i in \<open>simp_all add: db_inv_def entry_keys_def version_keys_def\<close>)
  moreover have "ids_ok S ?db" using assms(1) i by (simp add: db_inv_def ids_ok_def all_ids_def)
  ultimately show ?thesis by (simp add: db_inv_def)
qed

lemma entry_keys_update:
  assumes "\<And>e. P e \<Longrightarrow> e_id (f e) = e_id e \<and> e_board_id (f e) = e_board_id e"
  shows "entry_keys (db\<lparr>entries := update_where P f (entries db)\<rparr>) = entry_keys db"
proof -
  have "map (\<lambda>e. (e_id e, e_board_id e)) (update_where P f (entries db)) =
      map (\<lambda>e. (e_id e, e_board_id e)) (entries db)"
    using assms by (simp add: map_update_where)
  from map_eq_image [OF this] show ?thesis by (simp add: entry_keys_def)
qed

lemma upsert_entry_inv:
  assumes "db_inv S db" "upsert_entry S t bid slug name db = Inr (eid, db')"
  shows "db_inv S db'"
proof (cases "find (\<lambda>e. e_board_id e = bid \<and> e_slug e = slug) (entries db)")
  case None
  with assms(2) show ?thesis
    by (auto simp: upsert_entry_def intro: insert_entry_inv [OF assms(1)])
next
  case (Some e)
  with assms show ?thesis by (auto simp: upsert_entry_def intro: update_entries_inv)
qed

text \<open>The entry an upsert returns is on the board it was asked for.\<close>

lemma upsert_entry_key:
  assumes "upsert_entry S t bid slug name db = Inr (eid, db')"
  shows "(eid, bid) \<in> entry_keys db'"
proof (cases "find (\<lambda>e. e_board_id e = bid \<and> e_slug e = slug) (entries db)")
  case None
  with assms show ?thesis
    by (auto simp: upsert_entry_def insert_entry_def entry_keys_def split: if_splits)
next
  case (Some e)
  then have "e \<in> set (entries db)" "e_board_id e = bid" by (auto dest: find_Some_in)
  then have "(e_id e, bid) \<in> entry_keys db" by (auto simp: entry_keys_def)
  with Some assms show ?thesis by (auto simp: upsert_entry_def entry_keys_update)
qed

lemma entry_keys_boards:
  "refs_ok db \<Longrightarrow> (eid, bid) \<in> entry_keys db \<Longrightarrow> bid \<in> b_id ` set (boards db) \<and> eid \<in> e_id ` set (entries db)"
  by (auto simp: refs_ok_def entry_keys_def)

lemma upsert_score_inv:
  assumes "db_inv S db" "upsert_score S t bid eid sc db = Inr (a, db')" "(eid, bid) \<in> entry_keys db"
  shows "db_inv S db'"
proof (cases "find (\<lambda>a. a_board_id a = bid \<and> a_entry_id a = eid) (accumulated_scores db)")
  case None
  then have n: "(bid, eid) \<notin> (\<lambda>a. (a_board_id a, a_entry_id a)) ` set (accumulated_scores db)"
    by (auto simp: find_None_iff)
  let ?a = "\<lparr>a_id = next_id S db, a_board_id = bid, a_entry_id = eid, a_score = sc, a_submitted_at = t\<rparr>"
  from None assms(2) have d: "a_id ?a \<notin> a_id ` set (accumulated_scores db)"
      "db' = db\<lparr>accumulated_scores := accumulated_scores db @ [?a], drawn := Suc (drawn db)\<rparr>"
    by (auto simp: upsert_score_def Let_def split: if_splits)
  have k: "entry_keys db' = entry_keys db" by (simp add: d entry_keys_def)
  have "refs_ok db'"
    by (rule refs_ok_grow [of db]) (use assms(1,3) k d in \<open>auto simp: db_inv_def\<close>)
  moreover have "keys_ok db'" using assms(1) n d by (simp add: db_inv_def keys_ok_def)
  moreover have "checks_ok db'" using assms(1) d by (simp add: db_inv_def checks_ok_def)
  moreover have "ids_ok S db'"
    by (rule ids_ok_grow [of S db]) (use assms(1) d in \<open>auto simp: db_inv_def all_ids_def\<close>)
  ultimately show ?thesis by (simp add: db_inv_def)
next
  case (Some b)
  let ?f = "\<lambda>x. x\<lparr>a_score := sc, a_submitted_at := t\<rparr>"
  from Some assms(2) have d:
      "db' = db\<lparr>accumulated_scores := update_where (\<lambda>x. a_id x = a_id b) ?f (accumulated_scores db)\<rparr>"
    by (simp add: upsert_score_def)
  have m: "map a_id (accumulated_scores db') = map a_id (accumulated_scores db)"
      "map (\<lambda>a. (a_board_id a, a_entry_id a)) (accumulated_scores db') =
       map (\<lambda>a. (a_board_id a, a_entry_id a)) (accumulated_scores db)"
      "map (\<lambda>a. (a_entry_id a, a_board_id a)) (accumulated_scores db') =
       map (\<lambda>a. (a_entry_id a, a_board_id a)) (accumulated_scores db)"
    by (simp_all add: d map_update_where)
  note i = map_eq_image [OF m(1)] map_eq_image [OF m(3)]
  have "refs_ok db'"
    by (rule refs_ok_cong [of db])
      (use assms(1) i in \<open>simp_all add: d db_inv_def entry_keys_def version_keys_def\<close>)
  moreover have "keys_ok db'" using assms(1) m by (simp add: d db_inv_def keys_ok_def)
  moreover have "checks_ok db'" using assms(1) by (simp add: d db_inv_def checks_ok_def)
  moreover have "ids_ok S db'" using assms(1) i by (simp add: d db_inv_def ids_ok_def all_ids_def)
  ultimately show ?thesis by (simp add: db_inv_def)
qed

lemma delete_entry_row_inv:
  assumes "db_inv S db"
  shows "db_inv S (delete_entry_row eid db)"
proof -
  let ?db = "delete_entry_row eid db"
  have ek: "(i, j) \<in> entry_keys ?db \<longleftrightarrow> (i, j) \<in> entry_keys db \<and> i \<noteq> eid" for i j
    by (auto simp: delete_entry_row_def entry_keys_def)
  have vk: "version_keys ?db = version_keys db" by (simp add: delete_entry_row_def version_keys_def)
  have sb: "same_board ?db vid i \<longleftrightarrow> same_board db vid i \<and> i \<noteq> eid" for vid i
    by (auto simp: same_board_def ek vk)
  have pin: "pin_ok ?db = pin_ok db" by (simp add: fun_eq_iff pin_ok_def vk split: option.split)
  have "refs_ok ?db"
    using assms unfolding refs_ok_def sb pin ek db_inv_def
    by (auto simp: delete_entry_row_def)
  moreover have "keys_ok ?db"
    using assms by (simp add: db_inv_def keys_ok_def delete_entry_row_def distinct_map_filter)
  moreover have "checks_ok ?db"
    using assms by (simp add: db_inv_def checks_ok_def delete_entry_row_def)
  moreover have "ids_ok S ?db"
    by (rule ids_ok_same [of S db])
      (use assms in \<open>auto simp: db_inv_def all_ids_def delete_entry_row_def\<close>)
  ultimately show ?thesis by (simp add: db_inv_def)
qed

lemma delete_board_rows_inv:
  assumes "db_inv S db"
  shows "db_inv S (delete_board_rows ids db)"
proof -
  let ?db = "delete_board_rows ids db"
  from assms have r: "refs_ok db" and k: "keys_ok db" and c: "checks_ok db" and i: "ids_ok S db"
    by (simp_all add: db_inv_def)
  have ek: "(a, b) \<in> entry_keys ?db \<longleftrightarrow> (a, b) \<in> entry_keys db \<and> b \<notin> set ids" for a b
    by (auto simp: delete_board_rows_def Let_def entry_keys_def)
  have vk: "(a, b) \<in> version_keys ?db \<longleftrightarrow> (a, b) \<in> version_keys db \<and> b \<notin> set ids" for a b
    by (auto simp: delete_board_rows_def Let_def version_keys_def)
  have bid: "b_id ` set (boards ?db) = b_id ` set (boards db) - set ids"
    by (auto simp: delete_board_rows_def Let_def)
  have sb: "same_board ?db (p_version_id p) (p_entry_id p)" if "p \<in> set (placements ?db)" for p
  proof -
    from that r obtain b where b: "(p_version_id p, b) \<in> version_keys db" "(p_entry_id p, b) \<in> entry_keys db"
      by (auto simp: delete_board_rows_def Let_def refs_ok_def same_board_def)
    with that have "b \<notin> set ids"
      by (auto simp: delete_board_rows_def Let_def version_keys_def)
    with b show ?thesis by (auto simp: same_board_def ek vk)
  qed
  have rf: "br_board_id q \<in> b_id ` set (boards ?db) \<and> pin_ok ?db q" if "q \<in> set (board_references ?db)" for q
  proof -
    from that obtain q0 where q0: "q0 \<in> set (board_references db)" "br_board_id q0 \<notin> set ids"
        "br_board_id q = br_board_id q0" "br_pinned_version_id q \<in> {None, br_pinned_version_id q0}"
      by (auto simp: delete_board_rows_def Let_def split: if_splits)
    with r have "br_board_id q0 \<in> b_id ` set (boards db)" "pin_ok db q0" by (auto simp: refs_ok_def)
    with q0 show ?thesis by (auto simp: bid pin_ok_def vk split: option.splits)
  qed
  have "refs_ok ?db" unfolding refs_ok_def
  proof (intro conjI ballI)
    fix m assume "m \<in> set (collection_boards ?db)"
    with r show "m_collection_id m \<in> c_id ` set (collections ?db)" "m_board_id m \<in> b_id ` set (boards ?db)"
      unfolding bid by (auto simp: delete_board_rows_def Let_def refs_ok_def)
  next
    fix a assume "a \<in> set (accumulated_scores ?db)"
    with r show "(a_entry_id a, a_board_id a) \<in> entry_keys ?db"
      unfolding ek by (auto simp: delete_board_rows_def Let_def refs_ok_def)
  next
    fix e assume "e \<in> set (entries ?db)"
    with r show "e_board_id e \<in> b_id ` set (boards ?db)"
      unfolding bid by (auto simp: delete_board_rows_def Let_def refs_ok_def)
  next
    fix v assume "v \<in> set (versions ?db)"
    with r show "v_board_id v \<in> b_id ` set (boards ?db)"
      unfolding bid by (auto simp: delete_board_rows_def Let_def refs_ok_def)
  qed (use sb rf in blast)+
  have "map br_id (board_references ?db) =
      map br_id (filter (\<lambda>r. br_board_id r \<notin> set ids) (board_references db))"
    by (simp add: delete_board_rows_def Let_def)
  then have "distinct (map br_id (board_references ?db))"
    using k by (simp add: keys_ok_def distinct_map_filter)
  moreover have "keys_ok (?db\<lparr>board_references := []\<rparr>)"
    using k by (simp add: keys_ok_def delete_board_rows_def Let_def distinct_map_filter)
  ultimately have "keys_ok ?db" by (simp add: keys_ok_def)
  moreover note \<open>refs_ok ?db\<close>
  moreover have "checks_ok ?db"
    using c by (auto simp: checks_ok_def reference_check_def delete_board_rows_def Let_def)
  moreover have "ids_ok S ?db"
    by (rule ids_ok_same [OF i])
      (auto simp: all_ids_def delete_board_rows_def Let_def)
  ultimately show ?thesis by (simp add: db_inv_def)
qed

lemma delete_collection_rows_inv:
  assumes "db_inv S db"
  shows "db_inv S (delete_collection_rows ids db)"
proof -
  let ?db = "delete_collection_rows ids db"
  have "refs_ok ?db"
    using assms by (auto simp: delete_collection_rows_def db_inv_def refs_ok_def same_board_def
        pin_ok_def version_keys_def entry_keys_def split: option.split)
  moreover have "keys_ok ?db"
    using assms by (simp add: db_inv_def keys_ok_def delete_collection_rows_def distinct_map_filter)
  moreover have "checks_ok ?db"
    using assms by (simp add: db_inv_def checks_ok_def delete_collection_rows_def)
  moreover have "ids_ok S ?db"
    by (rule ids_ok_same [of S db])
      (use assms in \<open>auto simp: db_inv_def all_ids_def delete_collection_rows_def\<close>)
  ultimately show ?thesis by (simp add: db_inv_def)
qed

end
