(* ===== verification/Validate.thy ===== *)
theory Validate
  imports Tables
begin

text \<open>The checks of \<open>repo/mod.rs\<close> on slugs, names and score equality.\<close>

definition slug_byte :: "char \<Rightarrow> bool" where
  "slug_byte b \<longleftrightarrow>
     (CHR ''a'' \<le> b \<and> b \<le> CHR ''z'') \<or> (CHR ''0'' \<le> b \<and> b \<le> CHR ''9'') \<or> b = CHR ''-''"

definition starts_with_char :: "char \<Rightarrow> string \<Rightarrow> bool" where
  "starts_with_char c s = (case s of [] \<Rightarrow> False | x # _ \<Rightarrow> x = c)"

definition ends_with_char :: "char \<Rightarrow> string \<Rightarrow> bool" where
  "ends_with_char c s = starts_with_char c (rev s)"

definition validate_slug :: "string \<Rightarrow> unit result" where
  "validate_slug slug =
     (if slug = [] \<or> 128 < length slug
        then Inl (Validation [Lit ''slug must be 1-128 characters''])
      else if \<not> list_all slug_byte slug
        then Inl (Validation [Lit ''slug '', Quo slug,
               Lit '' must contain only lowercase letters, digits, and hyphens''])
      else if starts_with_char (CHR ''-'') slug \<or> ends_with_char (CHR ''-'') slug
        then Inl (Validation [Lit ''slug '', Quo slug, Lit '' must not start or end with a hyphen''])
      else Inr ())"

text \<open>Bitwise equality of optional scores.\<close>

definition scores_equal :: "f64 option \<Rightarrow> f64 option \<Rightarrow> bool" where
  "scores_equal a b =
     (case (a, b) of (None, None) \<Rightarrow> True | (Some x, Some y) \<Rightarrow> x = y | _ \<Rightarrow> False)"

definition validate_name :: "string \<Rightarrow> unit result" where
  "validate_name name =
     (if name = [] then Inl (Validation [Lit ''name must not be empty''])
      else if 256 < length name then Inl (Validation [Lit ''name must be 256 characters or fewer''])
      else Inr ())"

text \<open>The slugs and names the checks let through.\<close>

definition slug_ok :: "string \<Rightarrow> bool" where
  "slug_ok s \<longleftrightarrow>
     1 \<le> length s \<and> length s \<le> 128 \<and> (\<forall>c \<in> set s. slug_byte c) \<and> hd s \<noteq> CHR ''-'' \<and> last s \<noteq> CHR ''-''"

definition name_ok :: "string \<Rightarrow> bool" where
  "name_ok s \<longleftrightarrow> 1 \<le> length s \<and> length s \<le> 256"

lemma starts_with_char_iff: "starts_with_char c s \<longleftrightarrow> s \<noteq> [] \<and> hd s = c"
  by (simp add: starts_with_char_def split: list.split)

lemma validate_slug_iff [simp]: "validate_slug s = Inr () \<longleftrightarrow> slug_ok s"
  by (cases "s = []")
    (auto simp: validate_slug_def slug_ok_def list_all_iff starts_with_char_iff ends_with_char_def
      hd_rev Suc_le_eq)

lemma validate_name_iff [simp]: "validate_name s = Inr () \<longleftrightarrow> name_ok s"
  by (cases "s = []") (auto simp: validate_name_def name_ok_def Suc_le_eq)

lemma scores_equal_iff [simp]: "scores_equal a b \<longleftrightarrow> a = b"
  by (simp add: scores_equal_def split: option.split)

lemma validate_slug_ok [simp]: "slug_ok s \<Longrightarrow> validate_slug s = Inr ()"
  by simp

lemma validate_name_ok [simp]: "name_ok s \<Longrightarrow> validate_name s = Inr ()"
  by simp

lemma errs_validate_slug [errs]: "(\<And>m. Validation m \<in> E) \<Longrightarrow> errs_in E (validate_slug s)"
  by (auto simp: validate_slug_def errs_in_def)

lemma errs_validate_name [errs]: "(\<And>m. Validation m \<in> E) \<Longrightarrow> errs_in E (validate_name s)"
  by (auto simp: validate_name_def errs_in_def)

text \<open>A slug holds none of the separators that keys and cursors are built with.\<close>

lemma slug_ok_no_colon: "slug_ok s \<Longrightarrow> CHR '':'' \<notin> set s"
  by (auto simp: slug_ok_def slug_byte_def less_eq_char_def)

end
