(* ===== verification/Pagination.thy ===== *)
theory Pagination
  imports Validate
begin

text \<open>
  Keyset pagination: the limits and cursors of \<open>models.rs\<close> and the query that every
  \<open>list_paginated\<close> of the repository makes. The contract of such a listing is the locale
  \<open>keyset_listing\<close>; its lemma is that a client that follows \<open>next_cursor\<close> reads every row once,
  in order.
\<close>

section \<open>Cursors\<close>

datatype cursor = Cursor (cursor_ts: timestamp) (cursor_id: uuid)

text \<open>SQL's row comparison \<open>(created_at, id) < ($1, $2)\<close>.\<close>

instantiation cursor :: linorder
begin

definition less_eq_cursor :: "cursor \<Rightarrow> cursor \<Rightarrow> bool" where
  "less_eq_cursor a b \<longleftrightarrow>
     cursor_ts a < cursor_ts b \<or> (cursor_ts a = cursor_ts b \<and> cursor_id a \<le> cursor_id b)"

definition less_cursor :: "cursor \<Rightarrow> cursor \<Rightarrow> bool" where
  "less_cursor a b \<longleftrightarrow>
     cursor_ts a < cursor_ts b \<or> (cursor_ts a = cursor_ts b \<and> cursor_id a < cursor_id b)"

instance
  by standard (auto simp: less_eq_cursor_def less_cursor_def cursor.expand)

end

text \<open>
  \<open>to_rfc3339\<close> and \<open>parse\<close> of chrono, \<open>Display\<close> and \<open>FromStr\<close> of uuid. What the code relies
  on: parsing inverts printing, and a printed timestamp has no comma.
\<close>

record codec =
  show_ts :: "timestamp \<Rightarrow> string"
  parse_ts :: "string \<Rightarrow> timestamp option"
  show_uuid :: "uuid \<Rightarrow> string"
  parse_uuid :: "string \<Rightarrow> uuid option"

definition codec_ok :: "codec \<Rightarrow> bool" where
  "codec_ok C \<longleftrightarrow>
     (\<forall>t. parse_ts C (show_ts C t) = Some t \<and> CHR '','' \<notin> set (show_ts C t)) \<and>
     (\<forall>i. parse_uuid C (show_uuid C i) = Some i)"

text \<open>A concrete codec: a sign and tally marks.\<close>

definition sample_codec :: codec where
  "sample_codec =
     \<lparr>show_ts = (\<lambda>t. (if t < 0 then CHR ''-'' else CHR ''+'') # replicate (nat \<bar>t\<bar>) (CHR ''1'')),
      parse_ts = (\<lambda>s. case s of [] \<Rightarrow> None
                    | c # r \<Rightarrow> Some (if c = CHR ''-'' then - int (length r) else int (length r))),
      show_uuid = (\<lambda>n. replicate n (CHR ''1'')),
      parse_uuid = (\<lambda>s. Some (length s))\<rparr>"

lemma sample_codec_ok [simp]: "codec_ok sample_codec"
  by (auto simp: codec_ok_def sample_codec_def)

definition encode_cursor :: "codec \<Rightarrow> cursor \<Rightarrow> string" where
  "encode_cursor C c = show_ts C (cursor_ts c) @ '','' @ show_uuid C (cursor_id c)"

text \<open>\<open>s.splitn(2, sep)\<close>.\<close>

definition splitn2 :: "char \<Rightarrow> string \<Rightarrow> string list" where
  "splitn2 sep s =
     (if sep \<in> set s
      then [takeWhile (\<lambda>c. c \<noteq> sep) s, tl (dropWhile (\<lambda>c. c \<noteq> sep) s)] else [s])"

record pagination_params =
  pg_limit :: "int option"
  pg_cursor :: "string option"

definition default_page_limit :: int where "default_page_limit = 50"

definition max_page_limit :: int where "max_page_limit = 200"

definition effective_limit :: "int option \<Rightarrow> int" where
  "effective_limit lim = max 1 (min max_page_limit (unwrap_or lim default_page_limit))"

definition decode_cursor :: "codec \<Rightarrow> pagination_params \<Rightarrow> cursor option result" where
  "decode_cursor C params =
     (case pg_cursor params of
        None \<Rightarrow> Inr None
      | Some cursor \<Rightarrow>
          (case splitn2 (CHR '','') cursor of
             [ts, i] \<Rightarrow>
               rbind (ok_or (parse_ts C ts) (Validation [Lit ''invalid cursor timestamp''])) (\<lambda>t.
               rbind (ok_or (parse_uuid C i) (Validation [Lit ''invalid cursor id''])) (\<lambda>u.
               Inr (Some (Cursor t u))))
           | _ \<Rightarrow> Inl (Validation [Lit ''invalid cursor format''])))"

lemma effective_limit_range: "1 \<le> effective_limit lim \<and> effective_limit lim \<le> 200"
  by (simp add: effective_limit_def max_page_limit_def)

lemma splitn2_append: "sep \<notin> set a \<Longrightarrow> splitn2 sep (a @ sep # b) = [a, b]"
  by (simp add: splitn2_def takeWhile_append dropWhile_append)

lemma decode_encode_cursor:
  "codec_ok C \<Longrightarrow> decode_cursor C \<lparr>pg_limit = l, pg_cursor = Some (encode_cursor C c)\<rparr> = Inr (Some c)"
  by (cases c) (simp add: decode_cursor_def encode_cursor_def splitn2_append codec_ok_def)

section \<open>The query\<close>

datatype direction = Asc | Desc

fun order_by :: "direction \<Rightarrow> ('a \<Rightarrow> 'k::linorder) \<Rightarrow> 'a list \<Rightarrow> 'a list" where
  "order_by Asc key xs = sort_key key xs"
| "order_by Desc key xs = rev (sort_key key xs)"

fun after :: "direction \<Rightarrow> 'k::linorder \<Rightarrow> 'k \<Rightarrow> bool" where
  "after Asc c k \<longleftrightarrow> c < k"
| "after Desc c k \<longleftrightarrow> k < c"

record 'a paginated_response =
  items :: "'a list"
  next_cursor :: "string option"

definition last_opt :: "'a list \<Rightarrow> 'a option" where
  "last_opt xs = (if xs = [] then None else Some (last xs))"

text \<open>
  The body shared by the five \<open>list_paginated\<close>: the rows after the cursor in key order, one
  more than the limit, the extra row only telling that there is a next page.
\<close>

definition paginate ::
  "codec \<Rightarrow> direction \<Rightarrow> ('a \<Rightarrow> cursor) \<Rightarrow> pagination_params \<Rightarrow> 'a list \<Rightarrow> 'a paginated_response result" where
  "paginate C dir key params rows =
     (let limit = effective_limit (pg_limit params) in
      rbind (decode_cursor C params) (\<lambda>cur.
        let selected = (case cur of None \<Rightarrow> rows | Some c \<Rightarrow> filter (\<lambda>x. after dir c (key x)) rows);
            fetched = take (nat (limit + 1)) (order_by dir key selected);
            has_more = limit < int (length fetched);
            page = take (nat limit) fetched
        in Inr \<lparr>items = page,
                next_cursor = (if has_more then map_option (encode_cursor C \<circ> key) (last_opt page) else None)\<rparr>))"

text \<open>A client that asks for pages until there is no next one; \<open>None\<close> is an error or no fuel.\<close>

fun walk :: "nat \<Rightarrow> (string option \<Rightarrow> 'a paginated_response result) \<Rightarrow> string option \<Rightarrow> 'a list option" where
  "walk 0 page cur = None"
| "walk (Suc n) page cur =
     (case page cur of
        Inl _ \<Rightarrow> None
      | Inr p \<Rightarrow>
          (case next_cursor p of
             None \<Rightarrow> Some (items p)
           | Some c \<Rightarrow> map_option ((@) (items p)) (walk n page (Some c))))"

lemma length_order_by [simp]: "length (order_by dir key xs) = length xs"
  by (cases dir) simp_all

lemma set_order_by [simp]: "set (order_by dir key xs) = set xs"
  by (cases dir) simp_all

lemma mset_order_by [simp]: "mset (order_by dir key xs) = mset xs"
  by (cases dir) simp_all

lemma order_by_filter: "order_by dir key (filter P xs) = filter P (order_by dir key xs)"
  by (cases dir) (simp_all add: filter_sort flip: rev_filter)

lemma order_by_strict:
  "distinct (map key xs) \<Longrightarrow> sorted_wrt (\<lambda>a b. after dir (key a) (key b)) (order_by dir key xs)"
proof (cases dir)
  have "distinct (map key xs) \<Longrightarrow> sorted_wrt (<) (map key (sort_key key xs))"
    by (simp add: strict_sorted_iff distinct_map)
  moreover case Asc
  moreover assume "distinct (map key xs)"
  ultimately show ?thesis by (simp add: sorted_wrt_map)
next
  have "distinct (map key xs) \<Longrightarrow> sorted_wrt (<) (map key (sort_key key xs))"
    by (simp add: strict_sorted_iff distinct_map)
  moreover case Desc
  moreover assume "distinct (map key xs)"
  ultimately show ?thesis by (simp add: sorted_wrt_map sorted_wrt_rev)
qed

lemma after_irrefl [simp]: "\<not> after dir k k"
  by (cases dir) simp_all

lemma after_asym: "after dir a b \<Longrightarrow> \<not> after dir b a"
  by (cases dir) auto

text \<open>Past the last row of a prefix, the rows that follow are the rest.\<close>

lemma filter_after_prefix:
  assumes "sorted_wrt (\<lambda>a b. after dir (key a) (key b)) (pre @ post)" "pre \<noteq> []"
  shows "filter (\<lambda>x. after dir (key (last pre)) (key x)) (pre @ post) = post"
proof -
  have "\<not> after dir (key (last pre)) (key x)" if "x \<in> set pre" for x
  proof -
    from assms(2) obtain q l where p: "pre = q @ [l]" by (metis rev_exhaust)
    with assms(1) that show ?thesis by (auto simp: sorted_wrt_append after_asym)
  qed
  moreover have "after dir (key (last pre)) (key x)" if "x \<in> set post" for x
    using assms that by (auto simp: sorted_wrt_append)
  ultimately show ?thesis by (simp add: filter_empty_conv filter_id_conv)
qed

section \<open>The contract of a paginated listing\<close>

text \<open>
  \<open>rows\<close>: the rows the listing is over; \<open>list_page\<close>: the repository function. The laws: under
  the database invariant the keys differ, and a page is the shared query on the rows.
\<close>

locale keyset_listing =
  fixes inv :: "'d \<Rightarrow> bool"
    and rows :: "'d \<Rightarrow> 'a list"
    and key :: "'a \<Rightarrow> cursor"
    and dir :: direction
    and list_page :: "codec \<Rightarrow> pagination_params \<Rightarrow> 'd \<Rightarrow> 'a paginated_response result"
  assumes keys_differ: "inv d \<Longrightarrow> distinct (map key (rows d))"
    and page_law: "list_page C params d = paginate C dir key params (rows d)"
begin

lemma page_at:
  assumes C: "codec_ok C"
    and sel: "filter (\<lambda>x. cur = None \<or> after dir (the cur) (key x)) (order_by dir key (rows d)) = post"
  shows "list_page C \<lparr>pg_limit = l, pg_cursor = map_option (encode_cursor C) cur\<rparr> d =
     Inr \<lparr>items = take (nat (effective_limit l)) post,
          next_cursor =
            (if effective_limit l < int (length post)
             then Some (encode_cursor C (key (last (take (nat (effective_limit l)) post)))) else None)\<rparr>"
proof -
  let ?L = "effective_limit l"
  have L: "1 \<le> ?L" by (simp add: effective_limit_range)
  have dec: "decode_cursor C \<lparr>pg_limit = l, pg_cursor = map_option (encode_cursor C) cur\<rparr> = Inr cur"
    using C by (cases cur) (simp_all add: decode_encode_cursor, simp add: decode_cursor_def)
  have ord: "order_by dir key (case cur of None \<Rightarrow> rows d | Some c \<Rightarrow> filter (\<lambda>x. after dir c (key x)) (rows d)) = post"
    using sel by (cases cur) (simp_all add: order_by_filter)
  have more: "?L < int (length (take (nat (?L + 1)) post)) \<longleftrightarrow> ?L < int (length post)"
    using L by (simp add: min_def) arith
  have tk: "take (nat ?L) (take (nat (?L + 1)) post) = take (nat ?L) post"
    using L by (simp add: min_def)
  show ?thesis
  proof (cases "?L < int (length post)")
    case True
    then have "take (nat ?L) post \<noteq> []" using L by auto
    with True show ?thesis
      by (simp only: page_law paginate_def pagination_params.select_convs dec rbind_Inr Let_def ord more tk)
        (simp add: last_opt_def)
  next
    case False
    then show ?thesis
      by (simp only: page_law paginate_def pagination_params.select_convs dec rbind_Inr Let_def ord more tk)
        simp
  qed
qed

text \<open>From a cursor at the end of a prefix, the walk returns the rest.\<close>

lemma walk_rest:
  assumes "codec_ok C" "inv d"
  shows "filter (\<lambda>x. cur = None \<or> after dir (the cur) (key x)) (order_by dir key (rows d)) = post \<Longrightarrow>
    (\<exists>pre. order_by dir key (rows d) = pre @ post) \<Longrightarrow> length post < n \<Longrightarrow>
    walk n (\<lambda>c. list_page C \<lparr>pg_limit = l, pg_cursor = c\<rparr> d) (map_option (encode_cursor C) cur) = Some post"
proof (induction n arbitrary: cur post)
  case (Suc n)
  let ?L = "nat (effective_limit l)"
  let ?all = "order_by dir key (rows d)"
  have L: "1 \<le> ?L" using effective_limit_range [of l] by arith
  note page = page_at [OF assms(1) Suc.prems(1), of l]
  show ?case
  proof (cases "effective_limit l < int (length post)")
    case False
    with page show ?thesis by simp
  next
    case True
    let ?c = "key (last (take ?L post))"
    have ne: "take ?L post \<noteq> []" using L True by auto
    obtain pre where pre: "?all = pre @ post" using Suc.prems(2) by blast
    then have split: "?all = (pre @ take ?L post) @ drop ?L post" by simp
    have "sorted_wrt (\<lambda>a b. after dir (key a) (key b)) ((pre @ take ?L post) @ drop ?L post)"
      using order_by_strict [OF keys_differ [OF assms(2)], of dir] unfolding split .
    from filter_after_prefix [OF this] ne
    have "filter (\<lambda>x. after dir ?c (key x)) ?all = drop ?L post"
      unfolding split by simp
    then have "walk n (\<lambda>c. list_page C \<lparr>pg_limit = l, pg_cursor = c\<rparr> d)
        (map_option (encode_cursor C) (Some ?c)) = Some (drop ?L post)"
      using L Suc.prems(3) True by (intro Suc.IH exI [of _ "pre @ take ?L post"] split) auto
    with page True show ?thesis by simp
  qed
qed simp

text \<open>Following \<open>next_cursor\<close> from the first page reads every row exactly once, in key order.\<close>

lemma walk_all:
  assumes "codec_ok C" "inv d"
  shows "walk (Suc (length (rows d))) (\<lambda>c. list_page C \<lparr>pg_limit = l, pg_cursor = c\<rparr> d) None =
    Some (order_by dir key (rows d))"
  using walk_rest [OF assms, of None "order_by dir key (rows d)" "Suc (length (rows d))" l] by simp

text \<open>A page never holds more rows than the (clamped) limit.\<close>

lemma page_bounded:
  assumes "list_page C params d = Inr p"
  shows "int (length (items p)) \<le> effective_limit (pg_limit params)" "set (items p) \<subseteq> set (rows d)"
proof -
  let ?sel = "\<lambda>cur. (case cur of None \<Rightarrow> rows d | Some c \<Rightarrow> filter (\<lambda>x. after dir c (key x)) (rows d))"
  from assms obtain cur where "items p = take (nat (effective_limit (pg_limit params)))
      (take (nat (effective_limit (pg_limit params) + 1)) (order_by dir key (?sel cur)))"
    by (auto simp: page_law paginate_def Let_def)
  moreover have "set (order_by dir key (?sel cur)) \<subseteq> set (rows d)"
    by (auto split: option.split)
  ultimately show "int (length (items p)) \<le> effective_limit (pg_limit params)"
      "set (items p) \<subseteq> set (rows d)"
    using effective_limit_range [of "pg_limit params"] by (auto dest!: in_set_takeD)
qed

end

end
