(* ===== verification/Boards.thy ===== *)
theory Boards
  imports Pagination
begin

text \<open>
  \<open>repo/boards.rs\<close>: the checks on a board, its creation, lookup, listing, PATCH and deletion.
  Each operation is one transaction: it returns an error, or a value and the new database.
\<close>

section \<open>Checks\<close>

definition validate_board_type :: "string \<Rightarrow> unit result" where
  "validate_board_type bt =
     (if bt \<in> {''ordered'', ''scored'', ''tiered''} then Inr ()
      else Inl (Validation [Lit ''invalid board_type '', Quo bt,
             Lit '': must be 'ordered', 'scored', or '', Quo ''tiered'']))"

definition validate_sort_direction :: "string \<Rightarrow> unit result" where
  "validate_sort_direction sd =
     (if sd \<in> {''asc'', ''desc''} then Inr ()
      else Inl (Validation [Lit ''invalid sort_direction '', Quo sd, Lit '': must be 'asc' or '', Quo ''desc'']))"

definition tier_key :: "json \<Rightarrow> string option" where
  "tier_key tier = Option.bind (json_get ''key'' tier) as_str"

definition tier_position :: "json \<Rightarrow> int option" where
  "tier_position tier = Option.bind (json_get ''position'' tier) as_i64"

text \<open>The loop over \<open>tiers\<close>: the index \<open>i\<close> and the keys seen so far.\<close>

fun validate_tiers :: "nat \<Rightarrow> string list \<Rightarrow> json list \<Rightarrow> unit result" where
  "validate_tiers i seen [] = Inr ()"
| "validate_tiers i seen (tier # tiers) =
     rbind (ok_or (tier_key tier)
              (Validation [Lit ''tier_config.tiers['', Num (int i), Lit ''] must have a string '', Quo ''key''])) (\<lambda>key.
     rbind (reject_if (key \<in> set seen)
              (Validation [Lit ''tier_config has duplicate tier key '', Quo key])) (\<lambda>_.
     case tier_position tier of
       None \<Rightarrow>
         Inl (Validation [Lit ''tier_config.tiers['', Num (int i), Lit ''] must have an integer '', Quo ''position''])
     | Some v \<Rightarrow>
         if \<not> in_i32 v
         then Inl (Validation [Lit ''tier_config.tiers['', Num (int i), Lit ''] position '', Num v,
                Lit '' is out of 32-bit integer range''])
         else validate_tiers (Suc i) (key # seen) tiers))"

definition validate_tier_config :: "json option \<Rightarrow> unit result" where
  "validate_tier_config tier_config =
     rbind (ok_or tier_config
              (Validation [Lit ''tiered boards must have tier_config with a 'tiers' array''])) (\<lambda>tc.
     rbind (ok_or (Option.bind (json_get ''tiers'' tc) as_array)
              (Validation [Lit ''tier_config must have a 'tiers' array''])) (\<lambda>tiers.
     rbind (reject_if (tiers = []) (Validation [Lit ''tier_config.tiers must not be empty''])) (\<lambda>_.
     validate_tiers 0 [] tiers)))"

section \<open>Operations\<close>

text \<open>\<open>map_err\<close> on an INSERT: a unique violation is reported as the given error.\<close>

definition on_unique_violation :: "error \<Rightarrow> 'a result \<Rightarrow> 'a result" where
  "on_unique_violation e m = (case m of Inl (Database UniqueViolation) \<Rightarrow> Inl e | _ \<Rightarrow> m)"

text \<open>The cross-field rules of a board, shared by \<open>create\<close> and the import.\<close>

definition check_board_flags :: "string \<Rightarrow> bool \<Rightarrow> bool \<Rightarrow> bool \<Rightarrow> unit result" where
  "check_board_flags bt accumulative realtime clear_on_snapshot =
     rbind (reject_if (accumulative \<and> bt \<noteq> ''scored'')
              (Validation [Lit ''accumulative boards must have board_type '', Quo ''scored''])) (\<lambda>_.
     rbind (reject_if (realtime \<and> \<not> (accumulative \<and> bt = ''scored''))
              (Validation [Lit ''realtime boards must be accumulative and scored''])) (\<lambda>_.
     reject_if (clear_on_snapshot \<and> \<not> realtime)
       (Validation [Lit ''clear_on_snapshot requires realtime to be true''])))"

definition new_board :: "svc \<Rightarrow> create_board \<Rightarrow> db \<Rightarrow> board" where
  "new_board S inp db =
     \<lparr>b_id = next_id S db, b_slug = cb_slug inp, b_name = cb_name inp,
      b_board_type = cb_board_type inp, b_sort_direction = cb_sort_direction inp,
      b_tier_config = cb_tier_config inp, b_metadata = cb_metadata inp,
      b_accumulative = cb_accumulative inp, b_realtime = cb_realtime inp,
      b_clear_on_snapshot = cb_clear_on_snapshot inp,
      b_created_at = tx_now S db, b_updated_at = tx_now S db\<rparr>"

definition insert_new_board :: "svc \<Rightarrow> create_board \<Rightarrow> db \<Rightarrow> (board \<times> db) result" where
  "insert_new_board S inp db =
     on_unique_violation
       (Conflict [Lit ''board with slug '', Quo (cb_slug inp), Lit '' already exists''])
       (rbind (insert_board (new_board S inp db) db) (\<lambda>db'. Inr (new_board S inp db, db')))"

definition boards_create :: "svc \<Rightarrow> create_board \<Rightarrow> db \<Rightarrow> (board \<times> db) result" where
  "boards_create S inp db =
     rbind (validate_slug (cb_slug inp)) (\<lambda>_.
     rbind (validate_name (cb_name inp)) (\<lambda>_.
     rbind (validate_board_type (cb_board_type inp)) (\<lambda>_.
     rbind (validate_sort_direction (cb_sort_direction inp)) (\<lambda>_.
     rbind (if cb_board_type inp = ''tiered'' then validate_tier_config (cb_tier_config inp) else Inr ()) (\<lambda>_.
     rbind (check_board_flags (cb_board_type inp) (cb_accumulative inp) (cb_realtime inp)
              (cb_clear_on_snapshot inp)) (\<lambda>_.
     rbind (reject_if (cb_board_type inp \<noteq> ''scored'' \<and> cb_sort_direction inp \<noteq> ''desc'')
              (Validation [Lit ''sort_direction is only meaningful for scored boards''])) (\<lambda>_.
     insert_new_board S inp db)))))))"

definition boards_list :: "db \<Rightarrow> board list" where
  "boards_list db = order_by Desc b_created_at (boards db)"

definition board_cursor :: "board \<Rightarrow> cursor" where
  "board_cursor b = Cursor (b_created_at b) (b_id b)"

definition boards_list_paginated ::
  "codec \<Rightarrow> pagination_params \<Rightarrow> db \<Rightarrow> board paginated_response result" where
  "boards_list_paginated C params db = paginate C Desc board_cursor params (boards db)"

definition board_not_found :: "string \<Rightarrow> error" where
  "board_not_found slug = NotFound [Lit ''board '', Quo slug, Lit '' not found'']"

definition boards_get_by_slug :: "string \<Rightarrow> db \<Rightarrow> board result" where
  "boards_get_by_slug slug db =
     ok_or (find (\<lambda>b. b_slug b = slug) (boards db)) (board_not_found slug)"

definition board_versions :: "uuid \<Rightarrow> db \<Rightarrow> version list" where
  "board_versions bid db = filter (\<lambda>v. v_board_id v = bid) (versions db)"

definition board_entries :: "uuid \<Rightarrow> db \<Rightarrow> entry list" where
  "board_entries bid db = filter (\<lambda>e. e_board_id e = bid) (entries db)"

text \<open>\<open>ORDER BY version_number DESC LIMIT 1\<close>.\<close>

definition latest_version_row :: "uuid \<Rightarrow> db \<Rightarrow> version option" where
  "latest_version_row bid db =
     (case order_by Desc v_number (board_versions bid db) of [] \<Rightarrow> None | v # _ \<Rightarrow> Some v)"

definition boards_get_summary :: "string \<Rightarrow> db \<Rightarrow> board_summary result" where
  "boards_get_summary slug db =
     rbind (boards_get_by_slug slug db) (\<lambda>board.
     Inr \<lparr>bs_board = board,
          bs_latest_version = map_option v_number (latest_version_row (b_id board) db),
          bs_entry_count = int (length (board_entries (b_id board) db))\<rparr>)"

text \<open>The row the UPDATE writes.\<close>

definition patched_board :: "timestamp \<Rightarrow> update_board \<Rightarrow> board \<Rightarrow> board" where
  "patched_board t inp b =
     b\<lparr>b_name := unwrap_or (ub_name inp) (b_name b),
       b_sort_direction := unwrap_or (ub_sort_direction inp) (b_sort_direction b),
       b_tier_config := patch (ub_tier_config inp) (b_tier_config b),
       b_metadata := patch (ub_metadata inp) (b_metadata b),
       b_realtime := unwrap_or (ub_realtime inp) (b_realtime b),
       b_clear_on_snapshot := unwrap_or (ub_clear_on_snapshot inp) (b_clear_on_snapshot b),
       b_updated_at := t\<rparr>"

definition check_opt :: "('a \<Rightarrow> unit result) \<Rightarrow> 'a option \<Rightarrow> unit result" where
  "check_opt f x = (case x of None \<Rightarrow> Inr () | Some v \<Rightarrow> f v)"

text \<open>The checks of a PATCH against the locked row.\<close>

definition check_patch :: "board \<Rightarrow> update_board \<Rightarrow> unit result" where
  "check_patch board inp =
     rbind (reject_if (ub_sort_direction inp \<noteq> None \<and> b_board_type board \<noteq> ''scored'')
              (Validation [Lit ''sort_direction is only meaningful for scored boards''])) (\<lambda>_.
     rbind (if b_board_type board = ''tiered''
            then (case ub_tier_config inp of
                    Value v \<Rightarrow> validate_tier_config (Some v)
                  | Null \<Rightarrow> Inl (Validation [Lit ''tier_config cannot be null on tiered boards''])
                  | Absent \<Rightarrow> Inr ())
            else Inr ()) (\<lambda>_.
     let realtime = unwrap_or (ub_realtime inp) (b_realtime board);
         clear_on_snapshot = unwrap_or (ub_clear_on_snapshot inp) (b_clear_on_snapshot board) in
     rbind (reject_if (realtime \<and> \<not> (b_accumulative board \<and> b_board_type board = ''scored''))
              (Validation [Lit ''realtime boards must be accumulative and scored''])) (\<lambda>_.
     reject_if (clear_on_snapshot \<and> \<not> realtime)
       (Validation [Lit ''clear_on_snapshot requires realtime to be true'']))))"

definition boards_patch :: "svc \<Rightarrow> string \<Rightarrow> update_board \<Rightarrow> db \<Rightarrow> (board \<times> db) result" where
  "boards_patch S slug inp db =
     rbind (check_opt validate_name (ub_name inp)) (\<lambda>_.
     rbind (check_opt validate_sort_direction (ub_sort_direction inp)) (\<lambda>_.
     rbind (ok_or (find (\<lambda>b. b_slug b = slug) (boards db)) (board_not_found slug)) (\<lambda>board.
     rbind (check_patch board inp) (\<lambda>_.
     let updated = patched_board (tx_now S db) inp board in
     if board_check updated
     then Inr (updated, db\<lparr>boards := update_where (\<lambda>b. b_id b = b_id board) (\<lambda>_. updated) (boards db)\<rparr>)
     else Inl (Database CheckViolation)))))"

definition boards_delete :: "string \<Rightarrow> db \<Rightarrow> db result" where
  "boards_delete slug db =
     (let ids = map b_id (filter (\<lambda>b. b_slug b = slug) (boards db)) in
      if ids = [] then Inl (board_not_found slug) else Inr (delete_board_rows ids db))"

definition boards_get_by_id :: "uuid \<Rightarrow> db \<Rightarrow> board result" where
  "boards_get_by_id i db =
     ok_or (find (\<lambda>b. b_id b = i) (boards db))
       (NotFound [Lit ''board with id '', Num (int i), Lit '' not found''])"

section \<open>What the checks accept\<close>

definition tier_ok :: "json \<Rightarrow> bool" where
  "tier_ok t \<longleftrightarrow>
     tier_key t \<noteq> None \<and> (\<exists>v. tier_position t = Some v \<and> in_i32 v)"

definition tier_config_ok :: "json option \<Rightarrow> bool" where
  "tier_config_ok tc \<longleftrightarrow>
     (\<exists>v tiers. tc = Some v \<and> json_get ''tiers'' v = Some (JArray tiers) \<and> tiers \<noteq> [] \<and>
        (\<forall>t \<in> set tiers. tier_ok t) \<and> distinct (map tier_key tiers))"

lemma as_array_eq [simp]: "as_array v = Some xs \<longleftrightarrow> v = JArray xs"
  by (cases v) auto

lemma validate_tiers_iff:
  "validate_tiers i seen ts = Inr () \<longleftrightarrow>
     (\<forall>t \<in> set ts. tier_ok t) \<and> distinct (map tier_key ts) \<and>
     (\<forall>t \<in> set ts. tier_key t \<notin> Some ` set seen)"
proof (induction ts arbitrary: i seen)
  case (Cons t ts)
  show ?case
  proof (cases "\<exists>k v. tier_key t = Some k \<and> tier_position t = Some v \<and> in_i32 v")
    case True
    then obtain k v where t: "tier_key t = Some k" "tier_position t = Some v" "in_i32 v" by blast
    then have "tier_ok t" by (simp add: tier_ok_def)
    with t show ?thesis by (auto simp: Cons.IH image_iff)
  next
    case False
    then have "\<not> tier_ok t" by (auto simp: tier_ok_def)
    moreover have "validate_tiers i seen (t # ts) \<noteq> Inr ()"
      using False by (auto split: option.split)
    ultimately show ?thesis by simp
  qed
qed simp

lemma validate_tier_config_iff [simp]: "validate_tier_config tc = Inr () \<longleftrightarrow> tier_config_ok tc"
  by (cases tc) (auto simp: validate_tier_config_def tier_config_ok_def validate_tiers_iff bind_eq_Some_conv)

lemma validate_board_type_iff [simp]:
  "validate_board_type bt = Inr () \<longleftrightarrow> bt \<in> {''ordered'', ''scored'', ''tiered''}"
  by (simp add: validate_board_type_def)

lemma validate_sort_direction_iff [simp]:
  "validate_sort_direction sd = Inr () \<longleftrightarrow> sd \<in> {''asc'', ''desc''}"
  by (simp add: validate_sort_direction_def)

lemma check_board_flags_iff [simp]:
  "check_board_flags bt a r c = Inr () \<longleftrightarrow>
     (a \<longrightarrow> bt = ''scored'') \<and> (r \<longrightarrow> a \<and> bt = ''scored'') \<and> (c \<longrightarrow> r)"
  by (auto simp: check_board_flags_def)

lemma check_opt_iff [simp]: "check_opt f x = Inr () \<longleftrightarrow> (case x of None \<Rightarrow> True | Some v \<Rightarrow> f v = Inr ())"
  by (simp add: check_opt_def split: option.split)

text \<open>The input \<open>create\<close> accepts.\<close>

definition create_board_ok :: "create_board \<Rightarrow> bool" where
  "create_board_ok inp \<longleftrightarrow>
     slug_ok (cb_slug inp) \<and> name_ok (cb_name inp) \<and>
     cb_board_type inp \<in> {''ordered'', ''scored'', ''tiered''} \<and>
     cb_sort_direction inp \<in> {''asc'', ''desc''} \<and>
     (cb_board_type inp = ''tiered'' \<longrightarrow> tier_config_ok (cb_tier_config inp)) \<and>
     (cb_accumulative inp \<longrightarrow> cb_board_type inp = ''scored'') \<and>
     (cb_realtime inp \<longrightarrow> cb_accumulative inp \<and> cb_board_type inp = ''scored'') \<and>
     (cb_clear_on_snapshot inp \<longrightarrow> cb_realtime inp) \<and>
     (cb_board_type inp \<noteq> ''scored'' \<longrightarrow> cb_sort_direction inp = ''desc'')"

lemma create_board_ok_check: "create_board_ok inp \<Longrightarrow> board_check (new_board S inp db)"
  by (simp add: create_board_ok_def board_check_def new_board_def)

lemma validate_opt_ok [simp]:
  "tier_config_ok tc \<Longrightarrow> validate_tier_config tc = Inr ()"
  "bt \<in> {''ordered'', ''scored'', ''tiered''} \<Longrightarrow> validate_board_type bt = Inr ()"
  "sd \<in> {''asc'', ''desc''} \<Longrightarrow> validate_sort_direction sd = Inr ()"
  "(a \<longrightarrow> bt = ''scored'') \<and> (r \<longrightarrow> a \<and> bt = ''scored'') \<and> (c \<longrightarrow> r) \<Longrightarrow>
   check_board_flags bt a r c = Inr ()"
  by simp_all

lemma boards_create_ok:
  "create_board_ok inp \<Longrightarrow> boards_create S inp db = insert_new_board S inp db"
  unfolding boards_create_def create_board_ok_def
  by (elim conjE, cases "cb_board_type inp = ''scored''") simp_all

lemma boards_create_Inr:
  "boards_create S inp db = Inr r \<longleftrightarrow> create_board_ok inp \<and> insert_new_board S inp db = Inr r"
proof
  assume "boards_create S inp db = Inr r"
  then show "create_board_ok inp \<and> insert_new_board S inp db = Inr r"
    by (auto simp: boards_create_def create_board_ok_def split: if_splits)
qed (simp add: boards_create_ok)

lemma errs_board_checks [errs]:
  assumes "\<And>m. Validation m \<in> E"
  shows "errs_in E (validate_board_type bt)" "errs_in E (validate_sort_direction sd)"
    "errs_in E (check_board_flags bt a r c)"
  using assms
  by (auto simp: validate_board_type_def validate_sort_direction_def check_board_flags_def intro!: errs)

lemma errs_validate_tiers [errs]: "(\<And>m. Validation m \<in> E) \<Longrightarrow> errs_in E (validate_tiers i seen ts)"
proof (induction ts arbitrary: i seen)
  case (Cons t ts)
  then show ?case by (auto intro!: errs split: option.split)
qed (simp add: errs)

lemma errs_validate_tier_config [errs]: "(\<And>m. Validation m \<in> E) \<Longrightarrow> errs_in E (validate_tier_config tc)"
  by (auto simp: validate_tier_config_def intro!: errs)

section \<open>Creation\<close>

lemma insert_new_board_eq:
  assumes "svc_ok S" "db_inv S db" "create_board_ok inp"
  shows "insert_new_board S inp db =
    (if cb_slug inp \<in> b_slug ` set (boards db)
     then Inl (Conflict [Lit ''board with slug '', Quo (cb_slug inp), Lit '' already exists''])
     else Inr (new_board S inp db,
            db\<lparr>boards := boards db @ [new_board S inp db], drawn := Suc (drawn db)\<rparr>))"
proof -
  have "next_id S db \<notin> b_id ` set (boards db)"
    using next_id_fresh [OF assms(1)] assms(2) by (auto simp: db_inv_def all_ids_def)
  moreover have "b_id (new_board S inp db) = next_id S db" "b_slug (new_board S inp db) = cb_slug inp"
    by (simp_all add: new_board_def)
  ultimately show ?thesis
    using create_board_ok_check [OF assms(3)]
    by (simp add: insert_new_board_def on_unique_violation_def insert_board_def)
qed

lemma boards_create_rejects:
  assumes "\<not> create_board_ok inp"
  shows "\<exists>m. boards_create S inp db = Inl (Validation m)"
proof -
  have "boards_create S inp db \<noteq> Inr r" for r
    using assms by (simp add: boards_create_Inr)
  moreover have "errs_in (range Validation) (boards_create S inp db)"
  proof -
    have "errs_in (range Validation)
        (rbind (reject_if (cb_board_type inp \<noteq> ''scored'' \<and> cb_sort_direction inp \<noteq> ''desc'')
              (Validation [Lit ''sort_direction is only meaningful for scored boards''])) (\<lambda>_.
         insert_new_board S inp db))"
      if "validate_slug (cb_slug inp) = Inr ()" "validate_name (cb_name inp) = Inr ()"
        "validate_board_type (cb_board_type inp) = Inr ()" "validate_sort_direction (cb_sort_direction inp) = Inr ()"
        "(if cb_board_type inp = ''tiered'' then validate_tier_config (cb_tier_config inp) else Inr ()) = Inr ()"
        "check_board_flags (cb_board_type inp) (cb_accumulative inp) (cb_realtime inp) (cb_clear_on_snapshot inp) = Inr ()"
      using assms that by (auto simp: errs_in_def create_board_ok_def rbind_eq_Inl split: if_splits)
    then show ?thesis
      unfolding boards_create_def by (intro errs rangeI) simp_all
  qed
  ultimately show ?thesis
    by (cases "boards_create S inp db") (auto simp: errs_in_def)
qed

lemma boards_create_inv:
  "db_inv S db \<Longrightarrow> boards_create S inp db = Inr (b, db') \<Longrightarrow> db_inv S db'"
  by (auto simp: boards_create_Inr insert_new_board_def on_unique_violation_def new_board_def
      intro: insert_board_inv split: sum.splits error.splits db_error.splits)

text \<open>
  The rules \<open>create\<close> and \<open>patch\<close> enforce on a stored board, beyond the CHECK constraints: the
  slug and name rules, a usable tier configuration on tiered boards, and no direction but the
  default on boards that are not scored.
\<close>

definition board_rules :: "board \<Rightarrow> bool" where
  "board_rules b \<longleftrightarrow>
     board_check b \<and> slug_ok (b_slug b) \<and> name_ok (b_name b) \<and>
     (b_board_type b = ''tiered'' \<longrightarrow> tier_config_ok (b_tier_config b)) \<and>
     (b_board_type b \<noteq> ''scored'' \<longrightarrow> b_sort_direction b = ''desc'')"

lemma board_rules_new: "create_board_ok inp \<Longrightarrow> board_rules (new_board S inp db)"
  by (simp add: board_rules_def create_board_ok_check)
    (simp add: new_board_def create_board_ok_def)

section \<open>PATCH\<close>

text \<open>The patches a board accepts.\<close>

definition patch_board_ok :: "board \<Rightarrow> update_board \<Rightarrow> bool" where
  "patch_board_ok b inp \<longleftrightarrow>
     (\<forall>n. ub_name inp = Some n \<longrightarrow> name_ok n) \<and>
     (\<forall>sd. ub_sort_direction inp = Some sd \<longrightarrow> sd \<in> {''asc'', ''desc''} \<and> b_board_type b = ''scored'') \<and>
     (b_board_type b = ''tiered'' \<longrightarrow>
        (case ub_tier_config inp of Absent \<Rightarrow> True | Null \<Rightarrow> False | Value v \<Rightarrow> tier_config_ok (Some v))) \<and>
     (unwrap_or (ub_realtime inp) (b_realtime b) \<longrightarrow> b_accumulative b \<and> b_board_type b = ''scored'') \<and>
     (unwrap_or (ub_clear_on_snapshot inp) (b_clear_on_snapshot b) \<longrightarrow>
        unwrap_or (ub_realtime inp) (b_realtime b))"

lemma patched_keeps [keeps]:
  "b_id (patched_board t inp b) = b_id b" "b_slug (patched_board t inp b) = b_slug b"
  "b_board_type (patched_board t inp b) = b_board_type b"
  "b_accumulative (patched_board t inp b) = b_accumulative b"
  "b_created_at (patched_board t inp b) = b_created_at b"
  by (simp_all add: patched_board_def)

lemma patched_board_check:
  "board_check b \<Longrightarrow> patch_board_ok b inp \<Longrightarrow> board_check (patched_board t inp b)"
  by (cases "ub_sort_direction inp") (auto simp: board_check_def patch_board_ok_def patched_board_def)

lemma patched_board_rules:
  assumes "board_rules b" "patch_board_ok b inp"
  shows "board_rules (patched_board t inp b)"
proof -
  have "b_slug (patched_board t inp b) = b_slug b" "b_board_type (patched_board t inp b) = b_board_type b"
    by (simp_all add: patched_board_def)
  moreover have "name_ok (b_name (patched_board t inp b))"
    using assms by (cases "ub_name inp") (auto simp: patched_board_def board_rules_def patch_board_ok_def)
  moreover have "tier_config_ok (b_tier_config (patched_board t inp b))" if "b_board_type b = ''tiered''"
    using assms that
    by (cases "ub_tier_config inp") (auto simp: patched_board_def board_rules_def patch_board_ok_def)
  moreover have "b_sort_direction (patched_board t inp b) = ''desc''" if "b_board_type b \<noteq> ''scored''"
    using assms that
    by (cases "ub_sort_direction inp") (auto simp: patched_board_def board_rules_def patch_board_ok_def)
  ultimately show ?thesis
    using assms patched_board_check by (simp add: board_rules_def)
qed

text \<open>What \<open>patch\<close> does on a board it found.\<close>

definition patch_result :: "timestamp \<Rightarrow> update_board \<Rightarrow> board \<Rightarrow> db \<Rightarrow> board \<times> db" where
  "patch_result t inp b db =
     (patched_board t inp b,
      db\<lparr>boards := update_where (\<lambda>x. b_id x = b_id b) (\<lambda>_. patched_board t inp b) (boards db)\<rparr>)"

lemma check_opt_ok [simp]: "(\<And>v. x = Some v \<Longrightarrow> f v = Inr ()) \<Longrightarrow> check_opt f x = Inr ()"
  by (cases x) (simp_all add: check_opt_def)

lemma errs_check_opt [errs]: "(\<And>v. x = Some v \<Longrightarrow> errs_in E (f v)) \<Longrightarrow> errs_in E (check_opt f x)"
  by (cases x) (simp_all add: check_opt_def errs)

lemma patch_board_ok_iff:
  "patch_board_ok b inp \<longleftrightarrow>
     check_opt validate_name (ub_name inp) = Inr () \<and>
     check_opt validate_sort_direction (ub_sort_direction inp) = Inr () \<and>
     check_patch b inp = Inr ()"
  by (cases "ub_name inp"; cases "ub_sort_direction inp"; cases "ub_tier_config inp")
    (auto simp: patch_board_ok_def check_patch_def Let_def)

lemma errs_check_patch [errs]: "(\<And>m. Validation m \<in> E) \<Longrightarrow> errs_in E (check_patch b inp)"
  unfolding check_patch_def Let_def by (auto intro!: errs split: nullable.split)

lemma boards_patch_ok:
  assumes "find (\<lambda>b. b_slug b = slug) (boards db) = Some b" "board_check b" "patch_board_ok b inp"
  shows "boards_patch S slug inp db = Inr (patch_result (tx_now S db) inp b db)"
  using assms(1,3) patched_board_check [OF assms(2,3)]
  by (simp only: boards_patch_def Let_def patch_board_ok_iff patch_result_def rbind_Inr ok_or_simps if_True)

lemma boards_patch_Inr:
  assumes "boards_patch S slug inp db = Inr r"
  obtains b where "find (\<lambda>b. b_slug b = slug) (boards db) = Some b" "patch_board_ok b inp"
    "r = patch_result (tx_now S db) inp b db"
  using assms that
  by (auto simp: boards_patch_def patch_board_ok_iff Let_def patch_result_def simp del: check_opt_iff
      split: if_splits)

lemma boards_patch_inv:
  assumes "db_inv S db" "boards_patch S slug inp db = Inr (b', db')"
  shows "db_inv S db'"
proof -
  from assms(2) obtain b where b: "find (\<lambda>b. b_slug b = slug) (boards db) = Some b"
      and r: "patch_board_ok b inp" "(b', db') = patch_result (tx_now S db) inp b db"
    by (rule boards_patch_Inr)
  have bin: "b \<in> set (boards db)" using b by (auto dest: find_Some_in)
  with assms(1) have "board_check b" by (auto simp: db_inv_def checks_ok_def)
  then have c: "board_check (patched_board (tx_now S db) inp b)" using r(1) by (rule patched_board_check)
  have "x = b" if "x \<in> set (boards db)" "b_id x = b_id b" for x
    using assms(1) bin that by (auto simp: db_inv_def keys_ok_def dest: distinct_map_inj)
  then have "db_inv S (db\<lparr>boards := update_where (\<lambda>x. b_id x = b_id b)
      (\<lambda>_. patched_board (tx_now S db) inp b) (boards db)\<rparr>)"
    using c by (intro update_boards_inv [OF assms(1)]) (auto simp: patched_board_def)
  with r(2) show ?thesis by (simp add: patch_result_def)
qed

text \<open>A PATCH that is refused is a validation error or names a board that does not exist.\<close>

lemma boards_patch_errs:
  assumes "db_inv S db" "\<And>m. Validation m \<in> E"
    and "find (\<lambda>b. b_slug b = slug) (boards db) = None \<Longrightarrow> board_not_found slug \<in> E"
  shows "errs_in E (boards_patch S slug inp db)"
  unfolding boards_patch_def
proof (intro errs assms(2) assms(3), simp_all add: Let_def errs_in_Inr del: check_opt_iff, rule impI)
  fix b
  assume a: "check_opt validate_name (ub_name inp) = Inr ()"
    "check_opt validate_sort_direction (ub_sort_direction inp) = Inr ()"
    "find (\<lambda>b. b_slug b = slug) (boards db) = Some b" "check_patch b inp = Inr ()"
    "\<not> board_check (patched_board (tx_now S db) inp b)"
  then have "patch_board_ok b inp" by (simp only: patch_board_ok_iff)
  moreover have "board_check b"
    using assms(1) a(3) by (auto dest!: find_Some_in simp: db_inv_def checks_ok_def)
  ultimately have "board_check (patched_board (tx_now S db) inp b)" by (rule patched_board_check [rotated])
  with a(5) show "errs_in E (Inl (Database CheckViolation))"
    by contradiction
qed

section \<open>Deletion\<close>

lemma boards_delete_Inr:
  assumes "db_inv S db" "boards_delete slug db = Inr db'"
  obtains b where "find (\<lambda>b. b_slug b = slug) (boards db) = Some b" "db' = delete_board_rows [b_id b] db"
proof -
  let ?hit = "filter (\<lambda>b. b_slug b = slug) (boards db)"
  from assms(2) have h: "?hit \<noteq> []" "db' = delete_board_rows (map b_id ?hit) db"
    by (auto simp: boards_delete_def Let_def split: if_splits)
  then obtain b bs where hit: "?hit = b # bs" by (cases ?hit) auto
  have d: "distinct (map b_slug (boards db))" using assms(1) by (simp add: db_inv_def keys_ok_def)
  then have "distinct (map b_slug (b # bs))" unfolding hit [symmetric] by (rule distinct_map_filter)
  moreover have "b_slug x = slug" if "x \<in> set (b # bs)" for x
    using that unfolding hit [symmetric] by simp
  ultimately have bs: "bs = []" by (cases bs) auto
  have "b \<in> set ?hit" by (simp add: hit)
  then have "b \<in> set (boards db)" "b_slug b = slug" by auto
  with find_by_key [OF d this(1)] have "find (\<lambda>b. b_slug b = slug) (boards db) = Some b" by simp
  moreover have "db' = delete_board_rows [b_id b] db" unfolding h(2) hit bs by simp
  ultimately show thesis by (rule that)
qed

lemma boards_delete_inv:
  assumes "db_inv S db" "boards_delete slug db = Inr db'"
  shows "db_inv S db'"
proof -
  obtain b where "find (\<lambda>b. b_slug b = slug) (boards db) = Some b" "db' = delete_board_rows [b_id b] db"
    by (rule boards_delete_Inr [OF assms])
  with delete_board_rows_inv [OF assms(1)] show ?thesis by simp
qed

text \<open>A placement is on a board when its version is.\<close>

definition placement_on :: "db \<Rightarrow> uuid \<Rightarrow> placement \<Rightarrow> bool" where
  "placement_on db bid p \<longleftrightarrow> (p_version_id p, bid) \<in> version_keys db"

lemma version_key_fun:
  "keys_ok db \<Longrightarrow> (v, a) \<in> version_keys db \<Longrightarrow> (v, b) \<in> version_keys db \<Longrightarrow> a = b"
  by (auto simp: version_keys_def keys_ok_def dest: distinct_map_inj)

lemma entry_key_fun:
  "keys_ok db \<Longrightarrow> (e, a) \<in> entry_keys db \<Longrightarrow> (e, b) \<in> entry_keys db \<Longrightarrow> a = b"
  by (auto simp: entry_keys_def keys_ok_def dest: distinct_map_inj)

lemma delete_board_placements:
  assumes "db_inv S db"
  shows "placements (delete_board_rows [bid] db) = filter (\<lambda>p. \<not> placement_on db bid p) (placements db)"
proof -
  have "(p_version_id p \<notin> v_id ` {v \<in> set (versions db). v_board_id v = bid} \<and>
         p_entry_id p \<notin> e_id ` {e \<in> set (entries db). e_board_id e = bid}) \<longleftrightarrow> \<not> placement_on db bid p"
    if "p \<in> set (placements db)" for p
  proof -
    from assms that obtain b where b: "(p_version_id p, b) \<in> version_keys db" "(p_entry_id p, b) \<in> entry_keys db"
      by (auto simp: db_inv_def refs_ok_def same_board_def)
    have k: "keys_ok db" using assms by (simp add: db_inv_def)
    have "p_version_id p \<in> v_id ` {v \<in> set (versions db). v_board_id v = bid} \<longleftrightarrow>
        (p_version_id p, bid) \<in> version_keys db"
      by (auto simp: version_keys_def)
    moreover have "(p_version_id p, bid) \<in> version_keys db \<longleftrightarrow> b = bid"
      using version_key_fun [OF k b(1)] b(1) by blast
    moreover have "p_entry_id p \<in> e_id ` {e \<in> set (entries db). e_board_id e = bid} \<longleftrightarrow>
        (p_entry_id p, bid) \<in> entry_keys db"
      by (auto simp: entry_keys_def)
    moreover have "(p_entry_id p, bid) \<in> entry_keys db \<longleftrightarrow> b = bid"
      using entry_key_fun [OF k b(2)] b(2) by blast
    ultimately show ?thesis unfolding placement_on_def by blast
  qed
  then show ?thesis by (simp add: delete_board_rows_def Let_def cong: filter_cong)
qed

section \<open>Paginated listing\<close>

interpretation board_listing: keyset_listing "db_inv S" boards board_cursor Desc boards_list_paginated
  for S :: svc
proof
  show "distinct (map board_cursor (boards d))" if "db_inv S d" for d
  proof -
    have "distinct (map b_id (boards d))" using that by (simp add: db_inv_def keys_ok_def)
    then have "distinct (map (cursor_id \<circ> board_cursor) (boards d))" by (simp add: board_cursor_def comp_def)
    then show ?thesis by (simp add: distinct_map inj_on_def)
  qed
qed (simp add: boards_list_paginated_def)

section \<open>Properties\<close>

definition sample_board :: create_board where
  "sample_board =
     \<lparr>cb_slug = ''speed'', cb_name = ''Speed'', cb_board_type = ''scored'', cb_sort_direction = ''asc'',
      cb_tier_config = None, cb_metadata = None, cb_accumulative = True, cb_realtime = False,
      cb_clear_on_snapshot = False\<rparr>"

definition sample_row :: board where
  "sample_row = new_board sample_svc sample_board empty_db"

definition sample_db :: db where
  "sample_db = empty_db\<lparr>boards := [sample_row], drawn := 1\<rparr>"

lemma sample_board_ok [simp]: "create_board_ok sample_board"
  by (simp add: create_board_ok_def sample_board_def slug_ok_def name_ok_def slug_byte_def less_eq_char_def)

lemma sample_create: "boards_create sample_svc sample_board empty_db = Inr (sample_row, sample_db)"
  by (simp add: boards_create_ok insert_new_board_eq) (simp add: sample_db_def sample_row_def empty_db_def)

lemma sample_db_inv [simp]: "db_inv sample_svc sample_db"
  using boards_create_inv [OF db_inv_empty sample_create] .

lemma sample_board_check [simp]: "board_check sample_row"
  by (simp add: sample_row_def create_board_ok_check)

lemma sample_db_find [simp]: "find (\<lambda>b. b_slug b = ''speed'') (boards sample_db) = Some sample_row"
  by (simp add: sample_db_def sample_row_def new_board_def sample_board_def)

text \<open>
  C8: creating a board accepts exactly the inputs that satisfy the rules. An input that breaks
  one is a validation error, a taken slug is a conflict, and otherwise the board is stored as
  given with a fresh id; no CHECK constraint, key or reference of the database is ever violated.
\<close>

theorem boards_create_spec:
  assumes "svc_ok S" "db_inv S db"
  shows "if \<not> create_board_ok inp then \<exists>m. boards_create S inp db = Inl (Validation m)
    else if cb_slug inp \<in> b_slug ` set (boards db)
    then boards_create S inp db = Inl (Conflict [Lit ''board with slug '', Quo (cb_slug inp), Lit '' already exists''])
    else \<exists>db'. boards_create S inp db = Inr (new_board S inp db, db') \<and>
      boards db' = boards db @ [new_board S inp db] \<and> db_inv S db' \<and> board_rules (new_board S inp db)"
proof (cases "create_board_ok inp")
  case True
  note eq = insert_new_board_eq [OF assms True, folded boards_create_ok [OF True]]
  show ?thesis
  proof (cases "cb_slug inp \<in> b_slug ` set (boards db)")
    case False
    then have "boards_create S inp db = Inr (new_board S inp db,
        db\<lparr>boards := boards db @ [new_board S inp db], drawn := Suc (drawn db)\<rparr>)"
      by (simp add: eq)
    with boards_create_inv [OF assms(2) this] True False board_rules_new [OF True] show ?thesis by simp
  qed (use True eq in simp)
qed (simp add: boards_create_rejects)

theorem boards_create_spec_witness:
  "\<exists>db'. boards_create sample_svc sample_board empty_db = Inr (new_board sample_svc sample_board empty_db, db') \<and>
     boards db' = boards empty_db @ [new_board sample_svc sample_board empty_db] \<and> db_inv sample_svc db' \<and>
     board_rules (new_board sample_svc sample_board empty_db)"
proof -
  have "cb_slug sample_board \<notin> b_slug ` set (boards empty_db)" by (simp add: empty_db_def)
  with boards_create_spec [OF sample_svc_ok db_inv_empty, of sample_board] show ?thesis by simp
qed

text \<open>
  A PATCH changes only what it may. On a board that exists it either is refused with a
  validation error, exactly when it breaks a rule, or replaces that board's row by the merged
  one: the absent fields keep their values, \<open>null\<close> clears, and id, slug, type, accumulation and
  creation time stay. The rules a stored board satisfies survive, so the UPDATE cannot violate a
  constraint.
\<close>

theorem boards_patch_spec:
  assumes "db_inv S db" "find (\<lambda>b. b_slug b = slug) (boards db) = Some b"
  shows "if patch_board_ok b inp
    then (\<exists>b' db'. boards_patch S slug inp db = Inr (b', db') \<and> b' = patched_board (tx_now S db) inp b \<and>
        boards db' = map (\<lambda>x. if b_slug x = slug then b' else x) (boards db) \<and>
        db' = db\<lparr>boards := boards db'\<rparr> \<and> db_inv S db' \<and> (board_rules b \<longrightarrow> board_rules b') \<and>
        b_id b' = b_id b \<and> b_slug b' = b_slug b \<and> b_board_type b' = b_board_type b \<and>
        b_accumulative b' = b_accumulative b \<and> b_created_at b' = b_created_at b)
    else (\<exists>m. boards_patch S slug inp db = Inl (Validation m))"
proof (cases "patch_board_ok b inp")
  case True
  have b: "b \<in> set (boards db)" "b_slug b = slug" using assms(2) by (auto dest: find_Some_in)
  then have "board_check b" using assms(1) by (auto simp: db_inv_def checks_ok_def)
  note ok = boards_patch_ok [OF assms(2) this True]
  have "b_id x = b_id b \<longleftrightarrow> b_slug x = slug" if "x \<in> set (boards db)" for x
    using assms(1) b that by (auto simp: db_inv_def keys_ok_def dest: distinct_map_inj)
  then have "update_where (\<lambda>x. b_id x = b_id b) f (boards db) =
      map (\<lambda>x. if b_slug x = slug then f x else x) (boards db)" for f
    by (simp add: update_where_def)
  note u = this
  let ?r = "patch_result (tx_now S db) inp b db"
  have "boards_patch S slug inp db = Inr (fst ?r, snd ?r)" using ok by simp
  then have "db_inv S (snd ?r)" by (rule boards_patch_inv [OF assms(1)])
  with True ok patched_board_rules [OF _ True] show ?thesis
    by (simp add: patch_result_def u keeps)
next
  case False
  have "boards_patch S slug inp db \<noteq> Inr r" for r
    using False assms(2) boards_patch_Inr by fastforce
  moreover have "errs_in (range Validation) (boards_patch S slug inp db)"
    by (rule boards_patch_errs [OF assms(1)]) (use assms(2) in auto)
  ultimately show ?thesis
    using False by (cases "boards_patch S slug inp db") (auto simp: errs_in_def)
qed

theorem boards_patch_spec_witness:
  "\<exists>b' db'. boards_patch sample_svc ''speed''
       \<lparr>ub_name = Some ''Fastest'', ub_sort_direction = None, ub_tier_config = Absent,
        ub_metadata = Null, ub_realtime = Some True, ub_clear_on_snapshot = None\<rparr> sample_db = Inr (b', db') \<and>
     b_name b' = ''Fastest'' \<and> b_realtime b'"
proof -
  let ?inp = "\<lparr>ub_name = Some ''Fastest'', ub_sort_direction = None, ub_tier_config = Absent,
        ub_metadata = Null, ub_realtime = Some True, ub_clear_on_snapshot = None\<rparr> :: update_board"
  have "patch_board_ok sample_row ?inp"
    by (simp add: patch_board_ok_def sample_row_def new_board_def sample_board_def name_ok_def)
  with boards_patch_spec [OF sample_db_inv sample_db_find, of ?inp] show ?thesis
    by (fastforce simp: patched_board_def)
qed

text \<open>
  C10: deleting a board removes the board and everything that belongs to it (entries, versions
  and their placements, references, scores, memberships), and nothing else: the rows of other
  boards stay, references pinned to other boards' versions included.
\<close>

theorem boards_delete_cascades:
  assumes "db_inv S db" "boards_delete slug db = Inr db'"
  shows "\<exists>b. b \<in> set (boards db) \<and> b_slug b = slug \<and> db_inv S db' \<and>
    boards db' = filter (\<lambda>x. b_slug x \<noteq> slug) (boards db) \<and>
    entries db' = filter (\<lambda>e. e_board_id e \<noteq> b_id b) (entries db) \<and>
    versions db' = filter (\<lambda>v. v_board_id v \<noteq> b_id b) (versions db) \<and>
    placements db' = filter (\<lambda>p. \<not> placement_on db (b_id b) p) (placements db) \<and>
    board_references db' = filter (\<lambda>r. br_board_id r \<noteq> b_id b) (board_references db) \<and>
    accumulated_scores db' = filter (\<lambda>a. a_board_id a \<noteq> b_id b) (accumulated_scores db) \<and>
    collection_boards db' = filter (\<lambda>m. m_board_id m \<noteq> b_id b) (collection_boards db) \<and>
    collections db' = collections db"
proof -
  obtain b where b: "find (\<lambda>b. b_slug b = slug) (boards db) = Some b" and
      d: "db' = delete_board_rows [b_id b] db"
    by (rule boards_delete_Inr [OF assms])
  from b have bin: "b \<in> set (boards db)" "b_slug b = slug" by (auto dest: find_Some_in)
  have k: "keys_ok db" and r: "refs_ok db" using assms(1) by (simp_all add: db_inv_def)
  have "b_id x = b_id b \<longleftrightarrow> b_slug x = slug" if "x \<in> set (boards db)" for x
    using k bin that by (auto simp: keys_ok_def dest: distinct_map_inj)
  then have "boards db' = filter (\<lambda>x. b_slug x \<noteq> slug) (boards db)"
    by (simp add: d delete_board_rows_def Let_def cong: filter_cong)
  moreover have "br_pinned_version_id q \<notin> Some ` v_id ` {v \<in> set (versions db). v_board_id v = b_id b}"
    if "q \<in> set (board_references db)" "br_board_id q \<noteq> b_id b" for q
  proof
    assume "br_pinned_version_id q \<in> Some ` v_id ` {v \<in> set (versions db). v_board_id v = b_id b}"
    then obtain v where "br_pinned_version_id q = Some (v_id v)" "v \<in> set (versions db)" "v_board_id v = b_id b"
      by auto
    moreover from this have "(v_id v, v_board_id v) \<in> version_keys db"
      unfolding version_keys_def by (intro imageI)
    ultimately obtain vid where v: "br_pinned_version_id q = Some vid" "(vid, b_id b) \<in> version_keys db"
      by simp
    with r that have "(vid, br_board_id q) \<in> version_keys db" by (auto simp: refs_ok_def pin_ok_def)
    with v that version_key_fun [OF k] show False by blast
  qed
  note pins = this
  have "board_references db' = filter (\<lambda>r. br_board_id r \<noteq> b_id b) (board_references db)"
    by (simp add: d delete_board_rows_def Let_def) (intro map_idI, use pins in auto)
  moreover have "a_entry_id a \<notin> e_id ` {e \<in> set (entries db). e_board_id e = b_id b}"
    if "a \<in> set (accumulated_scores db)" "a_board_id a \<noteq> b_id b" for a
  proof -
    have "(a_entry_id a, a_board_id a) \<in> entry_keys db" using r that by (auto simp: refs_ok_def)
    with that entry_key_fun [OF k this] have "(a_entry_id a, b_id b) \<notin> entry_keys db" by blast
    then show ?thesis by (auto simp: entry_keys_def)
  qed
  then have "accumulated_scores db' = filter (\<lambda>a. a_board_id a \<noteq> b_id b) (accumulated_scores db)"
    by (auto simp: d delete_board_rows_def Let_def intro: filter_cong)
  moreover note delete_board_placements [OF assms(1), of "b_id b", folded d]
  ultimately show ?thesis
    using bin boards_delete_inv [OF assms]
    by (intro exI [of _ b]) (simp add: d delete_board_rows_def Let_def)
qed

theorem boards_delete_cascades_witness:
  "\<exists>db'. boards_delete ''speed'' sample_db = Inr db' \<and> db_inv sample_svc db' \<and> boards db' = []"
proof -
  have s: "b_slug sample_row = ''speed''" by (simp add: sample_row_def new_board_def sample_board_def)
  then obtain db' where d: "boards_delete ''speed'' sample_db = Inr db'"
    by (simp add: boards_delete_def sample_db_def)
  have "boards sample_db = [sample_row]" by (simp add: sample_db_def)
  with boards_delete_cascades [OF sample_db_inv d] d s show ?thesis by auto
qed

end
