(* ===== verification/Entries.thy ===== *)
theory Entries
  imports Boards
begin

text \<open>
  \<open>repo/entries.rs\<close>: the entries of a board. An entry that a version places cannot be deleted,
  which is what keeps published versions as they were.
\<close>

section \<open>Operations\<close>

definition new_entry :: "svc \<Rightarrow> uuid \<Rightarrow> create_entry \<Rightarrow> db \<Rightarrow> entry" where
  "new_entry S bid inp db =
     \<lparr>e_id = next_id S db, e_board_id = bid, e_slug = ce_slug inp, e_name = ce_name inp,
      e_metadata = ce_metadata inp, e_created_at = tx_now S db, e_updated_at = tx_now S db\<rparr>"

definition entry_conflict :: "string \<Rightarrow> error" where
  "entry_conflict slug =
     Conflict [Lit ''entry with slug '', Quo slug, Lit '' already exists on this board'']"

definition entries_create :: "svc \<Rightarrow> uuid \<Rightarrow> create_entry \<Rightarrow> db \<Rightarrow> (entry \<times> db) result" where
  "entries_create S bid inp db =
     rbind (validate_slug (ce_slug inp)) (\<lambda>_.
     rbind (validate_name (ce_name inp)) (\<lambda>_.
     on_unique_violation (entry_conflict (ce_slug inp))
       (rbind (insert_entry (new_entry S bid inp db) db) (\<lambda>db'.
        Inr (new_entry S bid inp db, db')))))"

definition entries_list :: "uuid \<Rightarrow> db \<Rightarrow> entry list" where
  "entries_list bid db = order_by Asc e_created_at (board_entries bid db)"

definition entry_cursor :: "entry \<Rightarrow> cursor" where
  "entry_cursor e = Cursor (e_created_at e) (e_id e)"

definition entries_list_paginated ::
  "codec \<Rightarrow> uuid \<Rightarrow> pagination_params \<Rightarrow> db \<Rightarrow> entry paginated_response result" where
  "entries_list_paginated C bid params db = paginate C Asc entry_cursor params (board_entries bid db)"

definition entry_not_found :: "string \<Rightarrow> error" where
  "entry_not_found slug = NotFound [Lit ''entry '', Quo slug, Lit '' not found'']"

definition find_entry :: "uuid \<Rightarrow> string \<Rightarrow> db \<Rightarrow> entry option" where
  "find_entry bid slug db = find (\<lambda>e. e_board_id e = bid \<and> e_slug e = slug) (entries db)"

definition entries_get_by_slug :: "uuid \<Rightarrow> string \<Rightarrow> db \<Rightarrow> entry result" where
  "entries_get_by_slug bid slug db = ok_or (find_entry bid slug db) (entry_not_found slug)"

definition patched_entry :: "timestamp \<Rightarrow> update_entry \<Rightarrow> entry \<Rightarrow> entry" where
  "patched_entry t inp e =
     e\<lparr>e_name := unwrap_or (ue_name inp) (e_name e), e_metadata := patch (ue_metadata inp) (e_metadata e),
       e_updated_at := t\<rparr>"

definition entries_patch :: "svc \<Rightarrow> uuid \<Rightarrow> string \<Rightarrow> update_entry \<Rightarrow> db \<Rightarrow> (entry \<times> db) result" where
  "entries_patch S bid slug inp db =
     rbind (check_opt validate_name (ue_name inp)) (\<lambda>_.
     rbind (entries_get_by_slug bid slug db) (\<lambda>entry.
     let updated = patched_entry (tx_now S db) inp entry in
     Inr (updated, db\<lparr>entries := update_where (\<lambda>e. e_id e = e_id entry) (\<lambda>_. updated) (entries db)\<rparr>)))"

text \<open>\<open>count(DISTINCT version_id)\<close> of the entry's placements.\<close>

definition placed_versions :: "uuid \<Rightarrow> db \<Rightarrow> uuid list" where
  "placed_versions eid db = remdups (map p_version_id (filter (\<lambda>p. p_entry_id p = eid) (placements db)))"

definition entries_delete :: "uuid \<Rightarrow> string \<Rightarrow> db \<Rightarrow> db result" where
  "entries_delete bid slug db =
     rbind (entries_get_by_slug bid slug db) (\<lambda>entry.
     let version_count = length (placed_versions (e_id entry) db) in
     rbind (reject_if (0 < version_count)
              (Conflict [Lit ''entry '', Quo slug, Lit '' cannot be deleted because it has placements in '',
                 Num (int version_count), Lit '' version(s)''])) (\<lambda>_.
     Inr (delete_entry_row (e_id entry) db)))"

definition entries_get_by_id :: "uuid \<Rightarrow> db \<Rightarrow> entry result" where
  "entries_get_by_id i db =
     ok_or (find (\<lambda>e. e_id e = i) (entries db))
       (NotFound [Lit ''entry with id '', Num (int i), Lit '' not found''])"

text \<open>\<open>LIMIT\<close> refuses a negative count.\<close>

definition sql_limit :: "int \<Rightarrow> 'a list \<Rightarrow> 'a list result" where
  "sql_limit n xs = (if n < 0 then Inl (Database InvalidValue) else Inr (take (nat n) xs))"

definition history_item :: "placement \<Rightarrow> version \<Rightarrow> entry_history_item" where
  "history_item p v =
     \<lparr>h_version_number = v_number v, h_position = p_position p, h_score = p_score p, h_tier = p_tier p,
      h_metadata = p_metadata p, h_created_at = v_created_at v\<rparr>"

definition history_rows :: "uuid \<Rightarrow> db \<Rightarrow> entry_history_item list" where
  "history_rows eid db =
     concat (map (\<lambda>p. map (history_item p) (filter (\<lambda>v. v_id v = p_version_id p) (versions db)))
       (filter (\<lambda>p. p_entry_id p = eid) (placements db)))"

definition entries_history :: "uuid \<Rightarrow> string \<Rightarrow> int \<Rightarrow> db \<Rightarrow> entry_history_item list result" where
  "entries_history bid slug lim db =
     rbind (entries_get_by_slug bid slug db) (\<lambda>entry.
     sql_limit lim (order_by Asc h_version_number (history_rows (e_id entry) db)))"

section \<open>Lookup\<close>

lemma find_entry_Some:
  "find_entry bid slug db = Some e \<Longrightarrow> e \<in> set (entries db) \<and> e_board_id e = bid \<and> e_slug e = slug"
  by (auto simp: find_entry_def dest: find_Some_in)

lemma find_entry_eq:
  assumes "keys_ok db" "e \<in> set (entries db)" "e_board_id e = bid" "e_slug e = slug"
  shows "find_entry bid slug db = Some e"
  unfolding find_entry_def
proof (rule find_unique [OF assms(2)])
  fix y assume "y \<in> set (entries db)" "e_board_id y = bid \<and> e_slug y = slug"
  with assms show "y = e" by (auto simp: keys_ok_def intro: distinct_map_inj)
qed (use assms in simp)

lemma find_entry_None:
  "find_entry bid slug db = None \<longleftrightarrow> (bid, slug) \<notin> (\<lambda>e. (e_board_id e, e_slug e)) ` set (entries db)"
  by (auto simp: find_entry_def find_None_iff)

section \<open>Creation and PATCH\<close>

lemma entries_create_inv:
  assumes "db_inv S db" "entries_create S bid inp db = Inr (e, db')"
  shows "db_inv S db'"
proof -
  have "insert_entry (new_entry S bid inp db) db = Inr db'"
    using assms(2) by (auto simp: entries_create_def on_unique_violation_def
        split: sum.splits error.splits db_error.splits)
  with assms(1) show ?thesis by (rule insert_entry_inv) (simp add: new_entry_def)
qed

lemma entries_patch_inv:
  assumes "db_inv S db" "entries_patch S bid slug inp db = Inr (e, db')"
  shows "db_inv S db'"
proof -
  obtain e0 where e0: "find_entry bid slug db = Some e0"
      "db' = db\<lparr>entries := update_where (\<lambda>e. e_id e = e_id e0)
         (\<lambda>_. patched_entry (tx_now S db) inp e0) (entries db)\<rparr>"
    using assms(2) by (auto simp: entries_patch_def entries_get_by_slug_def Let_def)
  have "x = e0" if "x \<in> set (entries db)" "e_id x = e_id e0" for x
    using assms(1) find_entry_Some [OF e0(1)] that by (auto simp: db_inv_def keys_ok_def dest: distinct_map_inj)
  then show ?thesis
    unfolding e0(2) by (intro update_entries_inv [OF assms(1)]) (auto simp: patched_entry_def)
qed

section \<open>Deletion\<close>

lemma placed_versions_empty: "placed_versions eid db = [] \<longleftrightarrow> (\<forall>p \<in> set (placements db). p_entry_id p \<noteq> eid)"
  by (auto simp: placed_versions_def filter_empty_conv)

lemma entries_delete_inv: "db_inv S db \<Longrightarrow> entries_delete bid slug db = Inr db' \<Longrightarrow> db_inv S db'"
  by (auto simp: entries_delete_def Let_def delete_entry_row_inv)

section \<open>History\<close>

lemma history_rows_set:
  "set (history_rows eid db) =
     {history_item p v | p v. p \<in> set (placements db) \<and> p_entry_id p = eid \<and> v \<in> set (versions db) \<and>
        v_id v = p_version_id p}"
  by (auto simp: history_rows_def)

text \<open>The join of a placement with its version yields exactly one row.\<close>

definition version_of :: "db \<Rightarrow> uuid \<Rightarrow> version" where
  "version_of db vid = hd (filter (\<lambda>v. v_id v = vid) (versions db))"

lemma version_of_eq: "keys_ok db \<Longrightarrow> v \<in> set (versions db) \<Longrightarrow> version_of db (v_id v) = v"
  using filter_by_key [of v_id "versions db" v] by (simp add: version_of_def keys_ok_def)

lemma version_of_placement:
  assumes "db_inv S db" "p \<in> set (placements db)"
  shows "version_of db (p_version_id p) \<in> set (versions db)"
    and "v_id (version_of db (p_version_id p)) = p_version_id p"
    and "filter (\<lambda>v. v_id v = p_version_id p) (versions db) = [version_of db (p_version_id p)]"
    and "(p_entry_id p, v_board_id (version_of db (p_version_id p))) \<in> entry_keys db"
proof -
  have k: "keys_ok db" using assms(1) by (simp add: db_inv_def)
  from assms obtain v where v: "v \<in> set (versions db)" "v_id v = p_version_id p"
      "(p_entry_id p, v_board_id v) \<in> entry_keys db"
    by (auto simp: db_inv_def refs_ok_def same_board_def version_keys_def)
  moreover have "version_of db (p_version_id p) = v" using version_of_eq [OF k v(1)] v(2) by simp
  moreover have "filter (\<lambda>x. v_id x = v_id v) (versions db) = [v]"
    using k v(1) by (intro filter_by_key) (simp_all add: keys_ok_def)
  ultimately show "version_of db (p_version_id p) \<in> set (versions db)"
    "v_id (version_of db (p_version_id p)) = p_version_id p"
    "filter (\<lambda>v. v_id v = p_version_id p) (versions db) = [version_of db (p_version_id p)]"
    "(p_entry_id p, v_board_id (version_of db (p_version_id p))) \<in> entry_keys db"
    by simp_all
qed

lemma history_rows_eq:
  assumes "db_inv S db"
  shows "history_rows eid db =
    map (\<lambda>p. history_item p (version_of db (p_version_id p))) (filter (\<lambda>p. p_entry_id p = eid) (placements db))"
  unfolding history_rows_def
  by (rule concat_map_single) (simp add: version_of_placement [OF assms])

text \<open>An entry has at most one row per version, so the numbers of its history differ.\<close>

lemma history_numbers_distinct:
  assumes "db_inv S db"
  shows "distinct (map h_version_number (history_rows eid db))"
proof -
  let ?ps = "filter (\<lambda>p. p_entry_id p = eid) (placements db)"
  have k: "keys_ok db" using assms by (simp add: db_inv_def)
  have "p = q" if "p \<in> set ?ps" "q \<in> set ?ps"
      "v_number (version_of db (p_version_id p)) = v_number (version_of db (p_version_id q))" for p q
  proof -
    have pq: "p \<in> set (placements db)" "q \<in> set (placements db)" "p_entry_id p = eid" "p_entry_id q = eid"
      using that(1,2) by simp_all
    let ?v = "version_of db (p_version_id p)" and ?w = "version_of db (p_version_id q)"
    note v = version_of_placement [OF assms pq(1), unfolded pq(3)]
    note w = version_of_placement [OF assms pq(2), unfolded pq(4)]
    have "(v_board_id ?v, v_number ?v) = (v_board_id ?w, v_number ?w)"
      using entry_key_fun [OF k v(4) w(4)] that(3) by simp
    then have "?v = ?w" by (rule distinct_map_inj [OF keys_okD(6) [OF k] v(1) w(1)])
    then have "v_id ?v = v_id ?w" by (rule arg_cong)
    then have "(p_version_id p, p_entry_id p) = (p_version_id q, p_entry_id q)"
      unfolding v(2) w(2) pq(3,4) by simp
    then show ?thesis by (rule distinct_map_inj [OF keys_okD(8) [OF k] pq(1,2)])
  qed
  moreover have "distinct ?ps" using k by (auto simp: keys_ok_def distinct_map)
  ultimately have "distinct (map (\<lambda>p. v_number (version_of db (p_version_id p))) ?ps)"
    unfolding distinct_map inj_on_def by blast
  then show ?thesis by (simp add: history_rows_eq [OF assms] history_item_def comp_def)
qed

section \<open>Paginated listing\<close>

lemma entry_cursors_differ: "db_inv S db \<Longrightarrow> distinct (map entry_cursor (board_entries bid db))"
proof -
  assume "db_inv S db"
  then have "distinct (map e_id (board_entries bid db))"
    by (simp add: db_inv_def keys_ok_def board_entries_def distinct_map_filter)
  then have "distinct (map (cursor_id \<circ> entry_cursor) (board_entries bid db))" by (simp add: entry_cursor_def comp_def)
  then show ?thesis by (simp add: distinct_map inj_on_def)
qed

interpretation entry_listing: keyset_listing "db_inv S" "board_entries bid" entry_cursor Asc
    "\<lambda>C. entries_list_paginated C bid"
  for S :: svc and bid :: uuid
  by standard (auto simp: entry_cursors_differ entries_list_paginated_def)

section \<open>Properties\<close>

definition sample_entry :: create_entry where
  "sample_entry = \<lparr>ce_slug = ''ann'', ce_name = ''Ann'', ce_metadata = None\<rparr>"

definition sample_entry_row :: entry where
  "sample_entry_row = new_entry sample_svc (b_id sample_row) sample_entry sample_db"

definition sample_entry_db :: db where
  "sample_entry_db = sample_db\<lparr>entries := [sample_entry_row], drawn := 2\<rparr>"

lemma sample_entry_create:
  "entries_create sample_svc (b_id sample_row) sample_entry sample_db = Inr (sample_entry_row, sample_entry_db)"
proof -
  have "slug_ok (ce_slug sample_entry)" "name_ok (ce_name sample_entry)"
    by (simp_all add: sample_entry_def slug_ok_def name_ok_def slug_byte_def less_eq_char_def)
  then show ?thesis
    by (simp add: entries_create_def on_unique_violation_def insert_entry_def)
      (simp add: sample_entry_db_def sample_entry_row_def sample_db_def empty_db_def new_entry_def)
qed

lemma sample_entry_db_inv [simp]: "db_inv sample_svc sample_entry_db"
  using entries_create_inv [OF sample_db_inv sample_entry_create] .

lemma sample_entry_found: "find_entry (b_id sample_row) ''ann'' sample_entry_db = Some sample_entry_row"
  by (simp add: find_entry_def sample_entry_db_def sample_entry_row_def new_entry_def sample_entry_def)

text \<open>
  Creating an entry on an existing board fails exactly for an invalid slug or name
  (validation error) or a slug the board already has (conflict); the same slug on another board
  is no conflict. Otherwise the entry is stored under a fresh id.
\<close>

theorem entries_create_spec:
  assumes "svc_ok S" "db_inv S db" "bid \<in> b_id ` set (boards db)"
  shows "if \<not> slug_ok (ce_slug inp) \<or> \<not> name_ok (ce_name inp)
    then \<exists>m. entries_create S bid inp db = Inl (Validation m)
    else if \<exists>e \<in> set (entries db). e_board_id e = bid \<and> e_slug e = ce_slug inp
    then entries_create S bid inp db = Inl (entry_conflict (ce_slug inp))
    else \<exists>db'. entries_create S bid inp db = Inr (new_entry S bid inp db, db') \<and>
      entries db' = entries db @ [new_entry S bid inp db] \<and> db_inv S db'"
proof (cases "slug_ok (ce_slug inp) \<and> name_ok (ce_name inp)")
  case True
  have "next_id S db \<notin> e_id ` set (entries db)"
    using next_id_fresh [OF assms(1)] assms(2) by (auto simp: db_inv_def all_ids_def)
  moreover have "e_id (new_entry S bid inp db) = next_id S db" "e_board_id (new_entry S bid inp db) = bid"
      "e_slug (new_entry S bid inp db) = ce_slug inp"
    by (simp_all add: new_entry_def)
  ultimately have eq: "entries_create S bid inp db =
      (if \<exists>e \<in> set (entries db). e_board_id e = bid \<and> e_slug e = ce_slug inp
       then Inl (entry_conflict (ce_slug inp))
       else Inr (new_entry S bid inp db,
              db\<lparr>entries := entries db @ [new_entry S bid inp db], drawn := Suc (drawn db)\<rparr>))"
    using True assms(3)
    by (simp add: entries_create_def on_unique_violation_def insert_entry_def image_iff eq_commute [of bid]
        eq_commute [of "ce_slug inp"])
  with True entries_create_inv [OF assms(2), of bid inp "new_entry S bid inp db"] show ?thesis by simp
next
  case False
  have "errs_in (range Validation) (rbind (validate_slug (ce_slug inp)) (\<lambda>_. validate_name (ce_name inp)))"
    by (auto intro!: errs)
  moreover have "rbind (validate_slug (ce_slug inp)) (\<lambda>_. validate_name (ce_name inp)) \<noteq> Inr u" for u
    using False by auto
  ultimately obtain m where m: "rbind (validate_slug (ce_slug inp)) (\<lambda>_. validate_name (ce_name inp)) = Inl (Validation m)"
    by (cases "rbind (validate_slug (ce_slug inp)) (\<lambda>_. validate_name (ce_name inp))") (auto simp: errs_in_def)
  then have "entries_create S bid inp db = Inl (Validation m)"
    by (auto simp: entries_create_def rbind_eq_Inl)
  with False show ?thesis by auto
qed

theorem entries_create_spec_witness:
  "\<exists>db'. entries_create sample_svc (b_id sample_row) sample_entry sample_db = Inr (sample_entry_row, db') \<and>
     entries db' = [sample_entry_row] \<and> db_inv sample_svc db'"
proof -
  have "b_id sample_row \<in> b_id ` set (boards sample_db)" "entries sample_db = []"
      "slug_ok (ce_slug sample_entry)" "name_ok (ce_name sample_entry)"
    by (simp_all add: sample_db_def empty_db_def sample_entry_def slug_ok_def name_ok_def slug_byte_def less_eq_char_def)
  with entries_create_spec [OF sample_svc_ok sample_db_inv this(1), of sample_entry] show ?thesis
    by (simp add: sample_entry_row_def)
qed

text \<open>
  C4: an entry that appears in any version cannot be deleted: the request is a conflict that
  counts the versions. Deleting any other entry removes its row and its accumulated score, and
  leaves every version and every placement of every board as it was.
\<close>

theorem entries_delete_keeps_history:
  assumes "db_inv S db"
  shows "case find_entry bid slug db of
      None \<Rightarrow> entries_delete bid slug db = Inl (entry_not_found slug)
    | Some e \<Rightarrow>
        (if \<exists>p \<in> set (placements db). p_entry_id p = e_id e
         then \<exists>n. n = card {p_version_id p | p. p \<in> set (placements db) \<and> p_entry_id p = e_id e} \<and> 0 < n \<and>
           entries_delete bid slug db =
             Inl (Conflict [Lit ''entry '', Quo slug, Lit '' cannot be deleted because it has placements in '',
               Num (int n), Lit '' version(s)''])
         else \<exists>db'. entries_delete bid slug db = Inr db' \<and> db_inv S db' \<and>
           placements db' = placements db \<and> versions db' = versions db \<and>
           entries db' = filter (\<lambda>x. e_id x \<noteq> e_id e) (entries db))"
proof (cases "find_entry bid slug db")
  case None
  then show ?thesis by (simp add: entries_delete_def entries_get_by_slug_def)
next
  case (Some e)
  have n: "length (placed_versions (e_id e) db) = card {p_version_id p | p. p \<in> set (placements db) \<and> p_entry_id p = e_id e}"
  proof -
    have "set (placed_versions (e_id e) db) = {p_version_id p | p. p \<in> set (placements db) \<and> p_entry_id p = e_id e}"
      by (auto simp: placed_versions_def)
    moreover have "distinct (placed_versions (e_id e) db)" by (simp add: placed_versions_def)
    ultimately show ?thesis using distinct_card by metis
  qed
  show ?thesis
  proof (cases "\<exists>p \<in> set (placements db). p_entry_id p = e_id e")
    case True
    then have "placed_versions (e_id e) db \<noteq> []" by (simp add: placed_versions_empty)
    moreover from this have "0 < length (placed_versions (e_id e) db)" by simp
    ultimately show ?thesis
      using True Some n by (simp add: entries_delete_def entries_get_by_slug_def Let_def)
  next
    case False
    then have "placed_versions (e_id e) db = []" by (simp add: placed_versions_empty)
    with False Some delete_entry_row_inv [OF assms] show ?thesis
      by (simp add: entries_delete_def entries_get_by_slug_def Let_def)
        (simp add: delete_entry_row_def filter_id_conv)
  qed
qed

theorem entries_delete_keeps_history_witness:
  "\<exists>db'. entries_delete (b_id sample_row) ''ann'' sample_entry_db = Inr db' \<and> db_inv sample_svc db' \<and> entries db' = []"
proof -
  have "placements sample_entry_db = []" "entries sample_entry_db = [sample_entry_row]"
    by (simp_all add: sample_entry_db_def sample_db_def empty_db_def)
  with entries_delete_keeps_history [OF sample_entry_db_inv, of "b_id sample_row" "''ann''"] sample_entry_found
  show ?thesis by auto
qed

text \<open>
  The history of an entry is complete and chronological. Up to the limit it lists, in
  strictly increasing version number, one item for each version that places the entry, with the
  position, score and tier of that placement.
\<close>

theorem entries_history_complete:
  assumes "db_inv S db" "find_entry bid slug db = Some e" "0 \<le> lim"
  shows "\<exists>full. entries_history bid slug lim db = Inr (take (nat lim) full) \<and>
    sorted_wrt (\<lambda>a b. h_version_number a < h_version_number b) full \<and>
    length full = length (filter (\<lambda>p. p_entry_id p = e_id e) (placements db)) \<and>
    set full = {history_item p v | p v. p \<in> set (placements db) \<and> p_entry_id p = e_id e \<and>
      v \<in> set (versions db) \<and> v_id v = p_version_id p}"
proof -
  let ?full = "order_by Asc h_version_number (history_rows (e_id e) db)"
  have "sorted_wrt (\<lambda>a b. h_version_number a < h_version_number b) ?full"
    using order_by_strict [OF history_numbers_distinct [OF assms(1)], of Asc] by simp
  moreover have "length ?full = length (filter (\<lambda>p. p_entry_id p = e_id e) (placements db))"
    by (simp only: length_order_by history_rows_eq [OF assms(1)] length_map)
  moreover have "set ?full = set (history_rows (e_id e) db)" by (rule set_order_by)
  moreover have "entries_history bid slug lim db = Inr (take (nat lim) ?full)"
    using assms(2,3) by (simp add: entries_history_def entries_get_by_slug_def sql_limit_def)
  ultimately show ?thesis unfolding history_rows_set by blast
qed

theorem entries_history_complete_witness:
  "\<exists>full. entries_history (b_id sample_row) ''ann'' 50 sample_entry_db = Inr (take 50 full) \<and> length full = 0"
proof -
  have "placements sample_entry_db = []" by (simp add: sample_entry_db_def sample_db_def empty_db_def)
  with entries_history_complete [OF sample_entry_db_inv sample_entry_found, of 50] show ?thesis by auto
qed

end
