(* ===== verification/Numbering.thy ===== *)
theory Numbering
  imports Entries
begin

text \<open>
  What the three writers of versions have in common (\<open>versions::create\<close>, \<open>scores::snapshot\<close>,
  \<open>realtime::snapshot\<close>): the row lock on the board, the limit on versions, the next number, the
  INSERT of the version and of its placements, and the ranking of a scored version. The contract
  of a writer is the locale \<open>version_writer\<close>.
\<close>

section \<open>The shared statements\<close>

text \<open>\<open>SELECT * FROM boards WHERE id = $1 FOR UPDATE\<close> with \<open>fetch_one\<close>.\<close>

definition lock_board :: "uuid \<Rightarrow> db \<Rightarrow> board result" where
  "lock_board bid db = ok_or (find (\<lambda>b. b_id b = bid) (boards db)) (Database RowNotFound)"

definition version_count :: "uuid \<Rightarrow> db \<Rightarrow> int" where
  "version_count bid db = int (length (board_versions bid db))"

definition check_max_versions :: "int option \<Rightarrow> uuid \<Rightarrow> db \<Rightarrow> unit result" where
  "check_max_versions max_versions bid db =
     (case max_versions of
        None \<Rightarrow> Inr ()
      | Some m \<Rightarrow>
          reject_if (m \<le> version_count bid db)
            (Validation [Lit ''board has too many versions ('', Num (version_count bid db),
               Lit '', max '', Num m, Lit '')'']))"

text \<open>\<open>COALESCE(MAX(version_number), 0) + 1\<close>, an \<open>integer\<close> addition that the server checks.\<close>

definition max_number :: "uuid \<Rightarrow> db \<Rightarrow> int" where
  "max_number bid db =
     (case map v_number (board_versions bid db) of [] \<Rightarrow> 0 | n # ns \<Rightarrow> foldr max ns n)"

definition next_number :: "uuid \<Rightarrow> db \<Rightarrow> i32 result" where
  "next_number bid db =
     (if in_i32 (max_number bid db + 1) then Inr (max_number bid db + 1) else Inl (Database OutOfRange))"

definition new_version :: "svc \<Rightarrow> uuid \<Rightarrow> i32 \<Rightarrow> string option \<Rightarrow> json option \<Rightarrow> db \<Rightarrow> version" where
  "new_version S bid n note meta db =
     \<lparr>v_id = next_id S db, v_board_id = bid, v_number = n, v_note = note, v_metadata = meta,
      v_created_at = tx_now S db\<rparr>"

definition insert_new_version ::
  "svc \<Rightarrow> uuid \<Rightarrow> i32 \<Rightarrow> string option \<Rightarrow> json option \<Rightarrow> db \<Rightarrow> (version \<times> db) result" where
  "insert_new_version S bid n note meta db =
     rbind (insert_version (new_version S bid n note meta db) db) (\<lambda>db'.
     Inr (new_version S bid n note meta db, db'))"

text \<open>The columns of a placement that a writer chooses.\<close>

record placement_values =
  pl_entry_id :: uuid
  pl_position :: "i32 option"
  pl_score :: "f64 option"
  pl_tier :: "string option"
  pl_metadata :: "json option"

definition placement_row :: "uuid \<Rightarrow> uuid \<Rightarrow> placement_values \<Rightarrow> placement" where
  "placement_row i vid r =
     \<lparr>p_id = i, p_version_id = vid, p_entry_id = pl_entry_id r, p_position = pl_position r,
      p_score = pl_score r, p_tier = pl_tier r, p_metadata = pl_metadata r\<rparr>"

fun insert_placements :: "svc \<Rightarrow> uuid \<Rightarrow> placement_values list \<Rightarrow> db \<Rightarrow> (placement list \<times> db) result" where
  "insert_placements S vid [] db = Inr ([], db)"
| "insert_placements S vid (r # rs) db =
     rbind (insert_placement (placement_row (next_id S db) vid r) db) (\<lambda>db'.
     rbind (insert_placements S vid rs db') (\<lambda>(ps, db'').
     Inr (placement_row (next_id S db) vid r # ps, db'')))"

text \<open>
  \<open>ROW_NUMBER() OVER (ORDER BY score ASC|DESC NULLS LAST, entry_id ASC)\<close>; every direction but
  \<open>asc\<close> is descending.
\<close>

definition rank_key :: "string \<Rightarrow> placement \<Rightarrow> nat \<times> int \<times> uuid" where
  "rank_key sort_direction p =
     (case p_score p of
        None \<Rightarrow> (1, 0, p_entry_id p)
      | Some s \<Rightarrow> (0, if sort_direction = ''asc'' then f64_key s else - f64_key s, p_entry_id p))"

definition ranked :: "string \<Rightarrow> uuid \<Rightarrow> db \<Rightarrow> placement list" where
  "ranked sort_direction vid db =
     sort_key (rank_key sort_direction) (filter (\<lambda>p. p_version_id p = vid) (placements db))"

definition row_number :: "placement list \<Rightarrow> placement \<Rightarrow> int" where
  "row_number ps p = 1 + int (length (takeWhile (\<lambda>q. p_id q \<noteq> p_id p) ps))"

text \<open>A row number that is no \<open>integer\<close> cannot be assigned to the column.\<close>

definition derive_scored_positions :: "uuid \<Rightarrow> string \<Rightarrow> db \<Rightarrow> db result" where
  "derive_scored_positions vid sort_direction db =
     (let rs = ranked sort_direction vid db in
      if i32_max < int (length rs) then Inl (Database OutOfRange)
      else Inr (db\<lparr>placements :=
             update_where (\<lambda>p. p_id p \<in> p_id ` set rs) (\<lambda>p. p\<lparr>p_position := Some (row_number rs p)\<rparr>)
               (placements db)\<rparr>))"

section \<open>Numbers\<close>

lemma foldr_max_Max: "foldr max ns (n :: int) = Max (insert n (set ns))"
proof (induction ns)
  case (Cons m ns)
  then show ?case by (simp add: insert_commute [of n m])
qed simp

lemma max_number_ge: "v \<in> set (versions db) \<Longrightarrow> v_board_id v = bid \<Longrightarrow> v_number v \<le> max_number bid db"
proof -
  assume "v \<in> set (versions db)" "v_board_id v = bid"
  then have "v \<in> set (board_versions bid db)" by (simp add: board_versions_def)
  then have "v_number v \<in> set (map v_number (board_versions bid db))" by simp
  then show ?thesis
    unfolding max_number_def
    by (cases "map v_number (board_versions bid db)") (auto simp: foldr_max_Max)
qed

lemma max_number_Nil: "board_versions bid db = [] \<Longrightarrow> max_number bid db = 0"
  by (simp add: max_number_def)

lemma max_number_attained:
  "board_versions bid db \<noteq> [] \<Longrightarrow> \<exists>v \<in> set (board_versions bid db). v_number v = max_number bid db"
proof -
  assume "board_versions bid db \<noteq> []"
  then obtain n ns where ns: "map v_number (board_versions bid db) = n # ns"
    by (cases "board_versions bid db") auto
  then have "max_number bid db \<in> insert n (set ns)"
    using Max_in [of "insert n (set ns)"] by (simp add: max_number_def foldr_max_Max del: Max_insert)
  also have "insert n (set ns) = v_number ` set (board_versions bid db)"
    using arg_cong [OF ns, of set] by simp
  finally show ?thesis by auto
qed

lemma max_number_bounds: "checks_ok db \<Longrightarrow> 0 \<le> max_number bid db \<and> max_number bid db \<le> i32_max"
proof (cases "board_versions bid db = []")
  case False
  assume "checks_ok db"
  moreover obtain v where "v \<in> set (board_versions bid db)" "v_number v = max_number bid db"
    using max_number_attained [OF False] by blast
  ultimately show ?thesis
    by (auto simp: checks_ok_def version_check_def in_i32_def board_versions_def)
qed (simp add: max_number_Nil i32_max_def)

lemma next_number_Inr:
  "checks_ok db \<Longrightarrow> next_number bid db = Inr n \<longleftrightarrow> n = max_number bid db + 1 \<and> max_number bid db < i32_max"
  using max_number_bounds [of db bid]
  by (auto simp: next_number_def in_i32_def i32_min_def i32_max_def)

section \<open>Inserting the version\<close>

definition add_version :: "version \<Rightarrow> db \<Rightarrow> db" where
  "add_version v db = db\<lparr>versions := versions db @ [v], drawn := Suc (drawn db)\<rparr>"

lemma insert_new_version_eq:
  assumes "svc_ok S" "db_inv S db" "bid \<in> b_id ` set (boards db)" "next_number bid db = Inr n"
  shows "insert_new_version S bid n note meta db =
    Inr (new_version S bid n note meta db, add_version (new_version S bid n note meta db) db)"
    and "db_inv S (add_version (new_version S bid n note meta db) db)"
proof -
  let ?v = "new_version S bid n note meta db"
  have c: "checks_ok db" and i: "ids_ok S db" using assms(2) by (simp_all add: db_inv_def)
  have n: "n = max_number bid db + 1" "in_i32 n" "0 < n"
    using assms(4) max_number_bounds [OF c, of bid] by (auto simp: next_number_def split: if_splits)
  have f: "v_id ?v \<notin> v_id ` set (versions db)"
    using next_id_fresh [OF assms(1) i] by (auto simp: new_version_def all_ids_def)
  have "(v_board_id ?v, v_number ?v) \<notin> (\<lambda>v. (v_board_id v, v_number v)) ` set (versions db)"
    using max_number_ge [of _ db bid] n(1) by (fastforce simp: new_version_def)
  with n f assms(3) have ins: "insert_version ?v db = Inr (add_version ?v db)"
    by (simp add: insert_version_def version_check_def new_version_def add_version_def)
  then show "insert_new_version S bid n note meta db = Inr (?v, add_version ?v db)"
    by (simp add: insert_new_version_def)
  show "db_inv S (add_version ?v db)"
    using insert_version_inv [OF assms(2) ins] by (simp add: new_version_def)
qed

section \<open>Inserting the placements\<close>

text \<open>The rows written when the first is drawn as the \<open>n\<close>-th id.\<close>

fun placement_rows :: "svc \<Rightarrow> nat \<Rightarrow> uuid \<Rightarrow> placement_values list \<Rightarrow> placement list" where
  "placement_rows S n vid [] = []"
| "placement_rows S n vid (r # rs) = placement_row (uuidv7 S n) vid r # placement_rows S (Suc n) vid rs"

definition add_placements :: "placement list \<Rightarrow> db \<Rightarrow> db" where
  "add_placements ps db = db\<lparr>placements := placements db @ ps, drawn := drawn db + length ps\<rparr>"

lemma length_placement_rows [simp]: "length (placement_rows S n vid rs) = length rs"
  by (induction rs arbitrary: n) simp_all

lemma placement_rows_fields [simp]:
  "map p_entry_id (placement_rows S n vid rs) = map pl_entry_id rs"
  "map p_position (placement_rows S n vid rs) = map pl_position rs"
  "map p_score (placement_rows S n vid rs) = map pl_score rs"
  "map p_tier (placement_rows S n vid rs) = map pl_tier rs"
  "map p_metadata (placement_rows S n vid rs) = map pl_metadata rs"
  by (induction rs arbitrary: n) (simp_all add: placement_row_def)

lemma placement_rows_version: "p \<in> set (placement_rows S n vid rs) \<Longrightarrow> p_version_id p = vid"
  by (induction rs arbitrary: n) (auto simp: placement_row_def)

lemma placement_rows_entry: "p \<in> set (placement_rows S n vid rs) \<Longrightarrow> p_entry_id p \<in> pl_entry_id ` set rs"
  using placement_rows_fields(1) [of S n vid rs] by (metis image_eqI list.set_map)

lemma insert_placements_eq:
  assumes "svc_ok S" "db_inv S db" "(vid, bid) \<in> version_keys db"
    and "\<forall>r \<in> set rs. (pl_entry_id r, bid) \<in> entry_keys db"
    and "distinct (map pl_entry_id rs)"
    and "\<forall>r \<in> set rs. (vid, pl_entry_id r) \<notin> (\<lambda>p. (p_version_id p, p_entry_id p)) ` set (placements db)"
  shows "insert_placements S vid rs db =
      Inr (placement_rows S (drawn db) vid rs, add_placements (placement_rows S (drawn db) vid rs) db) \<and>
    db_inv S (add_placements (placement_rows S (drawn db) vid rs) db)"
  using assms(2-)
proof (induction rs arbitrary: db)
  case Nil
  then show ?case by (simp add: add_placements_def)
next
  case (Cons r rs)
  let ?p = "placement_row (next_id S db) vid r"
  let ?db = "db\<lparr>placements := placements db @ [?p], drawn := Suc (drawn db)\<rparr>"
  have i: "ids_ok S db" using Cons.prems(1) by (simp add: db_inv_def)
  have sb: "same_board db vid (pl_entry_id r)" using Cons.prems(2,3) by (auto simp: same_board_def)
  have "p_id ?p \<notin> p_id ` set (placements db)"
    using next_id_fresh [OF assms(1) i] by (auto simp: placement_row_def all_ids_def)
  moreover have "vid \<in> v_id ` set (versions db)" "pl_entry_id r \<in> e_id ` set (entries db)"
    using Cons.prems(2,3) by (auto simp: version_keys_def entry_keys_def)
  ultimately have ins: "insert_placement ?p db = Inr ?db"
    using Cons.prems(5) by (simp add: insert_placement_def placement_row_def)
  have inv: "db_inv S ?db"
    by (rule insert_placement_inv [OF Cons.prems(1) ins]) (use sb in \<open>simp_all add: placement_row_def\<close>)
  have "insert_placements S vid rs ?db =
      Inr (placement_rows S (drawn ?db) vid rs, add_placements (placement_rows S (drawn ?db) vid rs) ?db) \<and>
    db_inv S (add_placements (placement_rows S (drawn ?db) vid rs) ?db)"
  proof (rule Cons.IH [OF inv])
    show "\<forall>r \<in> set rs. (vid, pl_entry_id r) \<notin> (\<lambda>p. (p_version_id p, p_entry_id p)) ` set (placements ?db)"
    proof
      fix x assume x: "x \<in> set rs"
      then have "pl_entry_id x \<noteq> pl_entry_id r" using Cons.prems(4) by (auto simp: image_iff)
      with x Cons.prems(5) show "(vid, pl_entry_id x) \<notin> (\<lambda>p. (p_version_id p, p_entry_id p)) ` set (placements ?db)"
        by (auto simp: placement_row_def)
    qed
  qed (use Cons.prems in \<open>simp_all add: version_keys_def entry_keys_def\<close>)
  then show ?case
    using ins by (simp add: add_placements_def next_id_def)
qed

section \<open>Ranking\<close>

lemma ranked_set: "set (ranked sd vid db) = {p \<in> set (placements db). p_version_id p = vid}"
  by (auto simp: ranked_def)

lemma ranked_mset: "mset (ranked sd vid db) = mset (filter (\<lambda>p. p_version_id p = vid) (placements db))"
  by (simp add: ranked_def)

lemma ranked_ids:
  assumes "keys_ok db"
  shows "distinct (map p_id (ranked sd vid db))"
proof -
  have "distinct (map p_id (filter (\<lambda>p. p_version_id p = vid) (placements db)))"
    using keys_okD(7) [OF assms] by (rule distinct_map_filter)
  then have "distinct (sort (map p_id (filter (\<lambda>p. p_version_id p = vid) (placements db))))" by simp
  moreover have "mset (map p_id (ranked sd vid db)) =
      mset (sort (map p_id (filter (\<lambda>p. p_version_id p = vid) (placements db))))"
    by (simp add: ranked_mset)
  ultimately show ?thesis using mset_eq_imp_distinct_iff by blast
qed

lemma row_number_nth:
  assumes "distinct (map p_id ps)" "i < length ps"
  shows "row_number ps (ps ! i) = 1 + int i"
proof -
  have "takeWhile (\<lambda>q. p_id q \<noteq> p_id (ps ! i)) ps = take i ps"
  proof (rule takeWhile_eq_take_P_nth)
    fix j assume "j < i" "j < length ps"
    then show "p_id (ps ! j) \<noteq> p_id (ps ! i)"
      using assms nth_eq_iff_index_eq [OF assms(1), of j i] by auto
  qed simp
  with assms(2) show ?thesis by (simp add: row_number_def)
qed

text \<open>The placements of the version after the ranking, best first.\<close>

definition rank_rows :: "placement list \<Rightarrow> placement list" where
  "rank_rows ps = map (\<lambda>p. p\<lparr>p_position := Some (row_number ps p)\<rparr>) ps"

lemma rank_rows_positions:
  "distinct (map p_id ps) \<Longrightarrow> map p_position (rank_rows ps) = map (\<lambda>i. Some (1 + int i)) [0..<length ps]"
  by (auto simp: rank_rows_def row_number_nth intro!: nth_equalityI)

text \<open>A row ranks before another when it has the better score, or the same score and the smaller entry id.\<close>

definition better :: "string \<Rightarrow> placement \<Rightarrow> placement \<Rightarrow> bool" where
  "better sd p q \<longleftrightarrow>
     (case (p_score p, p_score q) of
        (Some a, Some b) \<Rightarrow>
          (if sd = ''asc'' then f64_key a < f64_key b else f64_key b < f64_key a) \<or>
          (f64_key a = f64_key b \<and> p_entry_id p < p_entry_id q)
      | (Some _, None) \<Rightarrow> True
      | (None, Some _) \<Rightarrow> False
      | (None, None) \<Rightarrow> p_entry_id p < p_entry_id q)"

lemma rank_key_less: "rank_key sd p < rank_key sd q \<longleftrightarrow> better sd p q"
  by (auto simp: rank_key_def better_def split: option.splits)

lemma rank_key_inj: "rank_key sd p = rank_key sd q \<Longrightarrow> p_entry_id p = p_entry_id q"
  by (auto simp: rank_key_def split: option.splits)

lemma ranked_sorted:
  assumes "keys_ok db"
  shows "sorted_wrt (better sd) (ranked sd vid db)"
proof -
  let ?ps = "filter (\<lambda>p. p_version_id p = vid) (placements db)"
  have d: "distinct ?ps" using keys_okD(7) [OF assms] by (auto simp: distinct_map)
  have "inj_on (rank_key sd) (set ?ps)"
  proof (rule inj_onI)
    fix p q assume "p \<in> set ?ps" "q \<in> set ?ps" "rank_key sd p = rank_key sd q"
    then have "p \<in> set (placements db)" "q \<in> set (placements db)"
        "(p_version_id p, p_entry_id p) = (p_version_id q, p_entry_id q)"
      by (auto dest: rank_key_inj)
    then show "p = q" by (intro distinct_map_inj [OF keys_okD(8) [OF assms]])
  qed
  with d have "distinct (map (rank_key sd) ?ps)" by (simp add: distinct_map)
  from order_by_strict [OF this, of Asc] show ?thesis
    by (simp add: ranked_def rank_key_less)
qed

lemma derive_eq:
  assumes "keys_ok db" "derive_scored_positions vid sd db = Inr db'"
  shows "db' = db\<lparr>placements := update_where (\<lambda>p. p_version_id p = vid)
      (\<lambda>p. p\<lparr>p_position := Some (row_number (ranked sd vid db) p)\<rparr>) (placements db)\<rparr>"
proof -
  have "p_id p \<in> p_id ` {q \<in> set (placements db). p_version_id q = vid} \<longleftrightarrow> p_version_id p = vid"
    if "p \<in> set (placements db)" for p
    using that distinct_map_inj [OF keys_okD(7) [OF assms(1)]] by (auto simp: image_iff)
  then have "update_where (\<lambda>p. p_id p \<in> p_id ` {q \<in> set (placements db). p_version_id q = vid}) f (placements db) =
      update_where (\<lambda>p. p_version_id p = vid) f (placements db)" for f
    by (simp add: update_where_def)
  with assms(2) show ?thesis
    by (auto simp: derive_scored_positions_def Let_def ranked_set split: if_splits)
qed

lemma derive_inv:
  assumes "db_inv S db" "derive_scored_positions vid sd db = Inr db'"
  shows "db_inv S db'"
proof -
  have "keys_ok db" using assms(1) by (simp add: db_inv_def)
  from derive_eq [OF this assms(2)] show ?thesis
    by (simp only:) (rule update_placements_inv [OF assms(1)], simp)
qed

lemma filter_update_same:
  "(\<And>x. P (f x) = P x) \<Longrightarrow> filter P (update_where P f xs) = map f (filter P xs)"
  "(\<And>x. P (f x) = P x) \<Longrightarrow> filter (\<lambda>x. \<not> P x) (update_where P f xs) = filter (\<lambda>x. \<not> P x) xs"
  by (induction xs) (simp_all add: update_where_def)

text \<open>After the ranking the rows of the version are, up to order, the ranked rows numbered 1, 2, ...\<close>

lemma derive_rows:
  assumes "keys_ok db" "derive_scored_positions vid sd db = Inr db'"
  shows "filter (\<lambda>p. p_version_id p = vid) (placements db') =
      map (\<lambda>p. p\<lparr>p_position := Some (row_number (ranked sd vid db) p)\<rparr>)
        (filter (\<lambda>p. p_version_id p = vid) (placements db))"
    and "filter (\<lambda>p. p_version_id p \<noteq> vid) (placements db') = filter (\<lambda>p. p_version_id p \<noteq> vid) (placements db)"
  by (simp_all add: derive_eq [OF assms] filter_update_same)

lemma derive_rank_rows:
  assumes "keys_ok db" "derive_scored_positions vid sd db = Inr db'"
  shows "mset (filter (\<lambda>p. p_version_id p = vid) (placements db')) = mset (rank_rows (ranked sd vid db))"
  by (simp add: derive_rows(1) [OF assms] rank_rows_def ranked_mset)

text \<open>A placement without its position.\<close>

definition unranked :: "placement \<Rightarrow> placement" where
  "unranked p = p\<lparr>p_position := None\<rparr>"

text \<open>
  \<open>is_ranking sd rows\<close>: the rows in rank order, the better row first, carry the positions 1, 2,
  ..., without gap.
\<close>

definition is_ranking :: "string \<Rightarrow> placement list \<Rightarrow> bool" where
  "is_ranking sd rows \<longleftrightarrow>
     sorted_wrt (better sd) rows \<and> map p_position rows = map (\<lambda>i. Some (1 + int i)) [0..<length rows]"

lemma better_position [simp]:
  "better sd (p\<lparr>p_position := x\<rparr>) (q\<lparr>p_position := y\<rparr>) \<longleftrightarrow> better sd p q"
  by (simp add: better_def split: option.split)

lemma rank_rows_better: "sorted_wrt (better sd) (map (\<lambda>p. p\<lparr>p_position := f p\<rparr>) ps) \<longleftrightarrow> sorted_wrt (better sd) ps"
  by (simp add: sorted_wrt_map)

lemma derive_ranking:
  assumes "keys_ok db" "derive_scored_positions vid sd db = Inr db'"
  obtains rows where "is_ranking sd rows"
    "mset (filter (\<lambda>p. p_version_id p = vid) (placements db')) = mset rows"
    "mset (map unranked rows) = mset (map unranked (filter (\<lambda>p. p_version_id p = vid) (placements db)))"
proof -
  let ?r = "ranked sd vid db"
  have len: "length (rank_rows ?r) = length ?r" by (simp add: rank_rows_def)
  have "is_ranking sd (rank_rows ?r)"
    using ranked_sorted [OF assms(1)] rank_rows_positions [OF ranked_ids [OF assms(1)]] len
    by (simp add: is_ranking_def) (simp add: rank_rows_def rank_rows_better)
  moreover have "map unranked (rank_rows ?r) = map unranked ?r"
    by (simp add: rank_rows_def unranked_def)
  then have "mset (map unranked (rank_rows ?r)) = mset (map unranked (filter (\<lambda>p. p_version_id p = vid) (placements db)))"
    by (simp add: ranked_mset)
  ultimately show thesis using derive_rank_rows [OF assms] that by blast
qed

section \<open>The contract of a writer\<close>

text \<open>
  \<open>published db bid v db'\<close>: the database went from \<open>db\<close> to \<open>db'\<close> by the new version \<open>v\<close> of
  board \<open>bid\<close>, with the next number; older versions, their placements, the boards and the
  entries are what they were.
\<close>

definition published :: "db \<Rightarrow> uuid \<Rightarrow> version \<Rightarrow> db \<Rightarrow> bool" where
  "published db bid v db' \<longleftrightarrow>
     versions db' = versions db @ [v] \<and> v_board_id v = bid \<and> v_number v = max_number bid db + 1 \<and>
     filter (\<lambda>p. p_version_id p \<in> v_id ` set (versions db)) (placements db') = placements db \<and>
     boards db' = boards db \<and> entries db' = entries db \<and> board_references db' = board_references db \<and>
     collections db' = collections db \<and> collection_boards db' = collection_boards db"

text \<open>A sequence of operations, each of which may fail and then changes nothing.\<close>

fun run :: "('i \<Rightarrow> 'd \<Rightarrow> ('o \<times> 'd) result) \<Rightarrow> 'i list \<Rightarrow> 'd \<Rightarrow> 'd" where
  "run op [] d = d"
| "run op (i # is) d = run op is (case op i d of Inl _ \<Rightarrow> d | Inr (_, d') \<Rightarrow> d')"

definition contiguous :: "uuid \<Rightarrow> db \<Rightarrow> bool" where
  "contiguous bid db \<longleftrightarrow>
     map v_number (board_versions bid db) = map (\<lambda>i. 1 + int i) [0..<length (board_versions bid db)]"

lemma contiguous_max: "contiguous bid db \<Longrightarrow> max_number bid db = int (length (board_versions bid db))"
proof (cases "board_versions bid db = []")
  case False
  assume c: "contiguous bid db"
  let ?n = "length (board_versions bid db)"
  have s: "v_number ` set (board_versions bid db) = (\<lambda>i. 1 + int i) ` {..<?n}"
    using arg_cong [OF c [unfolded contiguous_def], of set] by (simp add: lessThan_atLeast0)
  obtain v where v: "v \<in> set (board_versions bid db)" "v_number v = max_number bid db"
    using max_number_attained [OF False] by blast
  then have "max_number bid db \<in> v_number ` set (board_versions bid db)" by (metis imageI)
  then obtain i where "i < ?n" "max_number bid db = 1 + int i" unfolding s by auto
  then have "max_number bid db \<le> int ?n" by simp
  moreover have "int ?n \<in> v_number ` set (board_versions bid db)"
    unfolding s using False by (intro image_eqI [of _ _ "?n - 1"]) (auto simp: of_nat_diff Suc_le_eq)
  then have "int ?n \<le> max_number bid db"
    using max_number_ge by (auto simp: board_versions_def)
  ultimately show ?thesis by simp
qed (simp add: max_number_Nil)

locale version_writer =
  fixes inv :: "db \<Rightarrow> bool"
    and board_of :: "'i \<Rightarrow> uuid"
    and op :: "'i \<Rightarrow> db \<Rightarrow> ('o \<times> db) result"
  assumes keeps_inv: "inv d \<Longrightarrow> op i d = Inr (r, d') \<Longrightarrow> inv d'"
    and publishes: "inv d \<Longrightarrow> op i d = Inr (r, d') \<Longrightarrow> \<exists>v. published d (board_of i) v d'"
begin

lemma run_inv: "inv d \<Longrightarrow> inv (run op is d)"
  by (induction "is" arbitrary: d) (auto split: sum.split intro: keeps_inv)

text \<open>Versions are only appended, and the placements of the versions already there never change.\<close>

lemma run_history:
  "inv d \<Longrightarrow> \<exists>vs. versions (run op is d) = versions d @ vs \<and>
     (\<forall>vid \<in> v_id ` set (versions d).
        filter (\<lambda>p. p_version_id p = vid) (placements (run op is d)) =
        filter (\<lambda>p. p_version_id p = vid) (placements d))"
proof (induction "is" arbitrary: d)
  case (Cons i "is")
  show ?case
  proof (cases "op i d")
    case (Inr x)
    obtain r d' where x: "x = (r, d')" by (cases x)
    with Inr have op: "op i d = Inr (r, d')" by simp
    from publishes [OF Cons.prems op] obtain v where pub: "published d (board_of i) v d'" by blast
    have step: "filter (\<lambda>p. p_version_id p = vid) (placements d') = filter (\<lambda>p. p_version_id p = vid) (placements d)"
      if "vid \<in> v_id ` set (versions d)" for vid
    proof -
      have "filter (\<lambda>p. p_version_id p = vid) (placements d) =
          filter (\<lambda>p. p_version_id p = vid) (filter (\<lambda>p. p_version_id p \<in> v_id ` set (versions d)) (placements d'))"
        using pub by (simp add: published_def)
      also have "\<dots> = filter (\<lambda>p. p_version_id p = vid) (placements d')"
        using that by (auto simp: conj_commute intro!: filter_cong)
      finally show ?thesis by simp
    qed
    from Cons.IH [OF keeps_inv [OF Cons.prems op]] pub step op show ?thesis
      by (auto simp: published_def)
  qed (use Cons in simp)
qed simp

lemma run_contiguous: "inv d \<Longrightarrow> contiguous bid d \<Longrightarrow> contiguous bid (run op is d)"
proof (induction "is" arbitrary: d)
  case (Cons i "is")
  show ?case
  proof (cases "op i d")
    case (Inr x)
    obtain r d' where x: "x = (r, d')" by (cases x)
    with Inr have op: "op i d = Inr (r, d')" by simp
    from publishes [OF Cons.prems(1) op] obtain v where pub: "published d (board_of i) v d'" by blast
    have "contiguous bid d'"
    proof (cases "board_of i = bid")
      case True
      with pub have "board_versions bid d' = board_versions bid d @ [v]" "v_number v = 1 + max_number bid d"
        by (simp_all add: published_def board_versions_def)
      with Cons.prems(2) contiguous_max [OF Cons.prems(2)] show ?thesis by (simp add: contiguous_def)
    next
      case False
      with pub have "board_versions bid d' = board_versions bid d"
        by (simp add: published_def board_versions_def)
      with Cons.prems(2) show ?thesis by (simp add: contiguous_def)
    qed
    with Cons.IH [OF keeps_inv [OF Cons.prems(1) op]] op show ?thesis by simp
  qed (use Cons in simp)
qed simp

end

section \<open>What the shared statements do together\<close>

lemma publish_insert:
  fixes nt :: "string option" and mt :: "json option"
  assumes "svc_ok S" "db_inv S db" "bid \<in> b_id ` set (boards db)" "next_number bid db = Inr n"
    and "\<forall>r \<in> set rs. (pl_entry_id r, bid) \<in> entry_keys db" "distinct (map pl_entry_id rs)"
  defines "v \<equiv> new_version S bid n nt mt db"
  defines "ps \<equiv> placement_rows S (Suc (drawn db)) (v_id v) rs"
  shows "insert_placements S (v_id v) rs (add_version v db) = Inr (ps, add_placements ps (add_version v db))"
    and "db_inv S (add_placements ps (add_version v db))"
    and "published db bid v (add_placements ps (add_version v db))"
    and "filter (\<lambda>p. p_version_id p = v_id v) (placements (add_placements ps (add_version v db))) = ps"
    and "v_id v \<notin> v_id ` set (versions db)"
proof -
  let ?db = "add_version v db"
  have c: "checks_ok db" and r: "refs_ok db" and i: "ids_ok S db" using assms(2) by (simp_all add: db_inv_def)
  have inv: "db_inv S ?db" unfolding v_def by (rule insert_new_version_eq(2) [OF assms(1-4)])
  show f: "v_id v \<notin> v_id ` set (versions db)"
    using next_id_fresh [OF assms(1) i] by (auto simp: v_def new_version_def all_ids_def)
  have old: "p_version_id p \<in> v_id ` set (versions db)" if "p \<in> set (placements db)" for p
    using r that by (auto simp: refs_ok_def same_board_def version_keys_def)
  have "insert_placements S (v_id v) rs ?db =
      Inr (placement_rows S (drawn ?db) (v_id v) rs, add_placements (placement_rows S (drawn ?db) (v_id v) rs) ?db) \<and>
    db_inv S (add_placements (placement_rows S (drawn ?db) (v_id v) rs) ?db)"
  proof (rule insert_placements_eq [OF assms(1) inv])
    show "(v_id v, bid) \<in> version_keys ?db"
      by (simp add: version_keys_def add_version_def v_def new_version_def)
    show "\<forall>r \<in> set rs. (v_id v, pl_entry_id r) \<notin> (\<lambda>p. (p_version_id p, p_entry_id p)) ` set (placements ?db)"
      using f old by (auto simp: add_version_def)
  qed (use assms(5,6) in \<open>simp_all add: add_version_def entry_keys_def\<close>)
  moreover have "drawn ?db = Suc (drawn db)" by (simp add: add_version_def)
  ultimately show "insert_placements S (v_id v) rs ?db = Inr (ps, add_placements ps ?db)"
    "db_inv S (add_placements ps ?db)"
    by (simp_all add: ps_def)
  have new: "p_version_id p = v_id v" if "p \<in> set ps" for p
    using that by (simp add: ps_def placement_rows_version)
  have "filter (\<lambda>p. p_version_id p \<in> v_id ` set (versions db)) (placements db @ ps) = placements db"
    using old new f by (auto simp: filter_empty_conv filter_id_conv)
  moreover have "v_number v = max_number bid db + 1"
    using assms(4) next_number_Inr [OF c] by (simp add: v_def new_version_def)
  ultimately show "published db bid v (add_placements ps ?db)"
    by (simp add: published_def add_placements_def add_version_def) (simp add: v_def new_version_def)
  have "filter (\<lambda>p. p_version_id p = v_id v) (placements db) = []"
    unfolding filter_empty_conv using old f by metis
  moreover have "filter (\<lambda>p. p_version_id p = v_id v) ps = ps"
    using new by (simp add: filter_id_conv)
  ultimately show "filter (\<lambda>p. p_version_id p = v_id v) (placements (add_placements ps ?db)) = ps"
    by (simp add: add_placements_def add_version_def)
qed

lemma publish_derive:
  assumes "published db bid v db1" "db_inv S db1" "v_id v \<notin> v_id ` set (versions db)"
    and "derive_scored_positions (v_id v) sd db1 = Inr db2"
  shows "published db bid v db2"
proof -
  have k: "keys_ok db1" using assms(2) by (simp add: db_inv_def)
  let ?old = "\<lambda>p. p_version_id p \<in> v_id ` set (versions db)"
  have "filter ?old (filter (\<lambda>p. p_version_id p \<noteq> v_id v) xs) = filter ?old xs" for xs
    using assms(3) by (auto intro!: filter_cong)
  then have "filter ?old (placements db2) = filter ?old (placements db1)"
    using derive_rows(2) [OF k assms(4)] by metis
  with assms(1) derive_eq [OF k assms(4)] show ?thesis by (simp add: published_def)
qed

end
