(* ===== verification/Versions.thy ===== *)
theory Versions
  imports Numbering
begin

text \<open>
  \<open>repo/versions.rs\<close>: the checks on a version's placements, the creation of a version, its
  placements as they are read back, the listings and the diff of two versions.
\<close>

section \<open>Checks on placements\<close>

text \<open>The position of the \<open>i\<close>-th placement of an ordered board: \<open>(i as i32) + 1\<close> by default.\<close>

definition resolved_position :: "nat \<Rightarrow> create_placement \<Rightarrow> i32" where
  "resolved_position i p = unwrap_or (cp_position p) (wrap_i32 (wrap_i32 (int i) + 1))"

fun resolved_positions :: "nat \<Rightarrow> create_placement list \<Rightarrow> i32 list" where
  "resolved_positions i [] = []"
| "resolved_positions i (p # ps) = resolved_position i p # resolved_positions (Suc i) ps"

definition check_ordered :: "create_placement list \<Rightarrow> unit result" where
  "check_ordered ps =
     (case first_dup (\<lambda>x. x) [] (resolved_positions 0 ps) of
        None \<Rightarrow> Inr ()
      | Some resolved \<Rightarrow>
          Inl (Validation [Lit ''duplicate position '', Num resolved, Lit '' in ordered board placements'']))"

definition check_scored :: "create_placement list \<Rightarrow> unit result" where
  "check_scored ps =
     for_each (\<lambda>p. case cp_score p of
         None \<Rightarrow> Inl (Validation [Lit ''score is required for scored board, missing for entry '', Quo (cp_entry_slug p)])
       | Some s \<Rightarrow>
           reject_if (f64_is_nan s \<or> f64_is_infinite s)
             (Validation [Lit ''score must be a finite number for entry '', Quo (cp_entry_slug p)])) ps"

definition valid_tiers :: "json option \<Rightarrow> string list option" where
  "valid_tiers tc = map_option (List.map_filter tier_key) (Option.bind (Option.bind tc (json_get ''tiers'')) as_array)"

definition check_tiered :: "json option \<Rightarrow> create_placement list \<Rightarrow> unit result" where
  "check_tiered tc ps =
     for_each (\<lambda>p.
       rbind (ok_or (cp_tier p)
                (Validation [Lit ''tier is required for tiered board, missing for entry '', Quo (cp_entry_slug p)])) (\<lambda>tier.
       case valid_tiers tc of
         None \<Rightarrow> Inr ()
       | Some valid \<Rightarrow>
           reject_if (tier \<notin> set valid)
             (Validation [Lit ''invalid tier '', Quo tier, Lit '' for entry '', Quo (cp_entry_slug p),
                Lit '': valid tiers are '', Dbg valid]))) ps"

definition check_slugs_differ :: "create_placement list \<Rightarrow> unit result" where
  "check_slugs_differ ps =
     (case first_dup cp_entry_slug [] ps of
        None \<Rightarrow> Inr ()
      | Some p \<Rightarrow>
          Inl (Validation [Lit ''duplicate entry slug '', Quo (cp_entry_slug p), Lit '' in placements'']))"

definition check_explicit_positions :: "create_placement list \<Rightarrow> unit result" where
  "check_explicit_positions ps =
     for_each (\<lambda>p. case cp_position p of
         None \<Rightarrow> Inr ()
       | Some pos \<Rightarrow>
           reject_if (pos < 1)
             (Validation [Lit ''position must be >= 1, got '', Num pos, Lit '' for entry '', Quo (cp_entry_slug p)])) ps"

definition validate_placements :: "board \<Rightarrow> create_placement list \<Rightarrow> unit result" where
  "validate_placements board ps =
     rbind (reject_if (ps = []) (Validation [Lit ''version must have at least one placement''])) (\<lambda>_.
     rbind (check_slugs_differ ps) (\<lambda>_.
     rbind (check_explicit_positions ps) (\<lambda>_.
     if b_board_type board = ''ordered'' then check_ordered ps
     else if b_board_type board = ''scored'' then check_scored ps
     else if b_board_type board = ''tiered'' then check_tiered (b_tier_config board) ps
     else Inr ())))"

definition validate_placements_for_import :: "board \<Rightarrow> create_placement list \<Rightarrow> unit result" where
  "validate_placements_for_import board ps = validate_placements board ps"

section \<open>Reading placements\<close>

text \<open>\<open>->>\<close>: the text of a member; NULL for a missing member and for a JSON null.\<close>

definition sql_text :: "svc \<Rightarrow> json option \<Rightarrow> string option" where
  "sql_text S v =
     (case v of None \<Rightarrow> None | Some JNull \<Rightarrow> None | Some (JString s) \<Rightarrow> Some s | Some w \<Rightarrow> Some (jsonb_text S w))"

text \<open>
  The lateral subquery: \<open>(t.obj->>'position')::int\<close> of the first tier whose key is the
  placement's. \<open>jsonb_array_elements\<close> refuses a \<open>tiers\<close> that is no array, whatever the tier.
\<close>

definition tier_ord :: "svc \<Rightarrow> json option \<Rightarrow> string option \<Rightarrow> int option result" where
  "tier_ord S tier_config tier =
     (case Option.bind tier_config (json_get ''tiers'') of
        None \<Rightarrow> Inr None
      | Some tiers \<Rightarrow>
          (case as_array tiers of
             None \<Rightarrow> Inl (Database InvalidValue)
           | Some ts \<Rightarrow>
               (case find (\<lambda>t. tier \<noteq> None \<and> sql_text S (json_get ''key'' t) = tier) ts of
                  None \<Rightarrow> Inr None
                | Some t \<Rightarrow>
                    (case sql_text S (json_get ''position'' t) of
                       None \<Rightarrow> Inr None
                     | Some s \<Rightarrow>
                         (case text_to_int S s of
                            None \<Rightarrow> Inl (Database InvalidValue)
                          | Some i \<Rightarrow> Inr (Some i))))))"

definition with_entry :: "placement \<Rightarrow> entry \<Rightarrow> placement_with_entry" where
  "with_entry p e =
     \<lparr>p_id = p_id p, p_version_id = p_version_id p, p_entry_id = p_entry_id p, p_position = p_position p,
      p_score = p_score p, p_tier = p_tier p, p_metadata = p_metadata p,
      pe_entry_slug = e_slug e, pe_entry_name = e_name e\<rparr>"

text \<open>\<open>FROM placements p JOIN entries e ... WHERE p.version_id = $1\<close>.\<close>

definition joined_placements :: "uuid \<Rightarrow> db \<Rightarrow> placement_with_entry list" where
  "joined_placements vid db =
     concat (map (\<lambda>p. map (with_entry p) (filter (\<lambda>e. e_id e = p_entry_id p) (entries db)))
       (filter (\<lambda>p. p_version_id p = vid) (placements db)))"

definition boards_of_version :: "uuid \<Rightarrow> db \<Rightarrow> board list" where
  "boards_of_version vid db =
     concat (map (\<lambda>v. filter (\<lambda>b. b_id b = v_board_id v) (boards db))
       (filter (\<lambda>v. v_id v = vid) (versions db)))"

definition placement_order :: "svc \<Rightarrow> int option \<times> placement_with_entry \<Rightarrow> int \<times> int \<times> string" where
  "placement_order S x =
     (unwrap_or (fst x) 2147483647, unwrap_or (p_position (snd x)) 2147483647,
      collation S (pe_entry_name (snd x)))"

definition fetch_placements :: "svc \<Rightarrow> uuid \<Rightarrow> db \<Rightarrow> placement_with_entry list result" where
  "fetch_placements S vid db =
     (case boards_of_version vid db of
        [] \<Rightarrow> Inr []
      | b # _ \<Rightarrow>
          rbind (map_result (\<lambda>p. rbind (tier_ord S (b_tier_config b) (p_tier p)) (\<lambda>ord. Inr (ord, p)))
                   (joined_placements vid db)) (\<lambda>rows.
          Inr (map snd (sort_key (placement_order S) rows))))"

section \<open>Operations\<close>

definition check_entries_exist :: "board \<Rightarrow> create_placement list \<Rightarrow> db \<Rightarrow> unit result" where
  "check_entries_exist board ps db =
     for_each (\<lambda>p. reject_if (find_entry (b_id board) (cp_entry_slug p) db = None)
       (Validation [Lit ''entry '', Quo (cp_entry_slug p), Lit '' not found on board '', Quo (b_slug board)])) ps"

text \<open>\<open>entry_map[slug]\<close>, after the check that every slug is there.\<close>

definition resolve_entries :: "uuid \<Rightarrow> create_placement list \<Rightarrow> db \<Rightarrow> entry list" where
  "resolve_entries bid ps db = map (\<lambda>p. the (find_entry bid (cp_entry_slug p) db)) ps"

fun created_rows :: "string \<Rightarrow> nat \<Rightarrow> create_placement list \<Rightarrow> entry list \<Rightarrow> placement_values list" where
  "created_rows bt i (p # ps) (e # es) =
     \<lparr>pl_entry_id = e_id e,
      pl_position = (if bt = ''ordered'' then Some (resolved_position i p) else cp_position p),
      pl_score = cp_score p, pl_tier = cp_tier p, pl_metadata = cp_metadata p\<rparr>
     # created_rows bt (Suc i) ps es"
| "created_rows bt i _ _ = []"

definition versions_create ::
  "svc \<Rightarrow> board \<Rightarrow> create_version \<Rightarrow> int option \<Rightarrow> db \<Rightarrow> (version_with_placements \<times> db) result" where
  "versions_create S board0 inp max_versions db =
     rbind (reject_if (b_accumulative board0)
              (Validation [Lit ''cannot create versions directly on accumulative boards; use POST /boards/:slug/snapshot instead''])) (\<lambda>_.
     rbind (validate_placements board0 (cv_placements inp)) (\<lambda>_.
     rbind (lock_board (b_id board0) db) (\<lambda>board.
     rbind (check_max_versions max_versions (b_id board) db) (\<lambda>_.
     rbind (validate_placements board (cv_placements inp)) (\<lambda>_.
     rbind (next_number (b_id board) db) (\<lambda>n.
     rbind (insert_new_version S (b_id board) n (cv_note inp) (cv_metadata inp) db) (\<lambda>(version, db1).
     rbind (check_entries_exist board (cv_placements inp) db1) (\<lambda>_.
     let es = resolve_entries (b_id board) (cv_placements inp) db1 in
     rbind (insert_placements S (v_id version)
              (created_rows (b_board_type board) 0 (cv_placements inp) es) db1) (\<lambda>(rows, db2).
     if b_board_type board = ''scored''
     then rbind (derive_scored_positions (v_id version) (b_sort_direction board) db2) (\<lambda>db3.
          rbind (fetch_placements S (v_id version) db3) (\<lambda>pls.
          Inr (\<lparr>vp_version = version, vp_placements = pls\<rparr>, db3)))
     else Inr (\<lparr>vp_version = version, vp_placements = map2 with_entry rows es\<rparr>, db2))))))))))"

definition versions_list :: "uuid \<Rightarrow> db \<Rightarrow> version list" where
  "versions_list bid db = order_by Desc v_number (board_versions bid db)"

definition version_cursor :: "version \<Rightarrow> cursor" where
  "version_cursor v = Cursor (v_created_at v) (v_id v)"

definition versions_list_paginated ::
  "codec \<Rightarrow> uuid \<Rightarrow> pagination_params \<Rightarrow> db \<Rightarrow> version paginated_response result" where
  "versions_list_paginated C bid params db = paginate C Desc version_cursor params (board_versions bid db)"

definition versions_get_by_number :: "svc \<Rightarrow> uuid \<Rightarrow> i32 \<Rightarrow> db \<Rightarrow> version_with_placements result" where
  "versions_get_by_number S bid n db =
     rbind (ok_or (find (\<lambda>v. v_board_id v = bid \<and> v_number v = n) (versions db))
              (NotFound [Lit ''version '', Num n, Lit '' not found''])) (\<lambda>v.
     rbind (fetch_placements S (v_id v) db) (\<lambda>pls.
     Inr \<lparr>vp_version = v, vp_placements = pls\<rparr>))"

definition versions_get_latest :: "svc \<Rightarrow> uuid \<Rightarrow> db \<Rightarrow> version_with_placements result" where
  "versions_get_latest S bid db =
     rbind (ok_or (latest_version_row bid db) (NotFound [Lit ''no versions exist for this board''])) (\<lambda>v.
     rbind (fetch_placements S (v_id v) db) (\<lambda>pls.
     Inr \<lparr>vp_version = v, vp_placements = pls\<rparr>))"

definition versions_since :: "uuid \<Rightarrow> i32 \<Rightarrow> int \<Rightarrow> db \<Rightarrow> version list result" where
  "versions_since bid after_version lim db =
     sql_limit lim (order_by Asc v_number (filter (\<lambda>v. after_version < v_number v) (board_versions bid db)))"

section \<open>The diff of two versions\<close>

definition diffed :: "placement_with_entry \<Rightarrow> diff_entry" where
  "diffed p =
     \<lparr>d_entry_slug = pe_entry_slug p, d_entry_name = pe_entry_name p, d_position = p_position p,
      d_score = p_score p, d_tier = p_tier p\<rparr>"

definition diff_moved :: "placement_with_entry \<Rightarrow> placement_with_entry \<Rightarrow> diff_moved_entry" where
  "diff_moved from p =
     \<lparr>dm_entry_slug = pe_entry_slug p, dm_entry_name = pe_entry_name p,
      dm_from_position = p_position from, dm_to_position = p_position p,
      dm_from_score = p_score from, dm_to_score = p_score p,
      dm_from_tier = p_tier from, dm_to_tier = p_tier p\<rparr>"

text \<open>A map collected from a list keeps the last placement of a slug.\<close>

definition lookup_slug :: "string \<Rightarrow> placement_with_entry list \<Rightarrow> placement_with_entry option" where
  "lookup_slug slug ps = find (\<lambda>p. pe_entry_slug p = slug) (rev ps)"

definition placement_changed :: "placement_with_entry \<Rightarrow> placement_with_entry \<Rightarrow> bool" where
  "placement_changed from p \<longleftrightarrow>
     p_position from \<noteq> p_position p \<or> \<not> scores_equal (p_score from) (p_score p) \<or> p_tier from \<noteq> p_tier p"

text \<open>The loop over the placements of the newer version, with the three lists it pushes to.\<close>

fun diff_loop ::
  "placement_with_entry list \<Rightarrow> placement_with_entry list \<Rightarrow>
   diff_entry list \<times> diff_moved_entry list \<times> diff_entry list \<Rightarrow>
   diff_entry list \<times> diff_moved_entry list \<times> diff_entry list" where
  "diff_loop from [] acc = acc"
| "diff_loop from (p # ps) (added, moved, unchanged) =
     diff_loop from ps
       (case lookup_slug (pe_entry_slug p) from of
          None \<Rightarrow> (added @ [diffed p], moved, unchanged)
        | Some q \<Rightarrow>
            if placement_changed q p then (added, moved @ [diff_moved q p], unchanged)
            else (added, moved, unchanged @ [diffed p]))"

definition versions_diff :: "svc \<Rightarrow> uuid \<Rightarrow> i32 \<Rightarrow> i32 \<Rightarrow> db \<Rightarrow> version_diff result" where
  "versions_diff S bid from_number to_number db =
     rbind (versions_get_by_number S bid from_number db) (\<lambda>from.
     rbind (versions_get_by_number S bid to_number db) (\<lambda>to.
     let (added, moved, unchanged) = diff_loop (vp_placements from) (vp_placements to) ([], [], []);
         removed = map diffed
           (filter (\<lambda>p. lookup_slug (pe_entry_slug p) (vp_placements to) = None) (vp_placements from))
     in Inr \<lparr>vd_from_version = from_number, vd_to_version = to_number, vd_added = added,
             vd_removed = removed, vd_moved = moved, vd_unchanged = unchanged\<rparr>))"

section \<open>What the checks accept\<close>

definition placements_ok :: "board \<Rightarrow> create_placement list \<Rightarrow> bool" where
  "placements_ok b ps \<longleftrightarrow>
     ps \<noteq> [] \<and> distinct (map cp_entry_slug ps) \<and>
     (\<forall>p \<in> set ps. \<forall>pos. cp_position p = Some pos \<longrightarrow> 1 \<le> pos) \<and>
     (b_board_type b = ''ordered'' \<longrightarrow> distinct (resolved_positions 0 ps)) \<and>
     (b_board_type b = ''scored'' \<longrightarrow> (\<forall>p \<in> set ps. \<exists>s. cp_score p = Some s \<and> f64_is_finite s)) \<and>
     (b_board_type b = ''tiered'' \<longrightarrow>
        (\<forall>p \<in> set ps. \<exists>t. cp_tier p = Some t \<and>
           (\<forall>valid. valid_tiers (b_tier_config b) = Some valid \<longrightarrow> t \<in> set valid)))"

lemma check_ordered_iff [simp]: "check_ordered ps = Inr () \<longleftrightarrow> distinct (resolved_positions 0 ps)"
  using first_dup_None [of "\<lambda>x. x" "resolved_positions 0 ps"]
  by (cases "first_dup (\<lambda>x. x) [] (resolved_positions 0 ps)") (simp_all add: check_ordered_def del: first_dup_None)

lemma check_slugs_differ_iff [simp]: "check_slugs_differ ps = Inr () \<longleftrightarrow> distinct (map cp_entry_slug ps)"
  using first_dup_None [of cp_entry_slug ps]
  by (cases "first_dup cp_entry_slug [] ps") (simp_all add: check_slugs_differ_def del: first_dup_None)

lemma check_explicit_positions_iff [simp]:
  "check_explicit_positions ps = Inr () \<longleftrightarrow> (\<forall>p \<in> set ps. \<forall>pos. cp_position p = Some pos \<longrightarrow> 1 \<le> pos)"
  by (auto simp: check_explicit_positions_def split: option.splits)

lemma check_scored_iff [simp]:
  "check_scored ps = Inr () \<longleftrightarrow> (\<forall>p \<in> set ps. \<exists>s. cp_score p = Some s \<and> f64_is_finite s)"
  by (auto simp: check_scored_def f64_finite_iff split: option.splits)

lemma check_tiered_iff [simp]:
  "check_tiered tc ps = Inr () \<longleftrightarrow>
     (\<forall>p \<in> set ps. \<exists>t. cp_tier p = Some t \<and> (\<forall>valid. valid_tiers tc = Some valid \<longrightarrow> t \<in> set valid))"
  by (cases "valid_tiers tc") (auto simp: check_tiered_def)

lemma validate_placements_iff: "validate_placements b ps = Inr () \<longleftrightarrow> placements_ok b ps"
  by (auto simp: validate_placements_def placements_ok_def)

lemma errs_validate_placements [errs]: "(\<And>m. Validation m \<in> E) \<Longrightarrow> errs_in E (validate_placements b ps)"
  unfolding validate_placements_def check_slugs_differ_def check_explicit_positions_def check_ordered_def
    check_scored_def check_tiered_def
  by (auto intro!: errs split: option.split)

section \<open>Creation\<close>

lemma created_rows_fields:
  "length es = length ps \<Longrightarrow> map pl_entry_id (created_rows bt i ps es) = map e_id es"
  "length es = length ps \<Longrightarrow> map pl_score (created_rows bt i ps es) = map cp_score ps"
  "length es = length ps \<Longrightarrow> map pl_tier (created_rows bt i ps es) = map cp_tier ps"
  "length es = length ps \<Longrightarrow> map pl_metadata (created_rows bt i ps es) = map cp_metadata ps"
  "length es = length ps \<Longrightarrow> map pl_position (created_rows bt i ps es) =
     (if bt = ''ordered'' then map Some (resolved_positions i ps) else map cp_position ps)"
  by (induction bt i ps es rule: created_rows.induct) simp_all

lemma resolve_entries_ok:
  assumes "keys_ok db" "\<forall>p \<in> set ps. find_entry bid (cp_entry_slug p) db \<noteq> None" "distinct (map cp_entry_slug ps)"
  shows "map e_slug (resolve_entries bid ps db) = map cp_entry_slug ps"
    and "\<forall>e \<in> set (resolve_entries bid ps db). e \<in> set (entries db) \<and> e_board_id e = bid"
    and "distinct (map e_id (resolve_entries bid ps db))"
proof -
  have f: "the (find_entry bid (cp_entry_slug p) db) \<in> set (entries db) \<and>
      e_board_id (the (find_entry bid (cp_entry_slug p) db)) = bid \<and>
      e_slug (the (find_entry bid (cp_entry_slug p) db)) = cp_entry_slug p" if "p \<in> set ps" for p
  proof -
    from assms(2) that obtain e where e: "find_entry bid (cp_entry_slug p) db = Some e" by blast
    with find_entry_Some [OF e] show ?thesis by simp
  qed
  show slugs: "map e_slug (resolve_entries bid ps db) = map cp_entry_slug ps"
    using f by (simp add: resolve_entries_def)
  show mem: "\<forall>e \<in> set (resolve_entries bid ps db). e \<in> set (entries db) \<and> e_board_id e = bid"
    using f by (auto simp: resolve_entries_def)
  have "distinct (map e_slug (resolve_entries bid ps db))" using assms(3) slugs by simp
  then have "distinct (resolve_entries bid ps db)" by (simp add: distinct_map)
  moreover have "inj_on e_id (set (resolve_entries bid ps db))"
    using mem distinct_map_inj [OF keys_okD(3) [OF assms(1)]] by (auto intro!: inj_onI)
  ultimately show "distinct (map e_id (resolve_entries bid ps db))" by (simp add: distinct_map)
qed

lemma find_entry_add [simp]:
  "find_entry bid slug (add_version v db) = find_entry bid slug db"
  "find_entry bid slug (add_placements ps db) = find_entry bid slug db"
  by (simp_all add: find_entry_def add_version_def add_placements_def)

lemma resolve_entries_add [simp]: "resolve_entries bid ps (add_version v db) = resolve_entries bid ps db"
  by (simp add: resolve_entries_def)

text \<open>The request \<open>create\<close> accepts, up to the ranking and reading back on a scored board.\<close>

definition create_version_ok :: "board \<Rightarrow> board \<Rightarrow> create_version \<Rightarrow> int option \<Rightarrow> db \<Rightarrow> bool" where
  "create_version_ok b0 b inp mx db \<longleftrightarrow>
     \<not> b_accumulative b0 \<and> placements_ok b0 (cv_placements inp) \<and> placements_ok b (cv_placements inp) \<and>
     (\<forall>m. mx = Some m \<longrightarrow> version_count (b_id b) db < m) \<and>
     max_number (b_id b) db < i32_max \<and>
     (\<forall>p \<in> set (cv_placements inp). find_entry (b_id b) (cp_entry_slug p) db \<noteq> None)"

text \<open>The version and the placement rows it writes.\<close>

definition created_version :: "svc \<Rightarrow> board \<Rightarrow> create_version \<Rightarrow> db \<Rightarrow> version" where
  "created_version S b inp db =
     new_version S (b_id b) (max_number (b_id b) db + 1) (cv_note inp) (cv_metadata inp) db"

definition created_placements :: "svc \<Rightarrow> board \<Rightarrow> create_version \<Rightarrow> db \<Rightarrow> placement list" where
  "created_placements S b inp db =
     placement_rows S (Suc (drawn db)) (next_id S db)
       (created_rows (b_board_type b) 0 (cv_placements inp) (resolve_entries (b_id b) (cv_placements inp) db))"

definition created_db :: "svc \<Rightarrow> board \<Rightarrow> create_version \<Rightarrow> db \<Rightarrow> db" where
  "created_db S b inp db = add_placements (created_placements S b inp db) (add_version (created_version S b inp db) db)"

lemma check_max_versions_iff [simp]:
  "check_max_versions mx bid db = Inr () \<longleftrightarrow> (\<forall>m. mx = Some m \<longrightarrow> version_count bid db < m)"
  by (auto simp: check_max_versions_def split: option.split)

lemma lock_board_Inr: "lock_board bid db = Inr b \<Longrightarrow> b \<in> set (boards db) \<and> b_id b = bid"
  by (auto simp: lock_board_def dest: find_Some_in)

lemma create_publish:
  assumes "svc_ok S" "db_inv S db" "b \<in> set (boards db)" "create_version_ok b0 b inp mx db"
  shows "insert_placements S (v_id (created_version S b inp db))
        (created_rows (b_board_type b) 0 (cv_placements inp) (resolve_entries (b_id b) (cv_placements inp) db))
        (add_version (created_version S b inp db) db) =
      Inr (created_placements S b inp db, created_db S b inp db)"
    and "db_inv S (created_db S b inp db)"
    and "published db (b_id b) (created_version S b inp db) (created_db S b inp db)"
    and "filter (\<lambda>p. p_version_id p = v_id (created_version S b inp db)) (placements (created_db S b inp db)) =
      created_placements S b inp db"
    and "v_id (created_version S b inp db) \<notin> v_id ` set (versions db)"
    and "insert_new_version S (b_id b) (max_number (b_id b) db + 1) (cv_note inp) (cv_metadata inp) db =
      Inr (created_version S b inp db, add_version (created_version S b inp db) db)"
proof -
  have k: "keys_ok db" and c: "checks_ok db" using assms(2) by (simp_all add: db_inv_def)
  have bid: "b_id b \<in> b_id ` set (boards db)" using assms(3) by simp
  have n: "next_number (b_id b) db = Inr (max_number (b_id b) db + 1)"
    using assms(4) by (simp add: next_number_Inr [OF c] create_version_ok_def)
  let ?es = "resolve_entries (b_id b) (cv_placements inp) db"
  let ?rs = "created_rows (b_board_type b) 0 (cv_placements inp) ?es"
  have len: "length ?es = length (cv_placements inp)" by (simp add: resolve_entries_def)
  have ids: "map pl_entry_id ?rs = map e_id ?es" by (rule created_rows_fields(1) [OF len])
  note es = resolve_entries_ok [OF k, of "cv_placements inp" "b_id b"]
  have dist: "distinct (map pl_entry_id ?rs)"
    using es(3) assms(4) ids by (simp add: create_version_ok_def placements_ok_def)
  have "pl_entry_id ` set ?rs = e_id ` set ?es" using arg_cong [OF ids, of set] by simp
  moreover have "(i, b_id b) \<in> entry_keys db" if "i \<in> e_id ` set ?es" for i
  proof -
    from that obtain e where "e \<in> set ?es" "i = e_id e" by blast
    moreover from this es(2) assms(4) have "e \<in> set (entries db)" "e_board_id e = b_id b"
      by (auto simp: create_version_ok_def placements_ok_def)
    ultimately show ?thesis by (auto simp: entry_keys_def)
  qed
  ultimately have ek: "\<forall>r \<in> set ?rs. (pl_entry_id r, b_id b) \<in> entry_keys db" by (metis imageI)
  note pub = publish_insert [OF assms(1,2) bid n ek dist, of "cv_note inp" "cv_metadata inp",
      folded created_version_def]
  have vid: "v_id (created_version S b inp db) = next_id S db"
    by (simp add: created_version_def new_version_def)
  show "insert_placements S (v_id (created_version S b inp db)) ?rs (add_version (created_version S b inp db) db) =
      Inr (created_placements S b inp db, created_db S b inp db)"
    "db_inv S (created_db S b inp db)"
    "published db (b_id b) (created_version S b inp db) (created_db S b inp db)"
    "filter (\<lambda>p. p_version_id p = v_id (created_version S b inp db)) (placements (created_db S b inp db)) =
      created_placements S b inp db"
    "v_id (created_version S b inp db) \<notin> v_id ` set (versions db)"
    using pub by (simp_all only: created_placements_def created_db_def vid not_False_eq_True)
  show "insert_new_version S (b_id b) (max_number (b_id b) db + 1) (cv_note inp) (cv_metadata inp) db =
      Inr (created_version S b inp db, add_version (created_version S b inp db) db)"
    using insert_new_version_eq(1) [OF assms(1,2) bid n] by (simp add: created_version_def)
qed

lemma create_ok_steps:
  assumes "svc_ok S" "db_inv S db" "find (\<lambda>b. b_id b = b_id b0) (boards db) = Some b"
    and "create_version_ok b0 b inp mx db"
  shows "versions_create S b0 inp mx db =
    (if b_board_type b = ''scored''
     then rbind (derive_scored_positions (v_id (created_version S b inp db)) (b_sort_direction b) (created_db S b inp db)) (\<lambda>db3.
          rbind (fetch_placements S (v_id (created_version S b inp db)) db3) (\<lambda>pls.
          Inr (\<lparr>vp_version = created_version S b inp db, vp_placements = pls\<rparr>, db3)))
     else Inr (\<lparr>vp_version = created_version S b inp db,
                vp_placements = map2 with_entry (created_placements S b inp db)
                  (resolve_entries (b_id b) (cv_placements inp) db)\<rparr>, created_db S b inp db))"
proof -
  have b: "b \<in> set (boards db)" "b_id b = b_id b0" using assms(3) by (auto dest: find_Some_in)
  have c: "checks_ok db" using assms(2) by (simp add: db_inv_def)
  have n: "next_number (b_id b) db = Inr (max_number (b_id b) db + 1)"
    using assms(4) by (simp add: next_number_Inr [OF c] create_version_ok_def)
  have v: "validate_placements b0 (cv_placements inp) = Inr ()" "validate_placements b (cv_placements inp) = Inr ()"
    using assms(4) by (simp_all add: validate_placements_iff create_version_ok_def)
  have l: "lock_board (b_id b0) db = Inr b" by (simp add: lock_board_def assms(3))
  have m: "check_max_versions mx (b_id b) db = Inr ()" using assms(4) by (simp add: create_version_ok_def)
  have e: "check_entries_exist b (cv_placements inp) (add_version w db) = Inr ()" for w
    using assms(4) by (simp add: check_entries_exist_def create_version_ok_def)
  note pub = create_publish [OF assms(1,2) b(1) assms(4)]
  have "\<not> b_accumulative b0" using assms(4) by (simp add: create_version_ok_def)
  then show ?thesis
    by (simp only: versions_create_def rbind_Inr reject_if_False v l m n pub(6) e prod.case Let_def
        resolve_entries_add pub(1) cong: if_cong)
qed

lemma versions_create_ok:
  assumes "versions_create S b0 inp mx db = Inr r" "db_inv S db"
  obtains b where "find (\<lambda>b. b_id b = b_id b0) (boards db) = Some b" "create_version_ok b0 b inp mx db"
proof -
  from assms(1) obtain b n version db1 where b: "find (\<lambda>b. b_id b = b_id b0) (boards db) = Some b"
      and ok: "\<not> b_accumulative b0" "placements_ok b0 (cv_placements inp)" "placements_ok b (cv_placements inp)"
        "check_max_versions mx (b_id b) db = Inr ()" "next_number (b_id b) db = Inr n"
      and ins: "insert_new_version S (b_id b) n (cv_note inp) (cv_metadata inp) db = Inr (version, db1)"
      and ex: "check_entries_exist b (cv_placements inp) db1 = Inr ()"
    by (auto simp: versions_create_def lock_board_def validate_placements_iff simp del: check_max_versions_iff)
  have c: "checks_ok db" using assms(2) by (simp add: db_inv_def)
  have "entries db1 = entries db"
    using ins by (auto simp: insert_new_version_def insert_version_def split: if_splits)
  then have "find_entry (b_id b) s db1 = find_entry (b_id b) s db" for s by (simp add: find_entry_def)
  with ex have "\<forall>p \<in> set (cv_placements inp). find_entry (b_id b) (cp_entry_slug p) db \<noteq> None"
    by (simp add: check_entries_exist_def)
  with ok have "create_version_ok b0 b inp mx db"
    by (simp add: create_version_ok_def next_number_Inr [OF c])
  with b show thesis by (rule that)
qed

text \<open>What a successful \<open>create\<close> leaves in the database.\<close>

lemma versions_create_cases:
  assumes "svc_ok S" "db_inv S db" "versions_create S b0 inp mx db = Inr (vp, db')"
  shows "\<exists>b. find (\<lambda>b. b_id b = b_id b0) (boards db) = Some b \<and> create_version_ok b0 b inp mx db \<and>
    vp_version vp = created_version S b inp db \<and>
    (if b_board_type b = ''scored''
     then derive_scored_positions (v_id (created_version S b inp db)) (b_sort_direction b) (created_db S b inp db) = Inr db' \<and>
       fetch_placements S (v_id (created_version S b inp db)) db' = Inr (vp_placements vp)
     else db' = created_db S b inp db \<and>
       vp_placements vp = map2 with_entry (created_placements S b inp db)
         (resolve_entries (b_id b) (cv_placements inp) db))"
proof -
  obtain b where b: "find (\<lambda>b. b_id b = b_id b0) (boards db) = Some b" and ok: "create_version_ok b0 b inp mx db"
    by (rule versions_create_ok [OF assms(3,2)])
  show ?thesis
    by (rule exI [of _ b])
      (use b ok assms(3) create_ok_steps [OF assms(1,2) b ok] in \<open>auto split: if_splits\<close>)
qed

lemma versions_create_contract:
  assumes "svc_ok S" "db_inv S db" "versions_create S b0 inp mx db = Inr (vp, db')"
  shows "db_inv S db' \<and> published db (b_id b0) (vp_version vp) db'"
proof -
  from versions_create_cases [OF assms] obtain b where
      b: "find (\<lambda>b. b_id b = b_id b0) (boards db) = Some b" and ok: "create_version_ok b0 b inp mx db"
      and v: "vp_version vp = created_version S b inp db"
      and rest: "if b_board_type b = ''scored''
        then derive_scored_positions (v_id (created_version S b inp db)) (b_sort_direction b) (created_db S b inp db) = Inr db' \<and>
          fetch_placements S (v_id (created_version S b inp db)) db' = Inr (vp_placements vp)
        else db' = created_db S b inp db \<and>
          vp_placements vp = map2 with_entry (created_placements S b inp db)
            (resolve_entries (b_id b) (cv_placements inp) db)"
    by blast
  have bin: "b \<in> set (boards db)" "b_id b = b_id b0" using b by (auto dest: find_Some_in)
  note pub = create_publish [OF assms(1,2) bin(1) ok]
  show ?thesis
  proof (cases "b_board_type b = ''scored''")
    case True
    with rest have d: "derive_scored_positions (v_id (created_version S b inp db)) (b_sort_direction b)
        (created_db S b inp db) = Inr db'"
      by simp
    from derive_inv [OF pub(2) d] publish_derive [OF pub(3,2,5) d] bin v
    show ?thesis by simp
  next
    case False
    with pub(2,3) rest bin v show ?thesis by simp
  qed
qed

interpretation create_writer: version_writer "\<lambda>d. svc_ok S \<and> db_inv S d" "\<lambda>(b, _, _). b_id b"
    "\<lambda>(b, inp, mx). versions_create S b inp mx"
  for S :: svc
proof
  fix d d' :: db and i :: "board \<times> create_version \<times> int option" and r
  obtain b inp mx where i: "i = (b, inp, mx)" by (cases i)
  assume "svc_ok S \<and> db_inv S d" "(case i of (b, inp, mx) \<Rightarrow> versions_create S b inp mx) d = Inr (r, d')"
  then have "svc_ok S" "db_inv S d" "versions_create S b inp mx d = Inr (r, d')" by (simp_all add: i)
  from versions_create_contract [OF this] \<open>svc_ok S\<close>
  show "svc_ok S \<and> db_inv S d'" "\<exists>v. published d (case i of (b, _, _) \<Rightarrow> b_id b) v d'"
    by (auto simp: i)
qed

section \<open>Reading back\<close>

definition entry_of :: "db \<Rightarrow> uuid \<Rightarrow> entry" where
  "entry_of db eid = hd (filter (\<lambda>e. e_id e = eid) (entries db))"

lemma entry_of_eq: "keys_ok db \<Longrightarrow> e \<in> set (entries db) \<Longrightarrow> entry_of db (e_id e) = e"
  using filter_by_key [of e_id "entries db" e] by (simp add: entry_of_def keys_ok_def)

lemma entry_of_placement:
  assumes "db_inv S db" "p \<in> set (placements db)"
  shows "entry_of db (p_entry_id p) \<in> set (entries db)"
    and "e_id (entry_of db (p_entry_id p)) = p_entry_id p"
    and "filter (\<lambda>e. e_id e = p_entry_id p) (entries db) = [entry_of db (p_entry_id p)]"
proof -
  have k: "keys_ok db" using assms(1) by (simp add: db_inv_def)
  from assms obtain e where e: "e \<in> set (entries db)" "e_id e = p_entry_id p"
    by (auto simp: db_inv_def refs_ok_def same_board_def entry_keys_def)
  moreover have "entry_of db (p_entry_id p) = e" using entry_of_eq [OF k e(1)] e(2) by simp
  moreover have "filter (\<lambda>x. e_id x = e_id e) (entries db) = [e]"
    using keys_okD(3) [OF k] e(1) by (rule filter_by_key)
  ultimately show "entry_of db (p_entry_id p) \<in> set (entries db)"
    "e_id (entry_of db (p_entry_id p)) = p_entry_id p"
    "filter (\<lambda>e. e_id e = p_entry_id p) (entries db) = [entry_of db (p_entry_id p)]"
    by simp_all
qed

lemma joined_placements_eq:
  assumes "db_inv S db"
  shows "joined_placements vid db =
    map (\<lambda>p. with_entry p (entry_of db (p_entry_id p))) (filter (\<lambda>p. p_version_id p = vid) (placements db))"
  unfolding joined_placements_def
  by (rule concat_map_single) (simp add: entry_of_placement [OF assms])

lemma entry_keys_mem: "e \<in> set (entries db) \<Longrightarrow> e_id e = i \<Longrightarrow> (i, e_board_id e) \<in> entry_keys db"
  by (auto simp: entry_keys_def)

text \<open>A version's placements refer to different entries, so their slugs differ.\<close>

lemma joined_slugs_distinct:
  assumes "db_inv S db"
  shows "distinct (map pe_entry_slug (joined_placements vid db))"
proof -
  let ?ps = "filter (\<lambda>p. p_version_id p = vid) (placements db)"
  have k: "keys_ok db" using assms by (simp add: db_inv_def)
  have "p = q" if "p \<in> set ?ps" "q \<in> set ?ps"
      "e_slug (entry_of db (p_entry_id p)) = e_slug (entry_of db (p_entry_id q))" for p q
  proof -
    have pq: "p \<in> set (placements db)" "q \<in> set (placements db)" "p_version_id p = vid" "p_version_id q = vid"
      using that(1,2) by simp_all
    let ?e = "entry_of db (p_entry_id p)" and ?f = "entry_of db (p_entry_id q)"
    note e = entry_of_placement [OF assms pq(1)] and f = entry_of_placement [OF assms pq(2)]
    have "e_board_id ?e = v_board_id (version_of db vid)"
      by (rule entry_key_fun [OF k entry_keys_mem [OF e(1,2)]
          version_of_placement(4) [OF assms pq(1), unfolded pq(3)]])
    moreover have "e_board_id ?f = v_board_id (version_of db vid)"
      by (rule entry_key_fun [OF k entry_keys_mem [OF f(1,2)]
          version_of_placement(4) [OF assms pq(2), unfolded pq(4)]])
    ultimately have "(e_board_id ?e, e_slug ?e) = (e_board_id ?f, e_slug ?f)" using that(3) by (simp only:)
    then have "?e = ?f" by (rule distinct_map_inj [OF keys_okD(4) [OF k] e(1) f(1)])
    then have "e_id ?e = e_id ?f" by (rule arg_cong)
    then have "(p_version_id p, p_entry_id p) = (p_version_id q, p_entry_id q)"
      unfolding e(2) f(2) pq(3,4) by simp
    then show ?thesis by (rule distinct_map_inj [OF keys_okD(8) [OF k] pq(1,2)])
  qed
  moreover have "distinct ?ps" using keys_okD(7) [OF k] by (auto simp: distinct_map)
  ultimately have "distinct (map (\<lambda>p. e_slug (entry_of db (p_entry_id p))) ?ps)"
    unfolding distinct_map inj_on_def by blast
  then show ?thesis by (simp add: joined_placements_eq [OF assms] with_entry_def comp_def)
qed

lemma map_result_pair: "map_result (\<lambda>p. rbind (g p) (\<lambda>x. Inr (x, p))) xs = Inr ys \<Longrightarrow>
   map snd ys = xs \<and> (\<forall>(x, p) \<in> set ys. g p = Inr x)"
  by (induction xs arbitrary: ys) auto

lemma map_result_pair_ok:
  "is_ok (map_result (\<lambda>p. rbind (g p) (\<lambda>x. Inr (x, p))) xs) \<longleftrightarrow> (\<forall>p \<in> set xs. is_ok (g p))"
  by (induction xs) (auto simp: is_ok_iff)

lemma boards_of_version_eq:
  assumes "db_inv S db" "v \<in> set (versions db)" "b \<in> set (boards db)" "b_id b = v_board_id v"
  shows "boards_of_version (v_id v) db = [b]"
proof -
  have k: "keys_ok db" using assms(1) by (simp add: db_inv_def)
  have "filter (\<lambda>x. v_id x = v_id v) (versions db) = [v]" using keys_okD(5) [OF k] assms(2) by (rule filter_by_key)
  moreover have "filter (\<lambda>x. b_id x = b_id b) (boards db) = [b]" using keys_okD(1) [OF k] assms(3) by (rule filter_by_key)
  ultimately show ?thesis by (simp add: boards_of_version_def assms(4) [symmetric])
qed

text \<open>What a placement is sorted by when it is read.\<close>

definition read_key :: "svc \<Rightarrow> json option \<Rightarrow> placement_with_entry \<Rightarrow> int \<times> int \<times> string" where
  "read_key S tc p =
     placement_order S (case tier_ord S tc (p_tier p) of Inl _ \<Rightarrow> None | Inr x \<Rightarrow> x, p)"

lemma fetch_placements_eq:
  assumes "db_inv S db" "v \<in> set (versions db)" "b \<in> set (boards db)" "b_id b = v_board_id v"
  shows "is_ok (fetch_placements S (v_id v) db) \<longleftrightarrow>
      (\<forall>p \<in> set (placements db). p_version_id p = v_id v \<longrightarrow> is_ok (tier_ord S (b_tier_config b) (p_tier p)))"
    and "fetch_placements S (v_id v) db = Inr pls \<Longrightarrow>
      pls = sort_key (read_key S (b_tier_config b)) (joined_placements (v_id v) db)"
proof -
  note bv = boards_of_version_eq [OF assms]
  let ?g = "\<lambda>p. tier_ord S (b_tier_config b) (p_tier p)"
  have "(\<forall>p \<in> set (joined_placements (v_id v) db). is_ok (?g p)) \<longleftrightarrow>
      (\<forall>p \<in> set (placements db). p_version_id p = v_id v \<longrightarrow> is_ok (tier_ord S (b_tier_config b) (p_tier p)))"
    by (auto simp: joined_placements_eq [OF assms(1)] with_entry_def)
  then show "is_ok (fetch_placements S (v_id v) db) \<longleftrightarrow>
      (\<forall>p \<in> set (placements db). p_version_id p = v_id v \<longrightarrow> is_ok (tier_ord S (b_tier_config b) (p_tier p)))"
    using map_result_pair_ok [of ?g "joined_placements (v_id v) db"]
    by (auto simp: fetch_placements_def bv is_ok_iff)
  assume "fetch_placements S (v_id v) db = Inr pls"
  then obtain rows where r: "map_result (\<lambda>p. rbind (?g p) (\<lambda>x. Inr (x, p))) (joined_placements (v_id v) db) = Inr rows"
      "pls = map snd (sort_key (placement_order S) rows)"
    by (auto simp: fetch_placements_def bv)
  from map_result_pair [OF r(1)] have m: "map snd rows = joined_placements (v_id v) db"
      and x: "\<forall>(x, p) \<in> set rows. ?g p = Inr x" by simp_all
  have "placement_order S xp = read_key S (b_tier_config b) (snd xp)" if "xp \<in> set rows" for xp
    using x that by (auto simp: read_key_def)
  then have "sort_key (placement_order S) rows = sort_key (\<lambda>x. read_key S (b_tier_config b) (snd x)) rows"
    by (intro sort_key_same) simp_all
  then show "pls = sort_key (read_key S (b_tier_config b)) (joined_placements (v_id v) db)"
    by (simp add: r(2) m map_sort_key)
qed

text \<open>When reading cannot fail: no \<open>tiers\<close> at all, or a configuration that passed the checks.\<close>

definition tiers_readable :: "svc \<Rightarrow> json option \<Rightarrow> bool" where
  "tiers_readable S tc \<longleftrightarrow> (\<forall>tier. is_ok (tier_ord S tc tier))"

lemma no_tiers_readable: "Option.bind tc (json_get ''tiers'') = None \<Longrightarrow> tiers_readable S tc"
  by (simp add: tiers_readable_def tier_ord_def)

lemma tier_list_readable:
  assumes "svc_ok S" "Option.bind tc (json_get ''tiers'') = Some (JArray ts)" "\<forall>t \<in> set ts. tier_ok t"
  shows "tiers_readable S tc"
proof -
  have pos: "text_to_int S (the (sql_text S (json_get ''position'' t))) \<noteq> None" if "t \<in> set ts" for t
  proof -
    from assms(3) that obtain i where i: "tier_position t = Some i" "in_i32 i" by (auto simp: tier_ok_def)
    then have "json_get ''position'' t = Some (JInt i)"
      by (auto simp: tier_position_def bind_eq_Some_conv elim!: as_i64.elims split: if_splits)
    with i(2) assms(1) show ?thesis by (simp add: sql_text_def svc_ok_def)
  qed
  have "is_ok (tier_ord S tc tier)" for tier
  proof (cases "find (\<lambda>t. tier \<noteq> None \<and> sql_text S (json_get ''key'' t) = tier) ts")
    case (Some t)
    then have "t \<in> set ts" by (auto dest: find_Some_in)
    with Some pos [OF this] assms(2) show ?thesis by (auto simp: tier_ord_def is_ok_iff split: option.split)
  qed (simp add: tier_ord_def assms(2))
  then show ?thesis by (simp add: tiers_readable_def)
qed

lemma tier_config_readable: "svc_ok S \<Longrightarrow> tier_config_ok tc \<Longrightarrow> tiers_readable S tc"
  by (auto simp: tier_config_ok_def intro: tier_list_readable)

lemma fetch_readable:
  assumes "db_inv S db" "v \<in> set (versions db)" "b \<in> set (boards db)" "b_id b = v_board_id v"
    and "tiers_readable S (b_tier_config b)"
  shows "fetch_placements S (v_id v) db =
    Inr (sort_key (read_key S (b_tier_config b)) (joined_placements (v_id v) db))"
proof -
  have "is_ok (fetch_placements S (v_id v) db)"
    using assms(5) by (simp add: fetch_placements_eq(1) [OF assms(1-4)] tiers_readable_def)
  then show ?thesis
    using fetch_placements_eq(2) [OF assms(1-4)] by (auto simp: is_ok_iff)
qed

text \<open>Without tiers the placements come by position, and those without one last.\<close>

lemma read_key_no_tiers:
  "Option.bind tc (json_get ''tiers'') = None \<Longrightarrow>
   read_key S tc p = (2147483647, unwrap_or (p_position p) 2147483647, collation S (pe_entry_name p))"
  by (simp add: read_key_def tier_ord_def placement_order_def)

section \<open>The latest version\<close>

lemma board_numbers_distinct: "keys_ok db \<Longrightarrow> distinct (map v_number (board_versions bid db))"
proof -
  assume k: "keys_ok db"
  have "v = w" if "v \<in> set (board_versions bid db)" "w \<in> set (board_versions bid db)" "v_number v = v_number w" for v w
  proof -
    from that have "v \<in> set (versions db)" "w \<in> set (versions db)" "(v_board_id v, v_number v) = (v_board_id w, v_number w)"
      by (auto simp: board_versions_def)
    then show "v = w" by (rule distinct_map_inj [OF keys_okD(6) [OF k]])
  qed
  moreover have "distinct (board_versions bid db)"
    using keys_okD(5) [OF k] by (auto simp: board_versions_def distinct_map)
  ultimately show ?thesis by (auto simp: distinct_map intro!: inj_onI)
qed

lemma latest_version_row_None: "latest_version_row bid db = None \<longleftrightarrow> board_versions bid db = []"
proof -
  have "order_by Desc v_number (board_versions bid db) = [] \<longleftrightarrow> board_versions bid db = []"
    using set_order_by [of Desc v_number "board_versions bid db"] by (metis set_empty)
  then show ?thesis
    by (cases "order_by Desc v_number (board_versions bid db)")
      (auto simp: latest_version_row_def simp del: order_by.simps)
qed

lemma latest_version_row_Some:
  assumes "keys_ok db" "latest_version_row bid db = Some v"
  shows "v \<in> set (board_versions bid db)" "v_number v = max_number bid db"
proof -
  let ?vs = "order_by Desc v_number (board_versions bid db)"
  from assms(2) obtain vs where vs: "?vs = v # vs"
    by (auto simp: latest_version_row_def split: list.splits)
  then have "v \<in> set ?vs" by simp
  then show v: "v \<in> set (board_versions bid db)" by (simp only: set_order_by)
  have "v_number w \<le> v_number v" if "w \<in> set (board_versions bid db)" for w
  proof -
    have "w \<in> set ?vs" using that by (simp only: set_order_by)
    moreover have "sorted_wrt (\<lambda>a b. v_number b < v_number a) (v # vs)"
      using order_by_strict [OF board_numbers_distinct [OF assms(1)], of Desc bid] by (simp add: vs [symmetric])
    ultimately show ?thesis unfolding vs by auto
  qed
  moreover have "board_versions bid db \<noteq> []" using v by auto
  then obtain w where "w \<in> set (board_versions bid db)" "v_number w = max_number bid db"
    using max_number_attained by blast
  moreover have "v_number v \<le> max_number bid db"
    using v max_number_ge by (auto simp: board_versions_def)
  ultimately show "v_number v = max_number bid db" by fastforce
qed

section \<open>The diff\<close>

lemma diff_loop_eq:
  "diff_loop from ps (a, m, u) =
     (a @ map diffed (filter (\<lambda>p. lookup_slug (pe_entry_slug p) from = None) ps),
      m @ map (\<lambda>p. diff_moved (the (lookup_slug (pe_entry_slug p) from)) p)
        (filter (\<lambda>p. \<exists>q. lookup_slug (pe_entry_slug p) from = Some q \<and> placement_changed q p) ps),
      u @ map diffed
        (filter (\<lambda>p. \<exists>q. lookup_slug (pe_entry_slug p) from = Some q \<and> \<not> placement_changed q p) ps))"
  by (induction ps arbitrary: a m u) (auto split: option.split)

lemma lookup_slug_None: "lookup_slug s ps = None \<longleftrightarrow> s \<notin> pe_entry_slug ` set ps"
  by (auto simp: lookup_slug_def find_None_iff)

lemma lookup_slug_Some: "lookup_slug s ps = Some p \<Longrightarrow> p \<in> set ps \<and> pe_entry_slug p = s"
  unfolding lookup_slug_def by (auto dest: find_Some_in)

lemma lookup_slug_eq:
  "distinct (map pe_entry_slug ps) \<Longrightarrow> p \<in> set ps \<Longrightarrow> lookup_slug (pe_entry_slug p) ps = Some p"
  unfolding lookup_slug_def by (rule find_by_key) (simp_all flip: rev_map)

lemma get_slugs_distinct:
  assumes "db_inv S db" "versions_get_by_number S bid n db = Inr vp"
  shows "distinct (map pe_entry_slug (vp_placements vp))"
proof -
  from assms(2) obtain v where v: "v \<in> set (versions db)"
      and f: "fetch_placements S (v_id v) db = Inr (vp_placements vp)"
    by (auto simp: versions_get_by_number_def dest: find_Some_in)
  from assms(1) v obtain b where "b \<in> set (boards db)" "b_id b = v_board_id v"
    by (auto simp: db_inv_def refs_ok_def)
  from fetch_placements_eq(2) [OF assms(1) v this f]
  have "mset (map pe_entry_slug (vp_placements vp)) = mset (map pe_entry_slug (joined_placements (v_id v) db))"
    by simp
  then show ?thesis using joined_slugs_distinct [OF assms(1)] mset_eq_imp_distinct_iff by blast
qed

text \<open>The four lists of the diff of two lists with distinct slugs.\<close>

definition diff_added where
  "diff_added from to = filter (\<lambda>p. lookup_slug (pe_entry_slug p) from = None) to"

definition diff_common where
  "diff_common ch from to =
     filter (\<lambda>p. \<exists>q. lookup_slug (pe_entry_slug p) from = Some q \<and> placement_changed q p = ch) to"

lemma set_diff_added: "pe_entry_slug ` set (diff_added from to) = pe_entry_slug ` set to - pe_entry_slug ` set from"
  by (auto simp: diff_added_def lookup_slug_None)

lemma set_diff_common:
  "pe_entry_slug ` set (diff_common True from to) \<union> pe_entry_slug ` set (diff_common False from to) =
     pe_entry_slug ` set from \<inter> pe_entry_slug ` set to"
proof -
  have "set (diff_common True from to) \<union> set (diff_common False from to) =
      {p \<in> set to. lookup_slug (pe_entry_slug p) from \<noteq> None}"
    by (auto simp: diff_common_def)
  then have "pe_entry_slug ` (set (diff_common True from to) \<union> set (diff_common False from to)) =
      pe_entry_slug ` {p \<in> set to. pe_entry_slug p \<in> pe_entry_slug ` set from}"
    by (simp only: lookup_slug_None not_not)
  also have "\<dots> = pe_entry_slug ` set from \<inter> pe_entry_slug ` set to" by (rule image_filter_mem)
  finally show ?thesis by (simp only: image_Un)
qed

lemma diff_distinct:
  assumes "distinct (map pe_entry_slug from)" "distinct (map pe_entry_slug to)"
  shows "distinct (map pe_entry_slug (diff_added from to) @ map pe_entry_slug (diff_common True from to) @
    map pe_entry_slug (diff_common False from to) @ map pe_entry_slug (diff_added to from))"
proof -
  have "pe_entry_slug ` set (diff_common True from to) \<inter> pe_entry_slug ` set (diff_common False from to) = {}"
  proof (intro equals0I, elim IntE imageE)
    fix s p q assume pq: "s = pe_entry_slug p" "p \<in> set (diff_common True from to)"
      "s = pe_entry_slug q" "q \<in> set (diff_common False from to)"
    then have "p \<in> set to" "q \<in> set to" "pe_entry_slug p = pe_entry_slug q" by (simp_all add: diff_common_def)
    then have "p = q" by (rule distinct_map_inj [OF assms(2)])
    with pq(2,4) show False by (auto simp: diff_common_def)
  qed
  moreover have "pe_entry_slug ` set (diff_common c from to) \<subseteq> pe_entry_slug ` set from \<inter> pe_entry_slug ` set to" for c
    using set_diff_common [of "from" to] by (cases c) auto
  moreover have "distinct (map pe_entry_slug (diff_added from to))" "distinct (map pe_entry_slug (diff_added to from))"
      "distinct (map pe_entry_slug (diff_common c from to))" for c
    using assms by (simp_all add: diff_added_def diff_common_def distinct_map_filter)
  moreover note set_diff_added [of "from" to] set_diff_added [of to "from"]
  ultimately show ?thesis by (simp only: distinct_append set_append set_map) blast
qed

lemma versions_diff_eq:
  assumes "versions_diff S bid m n db = Inr d"
  obtains "from" to where "versions_get_by_number S bid m db = Inr from" "versions_get_by_number S bid n db = Inr to"
    "vd_added d = map diffed (diff_added (vp_placements from) (vp_placements to))"
    "vd_removed d = map diffed (diff_added (vp_placements to) (vp_placements from))"
    "vd_moved d = map (\<lambda>p. diff_moved (the (lookup_slug (pe_entry_slug p) (vp_placements from))) p)
       (diff_common True (vp_placements from) (vp_placements to))"
    "vd_unchanged d = map diffed (diff_common False (vp_placements from) (vp_placements to))"
  using assms that
  by (auto simp: versions_diff_def Let_def diff_loop_eq diff_added_def diff_common_def)

section \<open>Ranked placements\<close>

lemma created_pairs:
  assumes "keys_ok db" "\<forall>p \<in> set (cv_placements inp). find_entry (b_id b) (cp_entry_slug p) db \<noteq> None"
    and "distinct (map cp_entry_slug (cv_placements inp))"
  shows "map (\<lambda>p. (e_slug (entry_of db (p_entry_id p)), p_score p)) (created_placements S b inp db) =
    map (\<lambda>p. (cp_entry_slug p, cp_score p)) (cv_placements inp)"
proof -
  let ?es = "resolve_entries (b_id b) (cv_placements inp) db"
  have len: "length ?es = length (cv_placements inp)" by (simp add: resolve_entries_def)
  note es = resolve_entries_ok [OF assms]
  have "map p_entry_id (created_placements S b inp db) = map e_id ?es"
    by (simp add: created_placements_def created_rows_fields(1) [OF len])
  then have "map (\<lambda>i. e_slug (entry_of db i)) (map p_entry_id (created_placements S b inp db)) =
      map (\<lambda>e. e_slug (entry_of db (e_id e))) ?es"
    by (simp add: comp_def)
  also have "\<dots> = map e_slug ?es" using es(2) by (simp add: entry_of_eq [OF assms(1)])
  finally have "map (\<lambda>p. e_slug (entry_of db (p_entry_id p))) (created_placements S b inp db) =
      map cp_entry_slug (cv_placements inp)"
    by (simp add: comp_def es(1))
  moreover have "map p_score (created_placements S b inp db) = map cp_score (cv_placements inp)"
    by (simp add: created_placements_def created_rows_fields(2) [OF len])
  ultimately show ?thesis by (rule map_pair_eq)
qed

text \<open>Rows numbered 1, 2, ... and read without tiers come in that order.\<close>

lemma sorted_numbered:
  fixes f :: "placement_with_entry \<Rightarrow> 'k::linorder"
  assumes "\<And>p q. f p \<le> f q \<Longrightarrow> unwrap_or (p_position p) 2147483647 \<le> unwrap_or (p_position q) 2147483647"
    and "mset (map p_position ps) = mset (map (\<lambda>i. Some (1 + int i)) [0..<n])"
  shows "map p_position (sort_key f ps) = map (\<lambda>i. Some (1 + int i)) [0..<n]"
proof -
  let ?s = "sort_key f ps" and ?pos = "\<lambda>p. unwrap_or (p_position p) 2147483647"
  have "p_position ` set ps = (\<lambda>i. Some (1 + int i)) ` {0..<n}"
    using arg_cong [OF assms(2), of set_mset] by simp
  then have ex: "\<exists>i. p_position p = Some i" if "p \<in> set ps" for p
    using imageI [OF that, of p_position] by auto
  have "map ?pos ps = map the (map p_position ps)" by (auto dest: ex)
  then have "mset (map ?pos ps) = image_mset the (mset (map p_position ps))" by (simp only: mset_map)
  also have "\<dots> = mset (map (\<lambda>i. 1 + int i) [0..<n])"
    unfolding assms(2) by (simp only: mset_map [symmetric] map_map comp_def option.sel)
  finally have m: "mset (map ?pos ?s) = mset (map (\<lambda>i. 1 + int i) [0..<n])" by simp
  have "sorted (map f ?s)" by simp
  then have "sorted_wrt (\<lambda>p q. ?pos p \<le> ?pos q) ?s"
    unfolding sorted_map by (rule sorted_wrt_mono_rel [rotated]) (rule assms(1))
  then have "sorted (map ?pos ?s)" by (simp add: sorted_map)
  moreover have "sorted (map (\<lambda>i. 1 + int i) [0..<n])" by (simp add: sorted_map sorted_wrt_iff_nth_less)
  ultimately have "map ?pos ?s = map (\<lambda>i. 1 + int i) [0..<n]"
    using m properties_for_sort by metis
  then have "map Some (map ?pos ?s) = map Some (map (\<lambda>i. 1 + int i) [0..<n])" by (rule arg_cong)
  moreover have "map Some (map ?pos ?s) = map p_position ?s" by (auto dest: ex)
  ultimately show ?thesis by (simp add: comp_def)
qed

section \<open>Positions of an ordered board\<close>

lemma resolved_position_default: "int i < i32_max \<Longrightarrow> resolved_position i p = unwrap_or (cp_position p) (1 + int i)"
  by (simp add: resolved_position_def wrap_i32_id in_i32_def i32_min_def i32_max_def add.commute)

lemma resolved_positions_ge:
  assumes "int (i + length ps) \<le> i32_max" "\<forall>p \<in> set ps. \<forall>pos. cp_position p = Some pos \<longrightarrow> 1 \<le> pos"
  shows "\<forall>pos \<in> set (resolved_positions i ps). 1 \<le> pos"
  using assms
proof (induction i ps rule: resolved_positions.induct)
  case (2 i p ps)
  then have "1 \<le> resolved_position i p"
    by (cases "cp_position p") (simp_all add: resolved_position_default)
  with 2 show ?case by simp
qed simp

lemma resolved_positions_implicit:
  "int (i + length ps) \<le> i32_max \<Longrightarrow> \<forall>p \<in> set ps. cp_position p = None \<Longrightarrow>
   resolved_positions i ps = map (\<lambda>j. 1 + int j) [i..<i + length ps]"
proof (induction i ps rule: resolved_positions.induct)
  case (2 i p ps)
  then have "resolved_position i p = 1 + int i" by (simp add: resolved_position_default)
  moreover have "[i..<i + length (p # ps)] = i # [Suc i..<Suc i + length ps]"
    by (simp add: upt_conv_Cons del: upt_Suc)
  ultimately show ?case using 2 by simp
qed simp

lemma map_with_entry: "length es = length ps \<Longrightarrow> map p_position (map2 with_entry ps es) = map p_position ps"
  by (induction ps es rule: list_induct2') (simp_all add: with_entry_def)

section \<open>Accepting a request\<close>

lemma length_created_placements: "length (created_placements S b inp db) = length (cv_placements inp)"
proof -
  have "length (resolve_entries (b_id b) (cv_placements inp) db) = length (cv_placements inp)"
    by (simp add: resolve_entries_def)
  from arg_cong [OF created_rows_fields(1) [OF this, of "b_board_type b" 0], of length] this
  show ?thesis by (simp add: created_placements_def)
qed

lemma created_tiers: "map p_tier (created_placements S b inp db) = map cp_tier (cv_placements inp)"
proof -
  have "length (resolve_entries (b_id b) (cv_placements inp) db) = length (cv_placements inp)"
    by (simp add: resolve_entries_def)
  from created_rows_fields(3) [OF this] show ?thesis by (simp add: created_placements_def)
qed

lemma created_derive:
  assumes "svc_ok S" "db_inv S db" "b \<in> set (boards db)" "create_version_ok b0 b inp mx db"
  shows "is_ok (derive_scored_positions (v_id (created_version S b inp db)) sd (created_db S b inp db)) \<longleftrightarrow>
    int (length (cv_placements inp)) \<le> i32_max"
  using create_publish(4) [OF assms]
  by (simp add: derive_scored_positions_def Let_def ranked_def length_created_placements)

lemma created_fetch:
  assumes "svc_ok S" "db_inv S db" "b \<in> set (boards db)" "create_version_ok b0 b inp mx db"
    and d: "derive_scored_positions (v_id (created_version S b inp db)) sd (created_db S b inp db) = Inr db3"
  shows "is_ok (fetch_placements S (v_id (created_version S b inp db)) db3) \<longleftrightarrow>
    (\<forall>p \<in> set (cv_placements inp). is_ok (tier_ord S (b_tier_config b) (cp_tier p)))"
proof -
  let ?v = "created_version S b inp db" and ?db2 = "created_db S b inp db"
  note pub = create_publish [OF assms(1-4)]
  have k2: "keys_ok ?db2" using pub(2) by (simp add: db_inv_def)
  have inv3: "db_inv S db3" by (rule derive_inv [OF pub(2) d])
  have pub3: "published db (b_id b) ?v db3" by (rule publish_derive [OF pub(3,2,5) d])
  have "p_tier ` {p \<in> set (placements db3). p_version_id p = v_id ?v} =
      set (map p_tier (filter (\<lambda>p. p_version_id p = v_id ?v) (placements db3)))" by simp
  also have "map p_tier (filter (\<lambda>p. p_version_id p = v_id ?v) (placements db3)) = map cp_tier (cv_placements inp)"
    unfolding derive_rows(1) [OF k2 d] pub(4) by (simp add: created_tiers comp_def)
  finally have tiers: "p_tier ` {p \<in> set (placements db3). p_version_id p = v_id ?v} = cp_tier ` set (cv_placements inp)"
    by simp
  have "is_ok (fetch_placements S (v_id ?v) db3) \<longleftrightarrow>
      (\<forall>p \<in> set (placements db3). p_version_id p = v_id ?v \<longrightarrow> is_ok (tier_ord S (b_tier_config b) (p_tier p)))"
    by (rule fetch_placements_eq(1) [OF inv3]) (use pub3 assms(3) in \<open>simp_all add: published_def\<close>)
  also have "\<dots> \<longleftrightarrow> (\<forall>t \<in> p_tier ` {p \<in> set (placements db3). p_version_id p = v_id ?v}.
      is_ok (tier_ord S (b_tier_config b) t))" by auto
  finally show ?thesis unfolding tiers by simp
qed

lemma versions_create_is_ok:
  assumes "svc_ok S" "db_inv S db" "find (\<lambda>b. b_id b = b_id b0) (boards db) = Some b"
    and "create_version_ok b0 b inp mx db"
  shows "is_ok (versions_create S b0 inp mx db) \<longleftrightarrow>
    (b_board_type b = ''scored'' \<longrightarrow> int (length (cv_placements inp)) \<le> i32_max \<and>
      (\<forall>p \<in> set (cv_placements inp). is_ok (tier_ord S (b_tier_config b) (cp_tier p))))"
proof -
  have b: "b \<in> set (boards db)" using assms(3) by (auto dest: find_Some_in)
  let ?d = "derive_scored_positions (v_id (created_version S b inp db)) (b_sort_direction b) (created_db S b inp db)"
  have "is_ok (versions_create S b0 inp mx db) \<longleftrightarrow>
      (b_board_type b = ''scored'' \<longrightarrow>
         (\<exists>db3. ?d = Inr db3 \<and> is_ok (fetch_placements S (v_id (created_version S b inp db)) db3)))"
    unfolding create_ok_steps [OF assms] by (auto simp: is_ok_iff)
  then show ?thesis
    using created_derive [OF assms(1,2) b assms(4), of "b_sort_direction b"]
      created_fetch [OF assms(1,2) b assms(4), of "b_sort_direction b"]
    by (cases ?d) auto
qed

section \<open>Properties\<close>

definition sample_version_input :: create_version where
  "sample_version_input =
     \<lparr>cv_note = None, cv_metadata = None,
      cv_placements =
        [\<lparr>cp_entry_slug = ''ann'', cp_position = None, cp_score = Some 0, cp_tier = None, cp_metadata = None\<rparr>]\<rparr>"

text \<open>A scored board that is not accumulative, with one entry.\<close>

definition plain_board :: board where
  "plain_board = sample_row\<lparr>b_accumulative := False\<rparr>"

definition plain_db :: db where
  "plain_db = sample_entry_db\<lparr>boards := [plain_board]\<rparr>"

lemma plain_db_inv [simp]: "db_inv sample_svc plain_db"
proof -
  have "plain_db = sample_entry_db\<lparr>boards := update_where (\<lambda>_. True) (\<lambda>b. b\<lparr>b_accumulative := False\<rparr>) (boards sample_entry_db)\<rparr>"
    by (simp add: plain_db_def plain_board_def sample_entry_db_def sample_db_def update_where_def)
  moreover have "db_inv sample_svc
      (sample_entry_db\<lparr>boards := update_where (\<lambda>_. True) (\<lambda>b. b\<lparr>b_accumulative := False\<rparr>) (boards sample_entry_db)\<rparr>)"
    by (rule update_boards_inv [OF sample_entry_db_inv])
      (auto simp: sample_entry_db_def sample_db_def sample_row_def new_board_def sample_board_def board_check_def)
  ultimately show ?thesis by simp
qed

lemma plain_db_find: "find (\<lambda>b. b_id b = b_id plain_board) (boards plain_db) = Some plain_board"
  by (simp add: plain_db_def)

lemma plain_board_fields [simp]:
  "b_id plain_board = b_id sample_row" "b_board_type plain_board = ''scored''"
  "b_accumulative plain_board = False" "b_tier_config plain_board = None"
  by (simp_all add: plain_board_def sample_row_def new_board_def sample_board_def)

lemma plain_find_entry: "find_entry (b_id sample_row) ''ann'' plain_db = Some sample_entry_row"
  using sample_entry_found by (simp add: find_entry_def plain_db_def)

lemma sample_version_ok [simp]: "create_version_ok plain_board plain_board sample_version_input None plain_db"
proof -
  have "versions plain_db = []" by (simp add: plain_db_def sample_entry_db_def sample_db_def empty_db_def)
  then have "max_number (b_id sample_row) plain_db = 0" by (simp add: max_number_def board_versions_def)
  moreover have "f64_is_finite 0" by (simp add: f64_is_finite_def f64_magnitude_def f64_infinity_bits_def)
  ultimately show ?thesis
    by (simp add: create_version_ok_def placements_ok_def sample_version_input_def plain_find_entry i32_max_def)
qed

lemma plain_create_ok: "is_ok (versions_create sample_svc plain_board sample_version_input None plain_db)"
  by (simp add: versions_create_is_ok [OF sample_svc_ok plain_db_inv plain_db_find])
    (simp add: sample_version_input_def i32_max_def tier_ord_def)

lemma plain_created:
  assumes "versions_create sample_svc plain_board sample_version_input None plain_db = Inr (vp, db')"
  shows "db_inv sample_svc db'" "versions db' = [vp_version vp]" "boards db' = [plain_board]"
    "\<exists>p \<in> set (placements db'). p_version_id p = v_id (vp_version vp)"
    "v_number (vp_version vp) = 1" "v_board_id (vp_version vp) = b_id sample_row"
proof -
  from versions_create_contract [OF sample_svc_ok plain_db_inv assms] have pub: "published plain_db (b_id plain_board) (vp_version vp) db'"
    and "db_inv sample_svc db'" by simp_all
  then show "db_inv sample_svc db'" by simp
  have e: "versions plain_db = []" by (simp add: plain_db_def sample_entry_db_def sample_db_def empty_db_def)
  then have "max_number (b_id sample_row) plain_db = 0" by (simp add: max_number_def board_versions_def)
  with pub e show "versions db' = [vp_version vp]" "boards db' = [plain_board]" "v_number (vp_version vp) = 1"
      "v_board_id (vp_version vp) = b_id sample_row"
    by (simp_all add: published_def plain_db_def)
  from versions_create_cases [OF sample_svc_ok plain_db_inv assms] plain_db_find
  have ok: "create_version_ok plain_board plain_board sample_version_input None plain_db"
      and v: "vp_version vp = created_version sample_svc plain_board sample_version_input plain_db"
      and d: "derive_scored_positions (v_id (created_version sample_svc plain_board sample_version_input plain_db))
        (b_sort_direction plain_board) (created_db sample_svc plain_board sample_version_input plain_db) = Inr db'"
    by auto
  have b: "plain_board \<in> set (boards plain_db)" by (simp add: plain_db_def)
  note cp = create_publish [OF sample_svc_ok plain_db_inv b ok]
  have "keys_ok (created_db sample_svc plain_board sample_version_input plain_db)" using cp(2) by (simp add: db_inv_def)
  from arg_cong [OF derive_rows(1) [OF this d], of length]
  have "length (filter (\<lambda>p. p_version_id p = v_id (vp_version vp)) (placements db')) = 1"
    unfolding cp(4) v by (simp add: length_created_placements sample_version_input_def)
  then show "\<exists>p \<in> set (placements db'). p_version_id p = v_id (vp_version vp)"
    by (metis (mono_tags, lifting) filter_False list.size(3) zero_neq_one)
qed

lemma plain_read:
  assumes "versions_create sample_svc plain_board sample_version_input None plain_db = Inr (vp, db')"
  shows "is_ok (versions_get_by_number sample_svc (b_id sample_row) 1 db')"
proof -
  note out = plain_created [OF assms]
  have "fetch_placements sample_svc (v_id (vp_version vp)) db' =
      Inr (sort_key (read_key sample_svc (b_tier_config plain_board)) (joined_placements (v_id (vp_version vp)) db'))"
    by (rule fetch_readable [OF out(1)]) (use out in \<open>simp_all add: no_tiers_readable\<close>)
  with out show ?thesis by (simp add: versions_get_by_number_def)
qed

text \<open>
  C1: \<open>versions::create\<close> accepts exactly the requests that satisfy the rules: the board does not
  accumulate, the placements are valid for its type (checked against the caller's copy of the
  board and against the locked row), the limit is not reached, the number fits, every slug is an
  entry of the board; on a scored board also that the rows can be numbered and read back. An
  accepted request publishes one version with the next number and touches nothing published
  before.
\<close>

theorem versions_create_accepts:
  assumes "svc_ok S" "db_inv S db" "find (\<lambda>b. b_id b = b_id b0) (boards db) = Some b"
  shows "if create_version_ok b0 b inp mx db \<and>
      (b_board_type b = ''scored'' \<longrightarrow>
         int (length (cv_placements inp)) \<le> i32_max \<and>
         (\<forall>p \<in> set (cv_placements inp). is_ok (tier_ord S (b_tier_config b) (cp_tier p))))
    then \<exists>vp db'. versions_create S b0 inp mx db = Inr (vp, db') \<and> db_inv S db' \<and>
      published db (b_id b) (vp_version vp) db' \<and> vp_version vp = created_version S b inp db
    else \<exists>e. versions_create S b0 inp mx db = Inl e"
proof (cases "create_version_ok b0 b inp mx db")
  case False
  then have "versions_create S b0 inp mx db \<noteq> Inr r" for r
    using versions_create_ok [of S b0 inp mx db r] assms(2,3) by (metis option.inject)
  with False show ?thesis by (cases "versions_create S b0 inp mx db") auto
next
  case True
  have b: "b \<in> set (boards db)" "b_id b = b_id b0" using assms(3) by (auto dest: find_Some_in)
  note steps = create_ok_steps [OF assms True]
  note ok = versions_create_is_ok [OF assms True]
  show ?thesis
  proof (cases "versions_create S b0 inp mx db")
    case (Inl e)
    with ok True show ?thesis by simp
  next
    case (Inr r)
    obtain vp db' where r: "r = (vp, db')" by (cases r)
    note eq = Inr [unfolded r]
    have "vp_version vp = created_version S b inp db" using eq steps by (auto split: if_splits)
    moreover note versions_create_contract [OF assms(1,2) eq, folded b(2)]
    moreover have "is_ok (versions_create S b0 inp mx db)" by (simp add: eq)
    ultimately show ?thesis using ok True eq by simp
  qed
qed

theorem versions_create_accepts_witness:
  "\<exists>vp db'. versions_create sample_svc plain_board sample_version_input None plain_db = Inr (vp, db') \<and>
     db_inv sample_svc db' \<and> length (versions db') = 1 \<and> v_number (vp_version vp) = 1"
proof -
  have e: "versions plain_db = []" by (simp add: plain_db_def sample_entry_db_def sample_db_def empty_db_def)
  then have m: "max_number (b_id sample_row) plain_db = 0" by (simp add: max_number_def board_versions_def)
  have "int (length (cv_placements sample_version_input)) \<le> i32_max"
      "\<forall>p \<in> set (cv_placements sample_version_input). is_ok (tier_ord sample_svc (b_tier_config plain_board) (cp_tier p))"
    by (simp_all add: sample_version_input_def i32_max_def tier_ord_def)
  with versions_create_accepts [OF sample_svc_ok plain_db_inv plain_db_find, of sample_version_input None]
  obtain vp db' where "versions_create sample_svc plain_board sample_version_input None plain_db = Inr (vp, db')"
      "db_inv sample_svc db'" "published plain_db (b_id sample_row) (vp_version vp) db'"
    by auto
  with e m show ?thesis by (auto simp: published_def)
qed

text \<open>
  C2: the ranking of a scored version is right. After \<open>create\<close> on a scored board the new
  version's rows, put in rank order (better score first by the board's direction, equal scores
  by entry id), carry the positions 1, 2, ... without gap or tie; they are the submitted entries
  with the submitted scores, and when the board has no tiers the response lists them in that
  order.
\<close>

theorem scored_version_ranked:
  assumes "svc_ok S" "db_inv S db" "versions_create S b0 inp mx db = Inr (vp, db')"
    and "find (\<lambda>b. b_id b = b_id b0) (boards db) = Some b" "b_board_type b = ''scored''"
  shows "\<exists>rows. is_ranking (b_sort_direction b) rows \<and>
    mset (filter (\<lambda>p. p_version_id p = v_id (vp_version vp)) (placements db')) = mset rows \<and>
    mset (map (\<lambda>p. (e_slug (entry_of db (p_entry_id p)), p_score p)) rows) =
      mset (map (\<lambda>p. (cp_entry_slug p, cp_score p)) (cv_placements inp)) \<and>
    (Option.bind (b_tier_config b) (json_get ''tiers'') = None \<longrightarrow>
       map p_position (vp_placements vp) = map (\<lambda>i. Some (1 + int i)) [0..<length (cv_placements inp)])"
proof -
  from versions_create_cases [OF assms(1-3)] assms(4,5) have ok: "create_version_ok b0 b inp mx db"
      and v: "vp_version vp = created_version S b inp db"
      and d: "derive_scored_positions (v_id (created_version S b inp db)) (b_sort_direction b) (created_db S b inp db) = Inr db'"
      and f: "fetch_placements S (v_id (created_version S b inp db)) db' = Inr (vp_placements vp)"
    by auto
  let ?v = "created_version S b inp db" and ?db2 = "created_db S b inp db"
  have b: "b \<in> set (boards db)" using assms(4) by (auto dest: find_Some_in)
  note pub = create_publish [OF assms(1,2) b ok]
  have k: "keys_ok db" and k2: "keys_ok ?db2" using assms(2) pub(2) by (simp_all add: db_inv_def)
  obtain rows where r: "is_ranking (b_sort_direction b) rows"
      "mset (filter (\<lambda>p. p_version_id p = v_id ?v) (placements db')) = mset rows"
      "mset (map unranked rows) = mset (map unranked (filter (\<lambda>p. p_version_id p = v_id ?v) (placements ?db2)))"
    by (rule derive_ranking [OF k2 d])
  let ?pair = "\<lambda>p. (e_slug (entry_of db (p_entry_id p)), p_score p)"
  have "mset (map ?pair rows) = image_mset ?pair (mset (map unranked rows))"
    by (simp add: image_mset.compositionality comp_def unranked_def)
  also have "\<dots> = mset (map ?pair (created_placements S b inp db))"
    unfolding r(3) pub(4) by (simp add: image_mset.compositionality comp_def unranked_def)
  also have "\<dots> = mset (map (\<lambda>p. (cp_entry_slug p, cp_score p)) (cv_placements inp))"
    using ok by (subst created_pairs [OF k]) (simp_all add: create_version_ok_def placements_ok_def)
  finally have pairs: "mset (map ?pair rows) = mset (map (\<lambda>p. (cp_entry_slug p, cp_score p)) (cv_placements inp))" .
  have inv3: "db_inv S db'" and pub3: "published db (b_id b) ?v db'"
    using versions_create_contract [OF assms(1-3)] assms(4) v by (auto dest: find_Some_in)
  have pls: "vp_placements vp = sort_key (read_key S (b_tier_config b)) (joined_placements (v_id ?v) db')"
    by (rule fetch_placements_eq(2) [OF inv3 _ _ _ f]) (use pub3 b in \<open>simp_all add: published_def\<close>)
  have "mset (map p_position (joined_placements (v_id ?v) db')) = mset (map p_position rows)"
    using arg_cong [OF r(2), of "image_mset p_position"]
    by (simp add: joined_placements_eq [OF inv3] with_entry_def comp_def)
  also have "\<dots> = mset (map (\<lambda>i. Some (1 + int i)) [0..<length rows])" using r(1) by (simp add: is_ranking_def)
  also have "length rows = length (cv_placements inp)"
    using arg_cong [OF pairs, of size] by simp
  finally have pos: "mset (map p_position (joined_placements (v_id ?v) db')) =
      mset (map (\<lambda>i. Some (1 + int i)) [0..<length (cv_placements inp)])" .
  have order: "map p_position (vp_placements vp) = map (\<lambda>i. Some (1 + int i)) [0..<length (cv_placements inp)]"
    if "Option.bind (b_tier_config b) (json_get ''tiers'') = None"
    unfolding pls by (rule sorted_numbered [OF _ pos]) (simp add: read_key_no_tiers [OF that] less_eq_prod_def, linarith)
  show ?thesis unfolding v by (intro exI [of _ rows] conjI impI r(1,2) pairs order)
qed

theorem scored_version_ranked_witness:
  "\<exists>vp db' rows. versions_create sample_svc plain_board sample_version_input None plain_db = Inr (vp, db') \<and>
     is_ranking ''asc'' rows \<and>
     mset (filter (\<lambda>p. p_version_id p = v_id (vp_version vp)) (placements db')) = mset rows \<and>
     map p_position (vp_placements vp) = [Some 1]"
proof -
  have t: "Option.bind (b_tier_config plain_board) (json_get ''tiers'') = None"
      and sd: "b_sort_direction plain_board = ''asc''" and l: "length (cv_placements sample_version_input) = 1"
    by (simp_all add: plain_board_def sample_row_def new_board_def sample_board_def sample_version_input_def)
  obtain vp db' where r: "versions_create sample_svc plain_board sample_version_input None plain_db = Inr (vp, db')"
    using plain_create_ok by (auto simp: is_ok_iff)
  from scored_version_ranked [OF sample_svc_ok plain_db_inv r plain_db_find plain_board_fields(2), unfolded sd l] t
  obtain rows where rows: "is_ranking ''asc'' rows"
      "mset (filter (\<lambda>p. p_version_id p = v_id (vp_version vp)) (placements db')) = mset rows"
      "map p_position (vp_placements vp) = map (\<lambda>i. Some (1 + int i)) [0..<1]"
    by blast
  from rows(3) have pos: "map p_position (vp_placements vp) = [Some 1]" by simp
  show ?thesis by (intro exI [of _ vp] exI [of _ db'] exI [of _ rows] conjI r rows(1,2) pos)
qed

text \<open>
  C5: the latest version is the one with the highest number, and reading it is faithful. On a
  board whose tier configuration passed the checks, or that has none, \<open>get_latest\<close> never fails
  once a version exists; it agrees with \<open>get_by_number\<close> of the highest number and lists each
  placement of that version once, by tier position, then position, then name.
\<close>

theorem latest_version_read:
  assumes "svc_ok S" "db_inv S db" "b \<in> set (boards db)"
    and "tier_config_ok (b_tier_config b) \<or> Option.bind (b_tier_config b) (json_get ''tiers'') = None"
  shows "if board_versions (b_id b) db = []
    then versions_get_latest S (b_id b) db = Inl (NotFound [Lit ''no versions exist for this board''])
    else \<exists>v pls. v \<in> set (board_versions (b_id b) db) \<and> (\<forall>w \<in> set (board_versions (b_id b) db). v_number w \<le> v_number v) \<and>
      versions_get_latest S (b_id b) db = Inr \<lparr>vp_version = v, vp_placements = pls\<rparr> \<and>
      versions_get_by_number S (b_id b) (v_number v) db = Inr \<lparr>vp_version = v, vp_placements = pls\<rparr> \<and>
      mset pls = mset (joined_placements (v_id v) db) \<and>
      length pls = length (filter (\<lambda>p. p_version_id p = v_id v) (placements db)) \<and>
      sorted (map (read_key S (b_tier_config b)) pls)"
proof (cases "board_versions (b_id b) db = []")
  case True
  then show ?thesis by (simp add: versions_get_latest_def latest_version_row_None [THEN iffD2])
next
  case False
  have k: "keys_ok db" using assms(2) by (simp add: db_inv_def)
  from False obtain v where v: "latest_version_row (b_id b) db = Some v"
    using latest_version_row_None by (metis option.exhaust)
  note row = latest_version_row_Some [OF k v]
  then have mem: "v \<in> set (versions db)" "b_id b = v_board_id v" by (auto simp: board_versions_def)
  have rd: "tiers_readable S (b_tier_config b)"
    using assms(4) tier_config_readable [OF assms(1)] no_tiers_readable by blast
  note f = fetch_readable [OF assms(2) mem(1) assms(3) mem(2) rd]
  have "find (\<lambda>w. v_board_id w = b_id b \<and> v_number w = v_number v) (versions db) = Some v"
    by (rule find_unique [OF mem(1)])
      (use mem(2) in \<open>auto intro: distinct_map_inj [OF keys_okD(6) [OF k] _ mem(1)]\<close>)
  then have n: "versions_get_by_number S (b_id b) (v_number v) db = versions_get_latest S (b_id b) db"
    by (simp add: versions_get_by_number_def versions_get_latest_def v)
  have "\<forall>w \<in> set (board_versions (b_id b) db). v_number w \<le> v_number v"
    using max_number_ge row(2) by (auto simp: board_versions_def)
  moreover have "length (joined_placements (v_id v) db) = length (filter (\<lambda>p. p_version_id p = v_id v) (placements db))"
    by (simp add: joined_placements_eq [OF assms(2)])
  ultimately show ?thesis
    using False row(1) n f
    by (intro if_not_P [THEN iffD2, OF False] exI [of _ v] exI [of _ "sort_key (read_key S (b_tier_config b)) (joined_placements (v_id v) db)"])
      (simp add: versions_get_latest_def v)
qed

theorem latest_version_read_witness:
  "\<exists>db' v pls. snd (projr (versions_create sample_svc plain_board sample_version_input None plain_db)) = db' \<and>
     versions_get_latest sample_svc (b_id plain_board) db' = Inr \<lparr>vp_version = v, vp_placements = pls\<rparr> \<and>
     v \<in> set (versions db')"
proof -
  obtain vp db' where r: "versions_create sample_svc plain_board sample_version_input None plain_db = Inr (vp, db')"
    using plain_create_ok by (auto simp: is_ok_iff)
  from versions_create_contract [OF sample_svc_ok plain_db_inv r] have c: "db_inv sample_svc db'"
      and pub: "published plain_db (b_id plain_board) (vp_version vp) db'" by simp_all
  have b: "plain_board \<in> set (boards db')" using pub by (simp add: published_def plain_db_def)
  have ne: "board_versions (b_id plain_board) db' \<noteq> []" using pub by (simp add: published_def board_versions_def)
  have t: "tier_config_ok (b_tier_config plain_board) \<or> Option.bind (b_tier_config plain_board) (json_get ''tiers'') = None"
    by simp
  from latest_version_read [OF sample_svc_ok c b t, unfolded if_not_P [OF ne]] r show ?thesis
    by (auto simp: board_versions_def)
qed

text \<open>
  An unchecked tier configuration makes a board unreadable. The checks of \<open>boards.rs\<close> skip
  boards that are not tiered, so a \<open>tiers\<close> that is no array is stored, and from then on reading
  any version of the board that has a placement is a database error.
\<close>

theorem malformed_tiers_unreadable:
  assumes "db_inv S db" "b \<in> set (boards db)" "v \<in> set (versions db)" "v_board_id v = b_id b"
    and "p \<in> set (placements db)" "p_version_id p = v_id v"
    and "Option.bind (b_tier_config b) (json_get ''tiers'') = Some t" "as_array t = None"
  shows "\<exists>e. versions_get_by_number S (b_id b) (v_number v) db = Inl (Database e)"
proof -
  have k: "keys_ok db" using assms(1) by (simp add: db_inv_def)
  have "find (\<lambda>w. v_board_id w = b_id b \<and> v_number w = v_number v) (versions db) = Some v"
    by (rule find_unique [OF assms(3)])
      (use assms(4) in \<open>auto intro: distinct_map_inj [OF keys_okD(6) [OF k] _ assms(3)]\<close>)
  moreover have bad: "tier_ord S (b_tier_config b) tier = Inl (Database InvalidValue)" for tier
    using assms(7,8) by (simp add: tier_ord_def)
  have "joined_placements (v_id v) db \<noteq> []"
    using assms(5,6) by (auto simp: joined_placements_eq [OF assms(1)] filter_empty_conv)
  then have "fetch_placements S (v_id v) db = Inl (Database InvalidValue)"
    by (cases "joined_placements (v_id v) db")
      (simp_all add: fetch_placements_def boards_of_version_eq [OF assms(1,3,2) assms(4) [symmetric]] bad)
  ultimately show ?thesis by (simp add: versions_get_by_number_def)
qed

theorem malformed_tiers_unreadable_witness:
  "\<exists>db. \<exists>e. versions_get_by_number sample_svc (b_id sample_row) 1 db = Inl (Database e)"
proof -
  let ?bad = "\<lambda>b. b\<lparr>b_tier_config := Some (JObject [(''tiers'', JInt 1)])\<rparr>"
  obtain vp db' where r: "versions_create sample_svc plain_board sample_version_input None plain_db = Inr (vp, db')"
    using plain_create_ok by (auto simp: is_ok_iff)
  note out = plain_created [OF r]
  let ?db = "db'\<lparr>boards := update_where (\<lambda>_. True) ?bad (boards db')\<rparr>"
  have bs: "boards ?db = [?bad plain_board]" using out(3) by (simp add: update_where_def)
  have inv: "db_inv sample_svc ?db"
    by (rule update_boards_inv [OF out(1)]) (use out(1) in \<open>auto simp: db_inv_def checks_ok_def board_check_def\<close>)
  obtain p where p: "p \<in> set (placements ?db)" "p_version_id p = v_id (vp_version vp)" using out(4) by auto
  from malformed_tiers_unreadable [OF inv _ _ _ p, where b = "?bad plain_board" and t = "JInt 1"] out(2,5,6) bs show ?thesis
    by auto
qed

text \<open>
  C6: the diff of two versions accounts for every entry once. Added are the entries only the newer
  version has, removed those only the older has, and the entries of both are moved, when
  position, score or tier differ, or unchanged; the four lists are disjoint and together the
  entries of the two versions.
\<close>

theorem diff_partition:
  assumes "db_inv S db" "versions_diff S bid m n db = Inr d"
  shows "\<exists>from to. versions_get_by_number S bid m db = Inr from \<and> versions_get_by_number S bid n db = Inr to \<and>
    (let old = pe_entry_slug ` set (vp_placements from); new = pe_entry_slug ` set (vp_placements to) in
     distinct (map d_entry_slug (vd_added d) @ map dm_entry_slug (vd_moved d) @
       map d_entry_slug (vd_unchanged d) @ map d_entry_slug (vd_removed d)) \<and>
     d_entry_slug ` set (vd_added d) = new - old \<and> d_entry_slug ` set (vd_removed d) = old - new \<and>
     dm_entry_slug ` set (vd_moved d) \<union> d_entry_slug ` set (vd_unchanged d) = old \<inter> new \<and>
     (\<forall>x \<in> set (vd_moved d). dm_from_position x \<noteq> dm_to_position x \<or> dm_from_score x \<noteq> dm_to_score x \<or>
        dm_from_tier x \<noteq> dm_to_tier x) \<and>
     (\<forall>x \<in> set (vd_unchanged d). \<exists>p \<in> set (vp_placements from). \<exists>q \<in> set (vp_placements to).
        x = diffed q \<and> pe_entry_slug p = pe_entry_slug q \<and> p_position p = p_position q \<and>
        p_score p = p_score q \<and> p_tier p = p_tier q))"
proof -
  obtain "from" to where g: "versions_get_by_number S bid m db = Inr from" "versions_get_by_number S bid n db = Inr to"
      and l: "vd_added d = map diffed (diff_added (vp_placements from) (vp_placements to))"
        "vd_removed d = map diffed (diff_added (vp_placements to) (vp_placements from))"
        "vd_moved d = map (\<lambda>p. diff_moved (the (lookup_slug (pe_entry_slug p) (vp_placements from))) p)
           (diff_common True (vp_placements from) (vp_placements to))"
        "vd_unchanged d = map diffed (diff_common False (vp_placements from) (vp_placements to))"
    by (rule versions_diff_eq [OF assms(2)])
  have s: "d_entry_slug \<circ> diffed = pe_entry_slug" "dm_entry_slug \<circ> (\<lambda>p. diff_moved (f p) p) = pe_entry_slug" for f
    by (auto simp: diffed_def diff_moved_def)
  have e: "d_entry_slug ` diffed ` A = pe_entry_slug ` A"
      "dm_entry_slug ` (\<lambda>p. diff_moved (f p) p) ` A = pe_entry_slug ` A" for f A
    by (simp_all only: image_comp s)
  note dist = diff_distinct [OF get_slugs_distinct [OF assms(1) g(1)] get_slugs_distinct [OF assms(1) g(2)]]
  have "\<forall>x \<in> set (vd_moved d). dm_from_position x \<noteq> dm_to_position x \<or> dm_from_score x \<noteq> dm_to_score x \<or>
      dm_from_tier x \<noteq> dm_to_tier x"
    by (auto simp: l diff_common_def diff_moved_def placement_changed_def)
  moreover have "\<forall>x \<in> set (vd_unchanged d). \<exists>p \<in> set (vp_placements from). \<exists>q \<in> set (vp_placements to).
      x = diffed q \<and> pe_entry_slug p = pe_entry_slug q \<and> p_position p = p_position q \<and>
      p_score p = p_score q \<and> p_tier p = p_tier q"
    by (fastforce simp: l diff_common_def placement_changed_def dest: lookup_slug_Some)
  moreover have "distinct (map d_entry_slug (vd_added d) @ map dm_entry_slug (vd_moved d) @
      map d_entry_slug (vd_unchanged d) @ map d_entry_slug (vd_removed d))"
    using dist by (simp only: l map_map s)
  moreover have "d_entry_slug ` set (vd_added d) = pe_entry_slug ` set (vp_placements to) - pe_entry_slug ` set (vp_placements from)"
      "d_entry_slug ` set (vd_removed d) = pe_entry_slug ` set (vp_placements from) - pe_entry_slug ` set (vp_placements to)"
      "dm_entry_slug ` set (vd_moved d) \<union> d_entry_slug ` set (vd_unchanged d) =
       pe_entry_slug ` set (vp_placements from) \<inter> pe_entry_slug ` set (vp_placements to)"
    by (simp_all only: l set_map e set_diff_added set_diff_common)
  ultimately show ?thesis
    unfolding Let_def by (intro exI [of _ "from"] exI [of _ to] conjI g(1) g(2)) assumption+
qed

theorem diff_partition_witness:
  "\<exists>db d. versions_diff sample_svc (b_id sample_row) 1 1 db = Inr d \<and>
     d_entry_slug ` set (vd_added d) = {} \<and> d_entry_slug ` set (vd_removed d) = {}"
proof -
  obtain vp db' where r: "versions_create sample_svc plain_board sample_version_input None plain_db = Inr (vp, db')"
    using plain_create_ok by (auto simp: is_ok_iff)
  obtain w where w: "versions_get_by_number sample_svc (b_id sample_row) 1 db' = Inr w"
    using plain_read [OF r] by (auto simp: is_ok_iff)
  then obtain d where d: "versions_diff sample_svc (b_id sample_row) 1 1 db' = Inr d"
    by (cases "diff_loop (vp_placements w) (vp_placements w) ([], [], [])") (auto simp: versions_diff_def Let_def)
  from diff_partition [OF plain_created(1) [OF r] d] w d show ?thesis
    by (auto simp: Let_def)
qed

text \<open>
  An ordered version has one position per entry. The positions \<open>create\<close> returns and stores on
  an ordered board are the explicit ones, or the array order for the others; they are all
  different and at least 1, and without explicit positions they are 1, 2, ... in array order.
\<close>

theorem ordered_version_positions:
  assumes "svc_ok S" "db_inv S db" "versions_create S b0 inp mx db = Inr (vp, db')"
    and "find (\<lambda>b. b_id b = b_id b0) (boards db) = Some b" "b_board_type b = ''ordered''"
    and "int (length (cv_placements inp)) \<le> i32_max"
  shows "map p_position (vp_placements vp) = map Some (resolved_positions 0 (cv_placements inp)) \<and>
    map p_position (filter (\<lambda>p. p_version_id p = v_id (vp_version vp)) (placements db')) =
      map p_position (vp_placements vp) \<and>
    distinct (resolved_positions 0 (cv_placements inp)) \<and>
    (\<forall>pos \<in> set (resolved_positions 0 (cv_placements inp)). 1 \<le> pos) \<and>
    ((\<forall>p \<in> set (cv_placements inp). cp_position p = None) \<longrightarrow>
       resolved_positions 0 (cv_placements inp) = map (\<lambda>j. 1 + int j) [0..<length (cv_placements inp)])"
proof -
  from versions_create_cases [OF assms(1-3)] assms(4,5) have ok: "create_version_ok b0 b inp mx db"
      and v: "vp_version vp = created_version S b inp db" and d: "db' = created_db S b inp db"
      and pl: "vp_placements vp = map2 with_entry (created_placements S b inp db)
         (resolve_entries (b_id b) (cv_placements inp) db)"
    by auto
  have b: "b \<in> set (boards db)" using assms(4) by (auto dest: find_Some_in)
  have len: "length (resolve_entries (b_id b) (cv_placements inp) db) = length (cv_placements inp)"
    by (simp add: resolve_entries_def)
  have pos: "map p_position (created_placements S b inp db) = map Some (resolved_positions 0 (cv_placements inp))"
    by (simp add: created_placements_def created_rows_fields(5) [OF len] assms(5))
  have "map p_position (vp_placements vp) = map p_position (created_placements S b inp db)"
    unfolding pl by (rule map_with_entry) (simp add: len length_created_placements)
  moreover have "filter (\<lambda>p. p_version_id p = v_id (vp_version vp)) (placements db') = created_placements S b inp db"
    unfolding v d by (rule create_publish(4) [OF assms(1,2) b ok])
  moreover have "placements_ok b (cv_placements inp)" using ok by (simp add: create_version_ok_def)
  ultimately show ?thesis
    using pos assms(5,6) resolved_positions_ge [of 0 "cv_placements inp"]
      resolved_positions_implicit [of 0 "cv_placements inp"]
    by (simp add: placements_ok_def)
qed

definition ordered_board :: board where
  "ordered_board = plain_board\<lparr>b_board_type := ''ordered''\<rparr>"

definition ordered_db :: db where
  "ordered_db = plain_db\<lparr>boards := [ordered_board]\<rparr>"

lemma ordered_db_inv: "db_inv sample_svc ordered_db"
proof -
  have "db_inv sample_svc
      (plain_db\<lparr>boards := update_where (\<lambda>_. True) (\<lambda>b. b\<lparr>b_board_type := ''ordered''\<rparr>) (boards plain_db)\<rparr>)"
    by (rule update_boards_inv [OF plain_db_inv])
      (auto simp: plain_db_def plain_board_def sample_row_def new_board_def sample_board_def board_check_def)
  then show ?thesis by (simp add: ordered_db_def ordered_board_def plain_db_def update_where_def)
qed

lemma ordered_create_ok: "is_ok (versions_create sample_svc ordered_board sample_version_input None ordered_db)"
proof -
  have f: "find (\<lambda>b. b_id b = b_id ordered_board) (boards ordered_db) = Some ordered_board"
    by (simp add: ordered_db_def)
  have "board_versions (b_id sample_row) ordered_db = []"
    by (simp add: ordered_db_def plain_db_def sample_entry_db_def sample_db_def empty_db_def board_versions_def)
  then have "max_number (b_id sample_row) ordered_db = 0" by (simp add: max_number_def)
  moreover have "find_entry (b_id sample_row) ''ann'' ordered_db = Some sample_entry_row"
    using plain_find_entry by (simp add: find_entry_def ordered_db_def)
  ultimately have "create_version_ok ordered_board ordered_board sample_version_input None ordered_db"
    by (simp add: create_version_ok_def placements_ok_def sample_version_input_def i32_max_def ordered_board_def)
  from versions_create_is_ok [OF sample_svc_ok ordered_db_inv f this] show ?thesis
    by (simp add: ordered_board_def)
qed

theorem ordered_version_positions_witness:
  "\<exists>vp db'. versions_create sample_svc ordered_board sample_version_input None ordered_db = Inr (vp, db') \<and>
     map p_position (vp_placements vp) = [Some 1]"
proof -
  obtain vp db' where r: "versions_create sample_svc ordered_board sample_version_input None ordered_db = Inr (vp, db')"
    using ordered_create_ok by (auto simp: is_ok_iff)
  have f: "find (\<lambda>b. b_id b = b_id ordered_board) (boards ordered_db) = Some ordered_board"
    by (simp add: ordered_db_def)
  have t: "b_board_type ordered_board = ''ordered''" by (simp add: ordered_board_def)
  have l: "int (length (cv_placements sample_version_input)) \<le> i32_max"
      "\<forall>p \<in> set (cv_placements sample_version_input). cp_position p = None"
      "length (cv_placements sample_version_input) = 1"
    by (simp_all add: sample_version_input_def i32_max_def)
  from ordered_version_positions [OF sample_svc_ok ordered_db_inv r f t l(1)] l(2,3) r show ?thesis by simp
qed

section \<open>Paginated listing\<close>

lemma version_cursors_differ: "db_inv S db \<Longrightarrow> distinct (map version_cursor (board_versions bid db))"
proof -
  assume "db_inv S db"
  then have "distinct (map v_id (board_versions bid db))"
    by (simp add: db_inv_def keys_ok_def board_versions_def distinct_map_filter)
  then have "distinct (map (cursor_id \<circ> version_cursor) (board_versions bid db))" by (simp add: version_cursor_def comp_def)
  then show ?thesis by (simp add: distinct_map inj_on_def)
qed

interpretation version_listing: keyset_listing "db_inv S" "board_versions bid" version_cursor Desc
    "\<lambda>C. versions_list_paginated C bid"
  for S :: svc and bid :: uuid
  by standard (auto simp: version_cursors_differ versions_list_paginated_def)

end
