(* ===== verification/Collections.thy ===== *)
theory Collections
  imports Versions
begin

text \<open>
  \<open>repo/collections.rs\<close>: collections, their PATCH and deletion, and the boards they hold with a
  display order. \<open>add_board\<close> is three statements without a transaction; its INSERT is a
  definition of its own, so that it can be studied on a database another request has changed
  since the lookups.
\<close>

section \<open>Operations\<close>

definition new_collection :: "svc \<Rightarrow> create_collection \<Rightarrow> db \<Rightarrow> collection" where
  "new_collection S inp db =
     \<lparr>c_id = next_id S db, c_slug = cc_slug inp, c_name = cc_name inp, c_metadata = cc_metadata inp,
      c_created_at = tx_now S db, c_updated_at = tx_now S db\<rparr>"

definition collections_create :: "svc \<Rightarrow> create_collection \<Rightarrow> db \<Rightarrow> (collection \<times> db) result" where
  "collections_create S inp db =
     rbind (validate_slug (cc_slug inp)) (\<lambda>_.
     rbind (validate_name (cc_name inp)) (\<lambda>_.
     on_unique_violation (Conflict [Lit ''collection with slug '', Quo (cc_slug inp), Lit '' already exists''])
       (rbind (insert_collection (new_collection S inp db) db) (\<lambda>db'.
        Inr (new_collection S inp db, db')))))"

definition collections_list :: "db \<Rightarrow> collection list" where
  "collections_list db = order_by Desc c_created_at (collections db)"

definition collection_cursor :: "collection \<Rightarrow> cursor" where
  "collection_cursor c = Cursor (c_created_at c) (c_id c)"

definition collections_list_paginated ::
  "codec \<Rightarrow> pagination_params \<Rightarrow> db \<Rightarrow> collection paginated_response result" where
  "collections_list_paginated C params db = paginate C Desc collection_cursor params (collections db)"

definition find_collection :: "string \<Rightarrow> db \<Rightarrow> collection option" where
  "find_collection slug db = find (\<lambda>c. c_slug c = slug) (collections db)"

definition collections_get_by_slug :: "string \<Rightarrow> db \<Rightarrow> collection result" where
  "collections_get_by_slug slug db =
     ok_or (find_collection slug db) (NotFound [Lit ''collection '', Quo slug, Lit '' not found''])"

text \<open>One row of the join: the board of a membership with its display order and latest number.\<close>

definition collection_entry :: "db \<Rightarrow> collection_board \<Rightarrow> board \<Rightarrow> collection_board_entry" where
  "collection_entry db m b =
     \<lparr>cbe_slug = b_slug b, cbe_name = b_name b, cbe_board_type = b_board_type b,
      cbe_display_order = m_display_order m,
      cbe_latest_version =
        (case map v_number (board_versions (b_id b) db) of [] \<Rightarrow> None | n # ns \<Rightarrow> Some (foldr max ns n))\<rparr>"

definition display_key :: "svc \<Rightarrow> collection_board_entry \<Rightarrow> int \<times> string" where
  "display_key S x = (cbe_display_order x, collation S (cbe_name x))"

definition collection_entries :: "svc \<Rightarrow> uuid \<Rightarrow> db \<Rightarrow> collection_board_entry list" where
  "collection_entries S cid db =
     order_by Asc (display_key S)
       (concat (map (\<lambda>m. map (collection_entry db m) (filter (\<lambda>b. b_id b = m_board_id m) (boards db)))
         (filter (\<lambda>m. m_collection_id m = cid) (collection_boards db))))"

definition collections_get_with_boards ::
  "svc \<Rightarrow> string \<Rightarrow> db \<Rightarrow> (collection \<times> collection_board_entry list) result" where
  "collections_get_with_boards S slug db =
     rbind (collections_get_by_slug slug db) (\<lambda>c. Inr (c, collection_entries S (c_id c) db))"

definition patched_collection :: "timestamp \<Rightarrow> update_collection \<Rightarrow> collection \<Rightarrow> collection" where
  "patched_collection t inp c =
     c\<lparr>c_name := unwrap_or (uc_name inp) (c_name c), c_metadata := patch (uc_metadata inp) (c_metadata c),
       c_updated_at := t\<rparr>"

definition collections_patch ::
  "svc \<Rightarrow> string \<Rightarrow> update_collection \<Rightarrow> db \<Rightarrow> (collection \<times> db) result" where
  "collections_patch S slug inp db =
     rbind (check_opt validate_name (uc_name inp)) (\<lambda>_.
     rbind (collections_get_by_slug slug db) (\<lambda>c.
     let updated = patched_collection (tx_now S db) inp c in
     Inr (updated, db\<lparr>collections := update_where (\<lambda>x. c_id x = c_id c) (\<lambda>_. updated) (collections db)\<rparr>)))"

definition collections_delete :: "string \<Rightarrow> db \<Rightarrow> db result" where
  "collections_delete slug db =
     (let ids = map c_id (filter (\<lambda>c. c_slug c = slug) (collections db)) in
      rbind (reject_if (ids = []) (NotFound [Lit ''collection '', Quo slug, Lit '' not found''])) (\<lambda>_.
      Inr (delete_collection_rows ids db)))"

text \<open>The INSERT of \<open>add_board\<close> with its \<open>map_err\<close>.\<close>

definition insert_membership :: "string \<Rightarrow> add_board_to_collection \<Rightarrow> uuid \<Rightarrow> uuid \<Rightarrow> db \<Rightarrow> db result" where
  "insert_membership cslug inp cid bid db =
     (case insert_collection_board
             \<lparr>m_collection_id = cid, m_board_id = bid, m_display_order = ab_display_order inp\<rparr> db of
        Inl (Database UniqueViolation) \<Rightarrow>
          Inl (Conflict [Lit ''board '', Quo (ab_board_slug inp), Lit '' is already in collection '', Quo cslug])
      | Inl (Database ForeignKeyViolation) \<Rightarrow>
          Inl (NotFound [Lit ''collection '', Quo cslug, Lit '' or board '', Quo (ab_board_slug inp), Lit '' not found''])
      | r \<Rightarrow> r)"

definition collections_add_board :: "string \<Rightarrow> add_board_to_collection \<Rightarrow> db \<Rightarrow> db result" where
  "collections_add_board cslug inp db =
     rbind (collections_get_by_slug cslug db) (\<lambda>c.
     rbind (boards_get_by_slug (ab_board_slug inp) db) (\<lambda>b.
     insert_membership cslug inp (c_id c) (b_id b) db))"

definition collections_remove_board :: "string \<Rightarrow> string \<Rightarrow> db \<Rightarrow> db result" where
  "collections_remove_board cslug bslug db =
     rbind (collections_get_by_slug cslug db) (\<lambda>c.
     rbind (boards_get_by_slug bslug db) (\<lambda>b.
     let gone = (\<lambda>m. m_collection_id m = c_id c \<and> m_board_id m = b_id b) in
     rbind (reject_if (filter gone (collection_boards db) = [])
              (NotFound [Lit ''board '', Quo bslug, Lit '' is not in collection '', Quo cslug])) (\<lambda>_.
     Inr (db\<lparr>collection_boards := filter (\<lambda>m. \<not> gone m) (collection_boards db)\<rparr>))))"

section \<open>The invariant\<close>

lemma find_collection_Some: "find_collection slug db = Some c \<Longrightarrow> c \<in> set (collections db) \<and> c_slug c = slug"
  by (auto simp: find_collection_def dest: find_Some_in)

lemma collections_create_inv:
  assumes "db_inv S db" "collections_create S inp db = Inr (c, db')"
  shows "db_inv S db'"
proof -
  have "insert_collection (new_collection S inp db) db = Inr db'"
    using assms(2) by (auto simp: collections_create_def on_unique_violation_def
        split: sum.splits error.splits db_error.splits)
  with assms(1) show ?thesis by (rule insert_collection_inv) (simp add: new_collection_def)
qed

lemma update_collections_inv:
  assumes "db_inv S db" "\<And>c. c \<in> set (collections db) \<Longrightarrow> P c \<Longrightarrow> c_id (f c) = c_id c \<and> c_slug (f c) = c_slug c"
  shows "db_inv S (db\<lparr>collections := update_where P f (collections db)\<rparr>)"
proof -
  let ?db = "db\<lparr>collections := update_where P f (collections db)\<rparr>"
  have m: "map c_id (collections ?db) = map c_id (collections db)"
      "map c_slug (collections ?db) = map c_slug (collections db)"
    using assms(2) by (simp_all add: map_update_where)
  note i = m [THEN map_eq_image]
  have "refs_ok ?db"
    by (rule refs_ok_cong [of db]) (use assms(1) i in \<open>simp_all add: db_inv_def entry_keys_def version_keys_def\<close>)
  moreover have "keys_ok ?db" using assms(1) m by (simp add: db_inv_def keys_ok_def)
  moreover have "checks_ok ?db" using assms(1) by (simp add: db_inv_def checks_ok_def)
  moreover have "ids_ok S ?db"
    by (rule ids_ok_same [of S db]) (use assms(1) i in \<open>simp_all add: db_inv_def all_ids_def\<close>)
  ultimately show ?thesis by (simp add: db_inv_def)
qed

lemma collections_patch_inv:
  assumes "db_inv S db" "collections_patch S slug inp db = Inr (c, db')"
  shows "db_inv S db'"
proof -
  obtain c0 where c0: "find_collection slug db = Some c0"
      "db' = db\<lparr>collections := update_where (\<lambda>x. c_id x = c_id c0)
         (\<lambda>_. patched_collection (tx_now S db) inp c0) (collections db)\<rparr>"
    using assms(2) by (auto simp: collections_patch_def collections_get_by_slug_def Let_def)
  have "x = c0" if "x \<in> set (collections db)" "c_id x = c_id c0" for x
    using assms(1) find_collection_Some [OF c0(1)] that
    by (auto simp: db_inv_def keys_ok_def dest: distinct_map_inj)
  then show ?thesis
    unfolding c0(2) by (intro update_collections_inv [OF assms(1)]) (auto simp: patched_collection_def)
qed

lemma collections_delete_inv: "db_inv S db \<Longrightarrow> collections_delete slug db = Inr db' \<Longrightarrow> db_inv S db'"
  by (auto simp: collections_delete_def Let_def delete_collection_rows_inv)

lemma insert_membership_Inr: "insert_membership cslug inp cid bid db = Inr db' \<longleftrightarrow>
    insert_collection_board \<lparr>m_collection_id = cid, m_board_id = bid, m_display_order = ab_display_order inp\<rparr> db = Inr db'"
  by (auto simp: insert_membership_def split: sum.splits error.splits db_error.splits)

lemma insert_membership_inv: "db_inv S db \<Longrightarrow> insert_membership cslug inp cid bid db = Inr db' \<Longrightarrow> db_inv S db'"
  by (auto simp: insert_membership_Inr intro: insert_collection_board_inv)

lemma collections_add_board_inv: "db_inv S db \<Longrightarrow> collections_add_board cslug inp db = Inr db' \<Longrightarrow> db_inv S db'"
  by (auto simp: collections_add_board_def intro: insert_membership_inv)

lemma remove_membership_inv:
  assumes "db_inv S db"
  shows "db_inv S (db\<lparr>collection_boards := filter P (collection_boards db)\<rparr>)"
  using assms by (auto simp: db_inv_def keys_ok_def checks_ok_def refs_ok_def same_board_def pin_ok_def
      version_keys_def entry_keys_def ids_ok_def all_ids_def distinct_map_filter split: option.splits)

lemma collections_remove_board_inv:
  "db_inv S db \<Longrightarrow> collections_remove_board cslug bslug db = Inr db' \<Longrightarrow> db_inv S db'"
  by (auto simp: collections_remove_board_def Let_def intro: remove_membership_inv)

section \<open>The boards of a collection\<close>

text \<open>The board a membership row refers to.\<close>

definition board_of :: "db \<Rightarrow> uuid \<Rightarrow> board" where
  "board_of db i = the (find (\<lambda>b. b_id b = i) (boards db))"

lemma board_of_key: "keys_ok db \<Longrightarrow> i \<in> b_id ` set (boards db) \<Longrightarrow>
    board_of db i \<in> set (boards db) \<and> b_id (board_of db i) = i \<and>
    filter (\<lambda>b. b_id b = i) (boards db) = [board_of db i]"
proof -
  assume k: "keys_ok db" and "i \<in> b_id ` set (boards db)"
  then obtain b where b: "b \<in> set (boards db)" "b_id b = i" by auto
  have "find (\<lambda>x. b_id x = b_id b) (boards db) = Some b" by (rule find_by_key [OF keys_okD(1) [OF k] b(1)])
  then have "board_of db i = b" using b(2) by (simp add: board_of_def)
  with b filter_by_key [OF keys_okD(1) [OF k] b(1)] show ?thesis by simp
qed

definition memberships :: "uuid \<Rightarrow> db \<Rightarrow> collection_board list" where
  "memberships cid db = filter (\<lambda>m. m_collection_id m = cid) (collection_boards db)"

lemma membership_board:
  assumes "db_inv S db" "m \<in> set (memberships cid db)"
  shows "m_board_id m \<in> b_id ` set (boards db)"
  using assms by (auto simp: memberships_def db_inv_def refs_ok_def)

lemma collection_entries_eq:
  assumes "db_inv S db"
  shows "collection_entries S cid db = order_by Asc (display_key S)
    (map (\<lambda>m. collection_entry db m (board_of db (m_board_id m))) (memberships cid db))"
proof -
  have k: "keys_ok db" using assms by (simp add: db_inv_def)
  have "map (collection_entry db m) (filter (\<lambda>b. b_id b = m_board_id m) (boards db)) =
      [collection_entry db m (board_of db (m_board_id m))]" if "m \<in> set (memberships cid db)" for m
    using board_of_key [OF k membership_board [OF assms that]] by simp
  then show ?thesis
    unfolding collection_entries_def memberships_def [symmetric] by (simp only: concat_map_single)
qed

lemma collection_latest:
  assumes "keys_ok db"
  shows "(case map v_number (board_versions bid db) of [] \<Rightarrow> None | n # ns \<Rightarrow> Some (foldr max ns n)) =
    map_option v_number (latest_version_row bid db)"
proof (cases "latest_version_row bid db")
  case None
  then show ?thesis by (simp add: latest_version_row_None)
next
  case (Some v)
  note v = latest_version_row_Some [OF assms Some]
  then obtain w ws where w: "board_versions bid db = w # ws" by (cases "board_versions bid db") auto
  have "foldr max (map v_number ws) (v_number w) = Max (v_number ` set (board_versions bid db))"
    by (simp add: foldr_max_Max w)
  also have "\<dots> = v_number v"
  proof (rule Max_eqI)
    show "v_number v \<in> v_number ` set (board_versions bid db)" using v(1) by (rule imageI)
  qed (use v(2) in \<open>auto simp: board_versions_def max_number_ge\<close>)
  finally show ?thesis using Some w by simp
qed

section \<open>Paginated listing\<close>

interpretation collection_listing: keyset_listing "db_inv S" collections collection_cursor Desc
    collections_list_paginated
  for S :: svc
proof
  show "distinct (map collection_cursor (collections d))" if "db_inv S d" for d
  proof -
    have "distinct (map c_id (collections d))" using that by (simp add: db_inv_def keys_ok_def)
    then have "distinct (map (cursor_id \<circ> collection_cursor) (collections d))"
      by (simp add: collection_cursor_def comp_def)
    then show ?thesis by (simp add: distinct_map inj_on_def)
  qed
qed (simp add: collections_list_paginated_def)

section \<open>Properties\<close>

definition sample_collection :: collection where
  "sample_collection =
     new_collection sample_svc \<lparr>cc_slug = ''all'', cc_name = ''All'', cc_metadata = None\<rparr> plain_db"

definition collection_db :: db where
  "collection_db = plain_db\<lparr>collections := [sample_collection], drawn := Suc (drawn plain_db)\<rparr>"

lemma collection_db_inv [simp]: "db_inv sample_svc collection_db"
proof (rule insert_collection_inv [OF plain_db_inv])
  show "insert_collection sample_collection plain_db = Inr collection_db"
    by (simp add: insert_collection_def collection_db_def plain_db_def sample_entry_db_def sample_db_def empty_db_def)
qed (simp add: sample_collection_def new_collection_def)

lemma collection_db_find: "find_collection ''all'' collection_db = Some sample_collection"
  by (simp add: find_collection_def collection_db_def sample_collection_def new_collection_def)

text \<open>
  C15: membership of a collection. \<open>add_board\<close> succeeds exactly when both exist and the board is
  not yet a member; then the board is a member with the given order, adding it again is a
  conflict, and removing it restores the database as it was before.
\<close>

theorem collection_membership:
  assumes "db_inv S db" "find_collection cslug db = Some c" "boards_get_by_slug (ab_board_slug inp) db = Inr b"
  shows "if (c_id c, b_id b) \<in> (\<lambda>m. (m_collection_id m, m_board_id m)) ` set (collection_boards db)
    then \<exists>m. collections_add_board cslug inp db = Inl (Conflict m)
    else \<exists>db'. collections_add_board cslug inp db = Inr db' \<and> db_inv S db' \<and>
      memberships (c_id c) db' = memberships (c_id c) db @
        [\<lparr>m_collection_id = c_id c, m_board_id = b_id b, m_display_order = ab_display_order inp\<rparr>] \<and>
      (\<exists>m. collections_add_board cslug inp db' = Inl (Conflict m)) \<and>
      collections_remove_board cslug (ab_board_slug inp) db' = Inr db"
proof (cases "(c_id c, b_id b) \<in> (\<lambda>m. (m_collection_id m, m_board_id m)) ` set (collection_boards db)")
  case True
  with assms(2,3) show ?thesis
    by (simp add: collections_add_board_def collections_get_by_slug_def insert_membership_def
        insert_collection_board_def)
next
  case False
  let ?m = "\<lparr>m_collection_id = c_id c, m_board_id = b_id b, m_display_order = ab_display_order inp\<rparr>"
  let ?db = "db\<lparr>collection_boards := collection_boards db @ [?m]\<rparr>"
  have c: "c \<in> set (collections db)" using find_collection_Some [OF assms(2)] by simp
  have b: "b \<in> set (boards db)" using assms(3) by (auto simp: boards_get_by_slug_def dest: find_Some_in)
  have add: "collections_add_board cslug inp db = Inr ?db"
    using False assms(2,3) c b
    by (simp add: collections_add_board_def collections_get_by_slug_def insert_membership_def
        insert_collection_board_def)
  have l: "find_collection cslug ?db = Some c" "boards_get_by_slug (ab_board_slug inp) ?db = Inr b"
    using assms(2,3) by (simp_all add: find_collection_def boards_get_by_slug_def)
  have again: "\<exists>m. collections_add_board cslug inp ?db = Inl (Conflict m)"
    using l by (simp add: collections_add_board_def collections_get_by_slug_def insert_membership_def
        insert_collection_board_def)
  have "filter (\<lambda>m. \<not> (m_collection_id m = c_id c \<and> m_board_id m = b_id b)) (collection_boards db) =
      collection_boards db"
    using False by (auto simp: filter_id_conv image_iff)
  then have remove: "collections_remove_board cslug (ab_board_slug inp) ?db = Inr db"
    using l by (simp add: collections_remove_board_def collections_get_by_slug_def Let_def)
  have inv: "db_inv S ?db" by (rule collections_add_board_inv [OF assms(1) add])
  show ?thesis
    unfolding if_not_P [OF False]
    by (intro exI [of _ ?db] conjI add inv again remove) (simp add: memberships_def)
qed

theorem collection_membership_witness:
  "\<exists>db'. collections_add_board ''all'' \<lparr>ab_board_slug = ''speed'', ab_display_order = 3\<rparr> collection_db = Inr db' \<and>
     collections_remove_board ''all'' ''speed'' db' = Inr collection_db"
proof -
  have b: "boards_get_by_slug (ab_board_slug \<lparr>ab_board_slug = ''speed'', ab_display_order = 3\<rparr>) collection_db = Inr plain_board"
    by (simp add: boards_get_by_slug_def collection_db_def plain_db_def plain_board_def sample_row_def new_board_def
        sample_board_def)
  have "collection_boards collection_db = []"
    by (simp add: collection_db_def plain_db_def sample_entry_db_def sample_db_def empty_db_def)
  then show ?thesis
    using collection_membership [OF collection_db_inv collection_db_find b] by auto
qed

text \<open>
  C16: reading a collection shows its member boards, each once and as they are: every membership
  row of the collection gives one line, with the slug and the name of its board and the display
  order the row has, the lines are sorted by that display order, then by name, and each has the
  type of the board and the same latest version number as the board's own summary.
\<close>

theorem collection_read:
  assumes "db_inv S db" "find_collection slug db = Some c"
  shows "\<exists>xs. collections_get_with_boards S slug db = Inr (c, xs) \<and>
    sorted (map (\<lambda>x. (cbe_display_order x, collation S (cbe_name x))) xs) \<and> distinct (map cbe_slug xs) \<and>
    set (map (\<lambda>x. (cbe_slug x, cbe_name x, cbe_display_order x)) xs) =
      {(b_slug b, b_name b, m_display_order m) | b m. b \<in> set (boards db) \<and> m \<in> set (collection_boards db) \<and>
         m_collection_id m = c_id c \<and> m_board_id m = b_id b} \<and>
    (\<forall>x \<in> set xs. \<exists>s. boards_get_summary (cbe_slug x) db = Inr s \<and> cbe_name x = b_name (bs_board s) \<and>
       cbe_board_type x = b_board_type (bs_board s) \<and> cbe_latest_version x = bs_latest_version s)"
proof (intro exI [of _ "collection_entries S (c_id c) db"] conjI ballI)
  let ?ms = "memberships (c_id c) db"
  let ?f = "\<lambda>m. collection_entry db m (board_of db (m_board_id m))"
  have k: "keys_ok db" using assms(1) by (simp add: db_inv_def)
  note b = board_of_key [OF k membership_board [OF assms(1)]]
  note xs = collection_entries_eq [OF assms(1)]
  show "collections_get_with_boards S slug db = Inr (c, collection_entries S (c_id c) db)"
    using assms(2) by (simp add: collections_get_with_boards_def collections_get_by_slug_def)
  have "sorted (map (display_key S) (collection_entries S (c_id c) db))"
    unfolding xs by simp
  moreover have "display_key S = (\<lambda>x. (cbe_display_order x, collation S (cbe_name x)))"
    by (rule ext) (simp add: display_key_def)
  ultimately show "sorted (map (\<lambda>x. (cbe_display_order x, collation S (cbe_name x))) (collection_entries S (c_id c) db))"
    by (simp only:)
  have "distinct (map m_board_id ?ms)"
  proof -
    have "distinct (map (\<lambda>m. (m_collection_id m, m_board_id m)) ?ms)"
      unfolding memberships_def using k by (simp add: keys_ok_def distinct_map_filter)
    then show ?thesis by (auto simp: distinct_map inj_on_def memberships_def)
  qed
  moreover have "inj_on (\<lambda>i. b_slug (board_of db i)) (m_board_id ` set ?ms)"
  proof (rule inj_onI)
    fix i j assume "i \<in> m_board_id ` set ?ms" "j \<in> m_board_id ` set ?ms"
      and s: "b_slug (board_of db i) = b_slug (board_of db j)"
    then obtain m n where "m \<in> set ?ms" "i = m_board_id m" "n \<in> set ?ms" "j = m_board_id n" by blast
    then have i: "board_of db i \<in> set (boards db)" "b_id (board_of db i) = i"
        and j: "board_of db j \<in> set (boards db)" "b_id (board_of db j) = j"
      by (simp_all add: b)
    have "board_of db i = board_of db j" by (rule distinct_map_inj [OF keys_okD(2) [OF k] i(1) j(1) s])
    then show "i = j" using i(2) j(2) by metis
  qed
  ultimately have "distinct (map (\<lambda>i. b_slug (board_of db i)) (map m_board_id ?ms))"
    by (simp only: distinct_map set_map simp_thms)
  then have d: "distinct (map cbe_slug (map ?f ?ms))" by (simp add: collection_entry_def comp_def)
  moreover have "mset (map cbe_slug (collection_entries S (c_id c) db)) = mset (map cbe_slug (map ?f ?ms))"
    unfolding xs by (simp only: mset_map mset_order_by)
  ultimately show "distinct (map cbe_slug (collection_entries S (c_id c) db))"
    by (metis mset_eq_imp_distinct_iff)
  let ?told = "\<lambda>m. (b_slug (board_of db (m_board_id m)), b_name (board_of db (m_board_id m)), m_display_order m)"
  let ?rows = "{(b_slug b, b_name b, m_display_order m) | b m. b \<in> set (boards db) \<and> m \<in> set (collection_boards db) \<and>
      m_collection_id m = c_id c \<and> m_board_id m = b_id b}"
  have "set (map (\<lambda>x. (cbe_slug x, cbe_name x, cbe_display_order x)) (collection_entries S (c_id c) db)) = ?told ` set ?ms"
    unfolding xs by (simp only: set_map set_order_by image_image) (simp add: collection_entry_def)
  also have "\<dots> = ?rows"
  proof (intro equalityI subsetI)
    fix x assume "x \<in> ?told ` set ?ms"
    then obtain m where m: "x = ?told m" "m \<in> set ?ms" by (rule imageE)
    from b [OF m(2)] m show "x \<in> ?rows"
      by (intro CollectI exI [of _ "board_of db (m_board_id m)"] exI [of _ m]) (simp add: memberships_def)
  next
    fix x assume "x \<in> ?rows"
    then obtain y m where y: "x = (b_slug y, b_name y, m_display_order m)" "y \<in> set (boards db)" "m \<in> set ?ms"
        "m_board_id m = b_id y" by (auto simp: memberships_def)
    then have "board_of db (m_board_id m) = y"
      using b [OF y(3)] distinct_map_inj [OF keys_okD(1) [OF k]] by auto
    with y(1) show "x \<in> ?told ` set ?ms" by (intro image_eqI [OF _ y(3)]) simp
  qed
  finally show "set (map (\<lambda>x. (cbe_slug x, cbe_name x, cbe_display_order x)) (collection_entries S (c_id c) db)) = ?rows" .
  fix x assume "x \<in> set (collection_entries S (c_id c) db)"
  then obtain m where m: "m \<in> set ?ms" "x = ?f m" unfolding xs by (auto simp del: order_by.simps)
  let ?b = "board_of db (m_board_id m)"
  have "find (\<lambda>y. b_slug y = b_slug ?b) (boards db) = Some ?b"
    using b [OF m(1)] by (intro find_by_key [OF keys_okD(2) [OF k]]) simp
  then have "boards_get_summary (cbe_slug x) db = Inr \<lparr>bs_board = ?b,
      bs_latest_version = map_option v_number (latest_version_row (b_id ?b) db),
      bs_entry_count = int (length (board_entries (b_id ?b) db))\<rparr>"
    by (simp add: m(2) collection_entry_def boards_get_summary_def boards_get_by_slug_def)
  then show "\<exists>s. boards_get_summary (cbe_slug x) db = Inr s \<and> cbe_name x = b_name (bs_board s) \<and>
       cbe_board_type x = b_board_type (bs_board s) \<and> cbe_latest_version x = bs_latest_version s"
    by (simp add: m(2) collection_entry_def collection_latest [OF k])
qed

definition member_db :: db where
  "member_db = collection_db\<lparr>collection_boards :=
     [\<lparr>m_collection_id = c_id sample_collection, m_board_id = b_id plain_board, m_display_order = 3\<rparr>]\<rparr>"

lemma member_db_inv: "db_inv sample_svc member_db"
proof (rule insert_collection_board_inv [OF collection_db_inv])
  show "insert_collection_board
      \<lparr>m_collection_id = c_id sample_collection, m_board_id = b_id plain_board, m_display_order = 3\<rparr>
      collection_db = Inr member_db"
    by (simp add: insert_collection_board_def member_db_def collection_db_def plain_db_def sample_entry_db_def
        sample_db_def empty_db_def)
qed

theorem collection_read_witness:
  "\<exists>xs. collections_get_with_boards sample_svc ''all'' member_db = Inr (sample_collection, xs) \<and>
     (\<lambda>(s, n, i). (s, i)) ` set (map (\<lambda>x. (cbe_slug x, cbe_name x, cbe_display_order x)) xs) = {(''speed'', 3)}"
proof -
  have f: "find_collection ''all'' member_db = Some sample_collection"
    using collection_db_find by (simp add: find_collection_def member_db_def)
  have "boards member_db = [plain_board]" "b_slug plain_board = ''speed''"
    by (simp_all add: member_db_def collection_db_def plain_db_def plain_board_def sample_row_def new_board_def
        sample_board_def)
  moreover have "collection_boards member_db =
      [\<lparr>m_collection_id = c_id sample_collection, m_board_id = b_id plain_board, m_display_order = 3\<rparr>]"
    by (simp add: member_db_def)
  ultimately have rows: "{(b_slug b, b_name b, m_display_order m) | b m. b \<in> set (boards member_db) \<and>
      m \<in> set (collection_boards member_db) \<and> m_collection_id m = c_id sample_collection \<and> m_board_id m = b_id b} =
      {(''speed'', b_name plain_board, 3)}"
    by auto
  from collection_read [OF member_db_inv f] obtain xs where xs:
    "collections_get_with_boards sample_svc ''all'' member_db = Inr (sample_collection, xs)"
    "set (map (\<lambda>x. (cbe_slug x, cbe_name x, cbe_display_order x)) xs) = {(''speed'', b_name plain_board, 3)}"
    unfolding rows by blast
  show ?thesis by (intro exI [of _ xs] conjI xs(1)) (simp only: xs(2), simp)
qed

end
