(* ===== verification/References.thy ===== *)
theory References
  imports Versions
begin

text \<open>
  \<open>repo/references.rs\<close>: links from a board, or from one pinned version of it, to an outside
  context. A reference is returned with the number of its pinned version, looked up by a LEFT JOIN.
\<close>

section \<open>Operations\<close>

definition validate_ref_type :: "string \<Rightarrow> unit result" where
  "validate_ref_type rt =
     (if rt \<in> {''embed'', ''citation'', ''context''} then Inr ()
      else Inl (Validation [Lit ''invalid ref_type '', Quo rt, Lit '': must be 'embed', 'citation', or '', Quo ''context'']))"

definition validate_uri :: "string \<Rightarrow> unit result" where
  "validate_uri uri =
     rbind (reject_if (uri = []) (Validation [Lit ''uri must not be empty''])) (\<lambda>_.
     reject_if (2048 < length uri) (Validation [Lit ''uri must not exceed 2048 characters'']))"

definition validate_label :: "string option \<Rightarrow> unit result" where
  "validate_label label =
     (case label of
        None \<Rightarrow> Inr ()
      | Some l \<Rightarrow> reject_if (256 < length l) (Validation [Lit ''label must not exceed 256 characters'']))"

text \<open>\<open>BoardReference\<close>: the row with the number of the version it is pinned to.\<close>

record reference_view = board_reference +
  rv_pinned_version_number :: "i32 option"

definition pinned_number :: "board_reference \<Rightarrow> db \<Rightarrow> i32 option" where
  "pinned_number r db =
     map_option v_number (find (\<lambda>v. Some (v_id v) = br_pinned_version_id r) (versions db))"

definition view_reference :: "db \<Rightarrow> board_reference \<Rightarrow> reference_view" where
  "view_reference db r = board_reference.extend r \<lparr>rv_pinned_version_number = pinned_number r db\<rparr>"

text \<open>The version of the board with a number.\<close>

definition find_version :: "uuid \<Rightarrow> i32 \<Rightarrow> db \<Rightarrow> version option" where
  "find_version bid num db = find (\<lambda>v. v_board_id v = bid \<and> v_number v = num) (versions db)"

definition resolve_pin :: "uuid \<Rightarrow> i32 option \<Rightarrow> db \<Rightarrow> uuid option result" where
  "resolve_pin bid pin db =
     (case pin of
        None \<Rightarrow> Inr None
      | Some num \<Rightarrow>
          rbind (ok_or (find_version bid num db)
                   (NotFound [Lit ''version '', Num num, Lit '' not found on this board'']))
            (\<lambda>v. Inr (Some (v_id v))))"

definition new_reference :: "svc \<Rightarrow> uuid \<Rightarrow> uuid option \<Rightarrow> create_reference \<Rightarrow> db \<Rightarrow> board_reference" where
  "new_reference S bid pin inp db =
     \<lparr>br_id = next_id S db, br_board_id = bid, br_pinned_version_id = pin, br_uri = cr_uri inp,
      br_ref_type = cr_ref_type inp, br_label = cr_label inp, br_created_at = tx_now S db\<rparr>"

definition references_create ::
  "svc \<Rightarrow> uuid \<Rightarrow> create_reference \<Rightarrow> db \<Rightarrow> (reference_view \<times> db) result" where
  "references_create S bid inp db =
     rbind (validate_ref_type (cr_ref_type inp)) (\<lambda>_.
     rbind (validate_uri (cr_uri inp)) (\<lambda>_.
     rbind (validate_label (cr_label inp)) (\<lambda>_.
     rbind (resolve_pin bid (cr_pinned_version_number inp) db) (\<lambda>pin.
     let r = new_reference S bid pin inp db in
     rbind (insert_reference r db) (\<lambda>db'. Inr (view_reference db' r, db'))))))"

definition references_of :: "uuid \<Rightarrow> db \<Rightarrow> reference_view list" where
  "references_of bid db =
     map (view_reference db) (filter (\<lambda>r. br_board_id r = bid) (board_references db))"

definition references_list :: "uuid \<Rightarrow> db \<Rightarrow> reference_view list" where
  "references_list bid db = order_by Asc br_created_at (references_of bid db)"

definition reference_cursor :: "reference_view \<Rightarrow> cursor" where
  "reference_cursor r = Cursor (br_created_at r) (br_id r)"

definition references_list_paginated ::
  "codec \<Rightarrow> uuid \<Rightarrow> pagination_params \<Rightarrow> db \<Rightarrow> reference_view paginated_response result" where
  "references_list_paginated C bid params db = paginate C Asc reference_cursor params (references_of bid db)"

definition references_delete :: "uuid \<Rightarrow> uuid \<Rightarrow> db \<Rightarrow> db result" where
  "references_delete bid rid db =
     (let gone = (\<lambda>r. br_id r = rid \<and> br_board_id r = bid) in
      rbind (reject_if (filter gone (board_references db) = [])
               (NotFound [Lit ''reference '', Num (int rid), Lit '' not found''])) (\<lambda>_.
      Inr (db\<lparr>board_references := filter (\<lambda>r. \<not> gone r) (board_references db)\<rparr>)))"

section \<open>The checks\<close>

definition create_reference_ok :: "create_reference \<Rightarrow> bool" where
  "create_reference_ok inp \<longleftrightarrow>
     cr_ref_type inp \<in> {''embed'', ''citation'', ''context''} \<and> cr_uri inp \<noteq> [] \<and> length (cr_uri inp) \<le> 2048 \<and>
     (\<forall>l. cr_label inp = Some l \<longrightarrow> length l \<le> 256)"

definition check_reference :: "create_reference \<Rightarrow> unit result" where
  "check_reference inp =
     rbind (validate_ref_type (cr_ref_type inp)) (\<lambda>_.
     rbind (validate_uri (cr_uri inp)) (\<lambda>_. validate_label (cr_label inp)))"

lemma check_reference_iff: "check_reference inp = Inr () \<longleftrightarrow> create_reference_ok inp"
  by (auto simp: check_reference_def create_reference_ok_def validate_ref_type_def validate_uri_def
      validate_label_def not_less split: option.splits)

lemma check_reference_errs: "\<not> create_reference_ok inp \<Longrightarrow> \<exists>m. check_reference inp = Inl (Validation m)"
proof -
  have "errs_in (range Validation) (check_reference inp)"
    unfolding check_reference_def validate_ref_type_def validate_uri_def validate_label_def
    by (auto intro!: errs split: option.split)
  moreover assume "\<not> create_reference_ok inp"
  then have "check_reference inp \<noteq> Inr ()" by (simp add: check_reference_iff)
  ultimately show ?thesis by (cases "check_reference inp") (auto simp: errs_in_def)
qed

lemma references_create_eq:
  "references_create S bid inp db =
     rbind (check_reference inp) (\<lambda>_.
     rbind (resolve_pin bid (cr_pinned_version_number inp) db) (\<lambda>pin.
     let r = new_reference S bid pin inp db in
     rbind (insert_reference r db) (\<lambda>db'. Inr (view_reference db' r, db'))))"
  unfolding references_create_def check_reference_def
  by (cases "validate_ref_type (cr_ref_type inp)"; cases "validate_uri (cr_uri inp)") simp_all

section \<open>Pins\<close>

lemma find_version_Some:
  "find_version bid num db = Some v \<Longrightarrow> v \<in> set (versions db) \<and> v_board_id v = bid \<and> v_number v = num"
  by (auto simp: find_version_def dest: find_Some_in)

lemma pinned_number_eq:
  assumes "keys_ok db" "v \<in> set (versions db)" "br_pinned_version_id r = Some (v_id v)"
  shows "pinned_number r db = Some (v_number v)"
  using find_by_key [OF keys_okD(5) [OF assms(1)] assms(2)] assms(3) by (simp add: pinned_number_def)

lemma resolve_pin_ok:
  assumes "db_inv S db" "resolve_pin bid pin db = Inr p" "br_pinned_version_id r = p" "br_board_id r = bid"
  shows "pin_ok db r" "pinned_number r db = pin"
proof -
  have k: "keys_ok db" using assms(1) by (simp add: db_inv_def)
  have "pin_ok db r \<and> pinned_number r db = pin"
  proof (cases pin)
    case None
    with assms(2,3) have "br_pinned_version_id r = None" by (simp add: resolve_pin_def)
    with None show ?thesis by (simp add: pin_ok_def pinned_number_def find_None_iff)
  next
    case (Some num)
    then obtain v where v: "find_version bid num db = Some v" "p = Some (v_id v)"
      using assms(2) by (auto simp: resolve_pin_def)
    note w = find_version_Some [OF v(1)]
    have "pin_ok db r" using w v(2) assms(3,4) by (auto simp: pin_ok_def version_keys_def)
    moreover have "pinned_number r db = pin"
      using pinned_number_eq [OF k, of v r] w v(2) assms(3) Some by simp
    ultimately show ?thesis ..
  qed
  then show "pin_ok db r" "pinned_number r db = pin" by simp_all
qed

lemma references_create_inv:
  assumes "db_inv S db" "references_create S bid inp db = Inr (r, db')"
  shows "db_inv S db'"
proof -
  obtain pin where p: "resolve_pin bid (cr_pinned_version_number inp) db = Inr pin"
      "insert_reference (new_reference S bid pin inp db) db = Inr db'"
    using assms(2) by (auto simp: references_create_eq Let_def)
  show ?thesis
    by (rule insert_reference_inv [OF assms(1) p(2)])
      (simp_all add: new_reference_def resolve_pin_ok [OF assms(1) p(1)])
qed

lemma references_delete_inv:
  assumes "db_inv S db" "references_delete bid rid db = Inr db'"
  shows "db_inv S db'"
proof -
  have "db' = db\<lparr>board_references := filter (\<lambda>r. \<not> (br_id r = rid \<and> br_board_id r = bid)) (board_references db)\<rparr>"
    using assms(2) by (auto simp: references_delete_def Let_def)
  then show ?thesis using assms(1)
    by (auto simp: db_inv_def keys_ok_def checks_ok_def refs_ok_def same_board_def pin_ok_def
      version_keys_def entry_keys_def ids_ok_def all_ids_def distinct_map_filter split: option.splits)
qed

section \<open>Paginated listing\<close>

lemma view_reference_fields [simp]:
  "br_id (view_reference db r) = br_id r" "br_created_at (view_reference db r) = br_created_at r"
  "br_board_id (view_reference db r) = br_board_id r" "br_uri (view_reference db r) = br_uri r"
  "rv_pinned_version_number (view_reference db r) = pinned_number r db"
  by (simp_all add: view_reference_def board_reference.defs)

interpretation reference_listing: keyset_listing "db_inv S" "references_of bid" reference_cursor Asc
    "\<lambda>C. references_list_paginated C bid"
  for S :: svc and bid :: uuid
proof
  show "distinct (map reference_cursor (references_of bid d))" if "db_inv S d" for d
  proof -
    have "distinct (map br_id (board_references d))" using that by (simp add: db_inv_def keys_ok_def)
    then have "distinct (map br_id (filter (\<lambda>r. br_board_id r = bid) (board_references d)))"
      by (rule distinct_map_filter)
    then have "distinct (map (cursor_id \<circ> reference_cursor) (references_of bid d))"
      by (simp add: reference_cursor_def references_of_def comp_def)
    then show ?thesis by (simp add: distinct_map inj_on_def)
  qed
qed (simp add: references_list_paginated_def)

section \<open>Properties\<close>

lemma insert_reference_ok:
  assumes "svc_ok S" "db_inv S db" "br_id r = next_id S db" "reference_check r"
    "br_board_id r \<in> b_id ` set (boards db)" "pin_ok db r"
  shows "insert_reference r db = Inr (db\<lparr>board_references := board_references db @ [r], drawn := Suc (drawn db)\<rparr>)"
proof -
  have "br_id r \<notin> br_id ` set (board_references db)"
    using next_id_fresh [OF assms(1)] assms(2,3) by (auto simp: db_inv_def all_ids_def)
  with assms(4-6) show ?thesis
    by (auto simp: insert_reference_def pin_ok_def version_keys_def split: option.splits)
qed

definition sample_reference :: create_reference where
  "sample_reference =
     \<lparr>cr_pinned_version_number = Some 1, cr_uri = ''paper'', cr_ref_type = ''citation'', cr_label = None\<rparr>"

text \<open>
  Creating a reference on an existing board. A field that breaks a rule is a validation error,
  a pinned number the board has no version for is not found, and otherwise the reference is stored
  last, returned with the very number that was asked for, and listed with it; deleting it takes
  exactly this reference away again.
\<close>

theorem reference_pinned:
  assumes "svc_ok S" "db_inv S db" "bid \<in> b_id ` set (boards db)"
  shows "if \<not> create_reference_ok inp then \<exists>m. references_create S bid inp db = Inl (Validation m)
    else if \<exists>n. cr_pinned_version_number inp = Some n \<and> find_version bid n db = None
    then \<exists>m. references_create S bid inp db = Inl (NotFound m)
    else \<exists>r db'. references_create S bid inp db = Inr (r, db') \<and> db_inv S db' \<and>
      rv_pinned_version_number r = cr_pinned_version_number inp \<and> br_uri r = cr_uri inp \<and>
      references_of bid db' = references_of bid db @ [r] \<and>
      (\<exists>db''. references_delete bid (br_id r) db' = Inr db'' \<and> board_references db'' = board_references db)"
proof (cases "create_reference_ok inp")
  case False
  with check_reference_errs [OF False] show ?thesis by (auto simp: references_create_eq)
next
  case True
  then have c: "check_reference inp = Inr ()" by (simp add: check_reference_iff)
  show ?thesis
  proof (cases "resolve_pin bid (cr_pinned_version_number inp) db")
    case (Inl e)
    then obtain n where n: "cr_pinned_version_number inp = Some n" "find_version bid n db = None"
        "e = NotFound [Lit ''version '', Num n, Lit '' not found on this board'']"
      by (cases "cr_pinned_version_number inp") (auto simp: resolve_pin_def rbind_eq_Inl)
    then have "references_create S bid inp db = Inl e" using c Inl by (simp add: references_create_eq)
    with True n show ?thesis by auto
  next
    case (Inr pin)
    let ?r = "new_reference S bid pin inp db"
    let ?db = "db\<lparr>board_references := board_references db @ [?r], drawn := Suc (drawn db)\<rparr>"
    have f: "br_pinned_version_id ?r = pin" "br_board_id ?r = bid" "br_id ?r = next_id S db" "br_uri ?r = cr_uri inp"
      by (simp_all add: new_reference_def)
    note p = resolve_pin_ok [OF assms(2) Inr f(1,2)]
    have "reference_check ?r" using True by (simp add: reference_check_def create_reference_ok_def new_reference_def)
    from insert_reference_ok [OF assms(1,2) f(3) this _ p(1)] assms(3) f(2)
    have eq: "references_create S bid inp db = Inr (view_reference ?db ?r, ?db)"
      using c Inr by (simp add: references_create_eq Let_def)
    have fresh: "next_id S db \<notin> br_id ` set (board_references db)"
      using next_id_fresh [OF assms(1)] assms(2) by (auto simp: db_inv_def all_ids_def)
    have same: "view_reference ?db = view_reference db" "pinned_number ?r ?db = pinned_number ?r db"
      by (simp_all add: fun_eq_iff view_reference_def pinned_number_def)
    have l: "references_of bid ?db = references_of bid db @ [view_reference ?db ?r]"
      using f(2) by (simp add: references_of_def same)
    have "filter (\<lambda>r. \<not> (br_id r = next_id S db \<and> br_board_id r = bid)) (board_references db) = board_references db"
      using fresh by (force simp: filter_id_conv)
    then have d: "\<exists>db''. references_delete bid (br_id (view_reference ?db ?r)) ?db = Inr db'' \<and>
        board_references db'' = board_references db"
      using f by (simp add: references_delete_def Let_def)
    have n: "\<not> (\<exists>n. cr_pinned_version_number inp = Some n \<and> find_version bid n db = None)"
      using Inr by (auto simp: resolve_pin_def)
    show ?thesis
      unfolding if_not_P [OF n] using True
      by (simp only: not_True_eq_False if_False)
        (intro exI [of _ "view_reference ?db ?r"] exI [of _ ?db] conjI eq l d references_create_inv [OF assms(2) eq];
          simp add: same p(2) f(4))
  qed
qed

theorem reference_pinned_witness:
  "\<exists>vp db r db'. versions_create sample_svc plain_board sample_version_input None plain_db = Inr (vp, db) \<and>
     references_create sample_svc (b_id sample_row) sample_reference db = Inr (r, db') \<and>
     db_inv sample_svc db' \<and> rv_pinned_version_number r = Some 1"
proof -
  obtain vp db where c: "versions_create sample_svc plain_board sample_version_input None plain_db = Inr (vp, db)"
    using plain_create_ok unfolding is_ok_iff by (metis surj_pair)
  note out = plain_created [OF c]
  have b: "b_id sample_row \<in> b_id ` set (boards db)" by (simp add: out)
  have r: "create_reference_ok sample_reference" "cr_pinned_version_number sample_reference = Some 1"
    by (simp_all add: create_reference_ok_def sample_reference_def)
  have "find_version (b_id sample_row) 1 db = Some (vp_version vp)" by (simp add: find_version_def out)
  then have n: "\<not> (\<exists>n. cr_pinned_version_number sample_reference = Some n \<and> find_version (b_id sample_row) n db = None)"
    using r(2) by simp
  from reference_pinned [OF sample_svc_ok out(1) b, of sample_reference, unfolded if_not_P [OF n]] r c
  show ?thesis by auto
qed

end
