(* ===== verification/Scores.thy ===== *)
theory Scores
  imports Versions
begin

text \<open>
  \<open>repo/scores.rs\<close>: the scores of accumulative boards. A submission replaces the score of its
  entry; a snapshot publishes the current scores as a ranked version.
\<close>

section \<open>Submission\<close>

definition scores_submit :: "svc \<Rightarrow> board \<Rightarrow> submit_score \<Rightarrow> db \<Rightarrow> (accumulated_score \<times> db) result" where
  "scores_submit S board inp db =
     rbind (reject_if (\<not> b_accumulative board)
              (Validation [Lit ''score submission is only allowed on accumulative boards''])) (\<lambda>_.
     rbind (reject_if (b_board_type board \<noteq> ''scored'')
              (Validation [Lit ''score submission is only allowed on scored boards''])) (\<lambda>_.
     rbind (reject_if (f64_is_nan (ss_score inp) \<or> f64_is_infinite (ss_score inp))
              (Validation [Lit ''score must be a finite number''])) (\<lambda>_.
     rbind (validate_slug (ss_entry_slug inp)) (\<lambda>_.
     rbind (validate_name (ss_entry_name inp)) (\<lambda>_.
     rbind (upsert_entry S (tx_now S db) (b_id board) (ss_entry_slug inp) (ss_entry_name inp) db) (\<lambda>(entry_id, db1).
     upsert_score S (tx_now S db) (b_id board) entry_id (ss_score inp) db1))))))"

section \<open>Publishing a list of scores\<close>

definition score_row :: "uuid \<times> f64 \<Rightarrow> placement_values" where
  "score_row x =
     \<lparr>pl_entry_id = fst x, pl_position = None, pl_score = Some (snd x), pl_tier = None, pl_metadata = None\<rparr>"

text \<open>The final SELECT of a snapshot: by position, then name.\<close>

definition snapshot_order :: "svc \<Rightarrow> placement_with_entry \<Rightarrow> int \<times> string" where
  "snapshot_order S p = (unwrap_or (p_position p) 2147483647, collation S (pe_entry_name p))"

definition fetch_ranked :: "svc \<Rightarrow> uuid \<Rightarrow> db \<Rightarrow> placement_with_entry list" where
  "fetch_ranked S vid db = sort_key (snapshot_order S) (joined_placements vid db)"

definition check_max_entries :: "int option \<Rightarrow> 'a list \<Rightarrow> unit result" where
  "check_max_entries max_entries xs =
     (case max_entries of
        None \<Rightarrow> Inr ()
      | Some m \<Rightarrow>
          reject_if (m < int (length xs))
            (Validation [Lit ''too many entries to snapshot ('', Num (int (length xs)), Lit '', max '', Num m, Lit '')'']))"

text \<open>From the version number on, a snapshot is this transaction.\<close>

definition publish_scores ::
  "svc \<Rightarrow> board \<Rightarrow> string option \<Rightarrow> json option \<Rightarrow> (uuid \<times> f64) list \<Rightarrow> db \<Rightarrow> (version_with_placements \<times> db) result" where
  "publish_scores S board nt mt scores db =
     rbind (next_number (b_id board) db) (\<lambda>n.
     rbind (insert_new_version S (b_id board) n nt mt db) (\<lambda>(version, db1).
     rbind (insert_placements S (v_id version) (map score_row scores) db1) (\<lambda>(rows, db2).
     rbind (derive_scored_positions (v_id version) (b_sort_direction board) db2) (\<lambda>db3.
     Inr (\<lparr>vp_version = version, vp_placements = fetch_ranked S (v_id version) db3\<rparr>, db3)))))"

text \<open>\<open>accumulated_scores a JOIN entries e\<close> of the board.\<close>

definition board_scores :: "uuid \<Rightarrow> db \<Rightarrow> (uuid \<times> f64) list" where
  "board_scores bid db =
     concat (map (\<lambda>a. map (\<lambda>e. (a_entry_id a, a_score a)) (filter (\<lambda>e. e_id e = a_entry_id a) (entries db)))
       (filter (\<lambda>a. a_board_id a = bid) (accumulated_scores db)))"

definition scores_snapshot ::
  "svc \<Rightarrow> board \<Rightarrow> string option \<Rightarrow> json option \<Rightarrow> int option \<Rightarrow> int option \<Rightarrow> db \<Rightarrow>
   (version_with_placements \<times> db) result" where
  "scores_snapshot S board0 nt mt max_versions max_entries db =
     rbind (reject_if (\<not> b_accumulative board0)
              (Validation [Lit ''snapshot is only allowed on accumulative boards''])) (\<lambda>_.
     rbind (reject_if (b_board_type board0 \<noteq> ''scored'')
              (Validation [Lit ''snapshot is only allowed on scored boards''])) (\<lambda>_.
     rbind (lock_board (b_id board0) db) (\<lambda>board.
     rbind (check_max_versions max_versions (b_id board) db) (\<lambda>_.
     let scores = board_scores (b_id board) db in
     rbind (reject_if (scores = []) (Validation [Lit ''no accumulated scores to snapshot''])) (\<lambda>_.
     rbind (check_max_entries max_entries scores) (\<lambda>_.
     publish_scores S board nt mt scores db))))))"

section \<open>What publishing does\<close>

lemma score_row_ids: "map pl_entry_id (map score_row xs) = map fst xs"
  by (simp add: score_row_def comp_def)

lemma placement_rows_scores:
  "map (\<lambda>p. (p_entry_id p, p_score p)) (placement_rows S n vid (map score_row xs)) = map (\<lambda>x. (fst x, Some (snd x))) xs"
  by (induction xs arbitrary: n) (simp_all add: score_row_def placement_row_def)

text \<open>The rows of the list are entries of the board, each at most once.\<close>

definition scores_ok :: "uuid \<Rightarrow> (uuid \<times> f64) list \<Rightarrow> db \<Rightarrow> bool" where
  "scores_ok bid xs db \<longleftrightarrow> (\<forall>x \<in> set xs. (fst x, bid) \<in> entry_keys db) \<and> distinct (map fst xs)"

lemma publish_scores_steps:
  assumes "svc_ok S" "db_inv S db" "b \<in> set (boards db)" "scores_ok (b_id b) xs db"
    and "publish_scores S b nt mt xs db = Inr (vp, db')"
  obtains n ps where "next_number (b_id b) db = Inr n" "vp_version vp = new_version S (b_id b) n nt mt db"
    "ps = placement_rows S (Suc (drawn db)) (v_id (vp_version vp)) (map score_row xs)"
    "derive_scored_positions (v_id (vp_version vp)) (b_sort_direction b)
       (add_placements ps (add_version (vp_version vp) db)) = Inr db'"
    "vp_placements vp = fetch_ranked S (v_id (vp_version vp)) db'"
    "db_inv S (add_placements ps (add_version (vp_version vp) db))"
    "published db (b_id b) (vp_version vp) (add_placements ps (add_version (vp_version vp) db))"
    "filter (\<lambda>p. p_version_id p = v_id (vp_version vp))
       (placements (add_placements ps (add_version (vp_version vp) db))) = ps"
    "v_id (vp_version vp) \<notin> v_id ` set (versions db)"
proof -
  obtain n where n: "next_number (b_id b) db = Inr n"
    using assms(5) by (auto simp: publish_scores_def)
  have bid: "b_id b \<in> b_id ` set (boards db)" using assms(3) by simp
  let ?v = "new_version S (b_id b) n nt mt db"
  have ek: "\<forall>r \<in> set (map score_row xs). (pl_entry_id r, b_id b) \<in> entry_keys db"
    using assms(4) by (auto simp: scores_ok_def score_row_def)
  have dist: "distinct (map pl_entry_id (map score_row xs))"
    unfolding score_row_ids using assms(4) by (simp add: scores_ok_def)
  note pub = publish_insert [OF assms(1,2) bid n ek dist, of nt mt]
  have steps: "publish_scores S b nt mt xs db =
      rbind (derive_scored_positions (v_id ?v) (b_sort_direction b)
        (add_placements (placement_rows S (Suc (drawn db)) (v_id ?v) (map score_row xs)) (add_version ?v db))) (\<lambda>db3.
      Inr (\<lparr>vp_version = ?v, vp_placements = fetch_ranked S (v_id ?v) db3\<rparr>, db3))"
    by (simp only: publish_scores_def n rbind_Inr insert_new_version_eq(1) [OF assms(1,2) bid n] prod.case pub(1))
  with assms(5) obtain db3 where d: "derive_scored_positions (v_id ?v) (b_sort_direction b)
        (add_placements (placement_rows S (Suc (drawn db)) (v_id ?v) (map score_row xs)) (add_version ?v db)) = Inr db3"
      and vp: "vp = \<lparr>vp_version = ?v, vp_placements = fetch_ranked S (v_id ?v) db3\<rparr>" "db3 = db'"
    by auto
  show thesis
    by (rule that [OF n _ refl]) (use vp d pub in simp_all)
qed

lemma publish_scores_contract:
  assumes "svc_ok S" "db_inv S db" "b \<in> set (boards db)" "scores_ok (b_id b) xs db"
    and "publish_scores S b nt mt xs db = Inr (vp, db')"
  shows "db_inv S db' \<and> published db (b_id b) (vp_version vp) db'"
  by (rule publish_scores_steps [OF assms]) (blast intro: derive_inv publish_derive)

lemma derived_positions:
  assumes "keys_ok db1" "db_inv S db2" "derive_scored_positions vid sd db1 = Inr db2"
  shows "mset (map p_position (joined_placements vid db2)) =
    mset (map (\<lambda>i. Some (1 + int i)) [0..<length (filter (\<lambda>p. p_version_id p = vid) (placements db1))])"
proof -
  obtain rows where r: "is_ranking sd rows" "mset (filter (\<lambda>p. p_version_id p = vid) (placements db2)) = mset rows"
      "mset (map unranked rows) = mset (map unranked (filter (\<lambda>p. p_version_id p = vid) (placements db1)))"
    by (rule derive_ranking [OF assms(1,3)])
  have "mset (map p_position (joined_placements vid db2)) = mset (map p_position rows)"
    using arg_cong [OF r(2), of "image_mset p_position"]
    by (simp add: joined_placements_eq [OF assms(2)] with_entry_def comp_def)
  moreover have "length rows = length (filter (\<lambda>p. p_version_id p = vid) (placements db1))"
    using arg_cong [OF r(3), of size] by (simp only: size_mset length_map)
  ultimately show ?thesis using r(1) by (simp only: is_ranking_def)
qed

lemma snapshot_order_position:
  "snapshot_order S p \<le> snapshot_order S q \<Longrightarrow> unwrap_or (p_position p) 2147483647 \<le> unwrap_or (p_position q) 2147483647"
  unfolding snapshot_order_def less_eq_prod_def by (simp, linarith)

text \<open>The published rows are the given scores, ranked, and are returned in rank order.\<close>

lemma publish_scores_ranked:
  assumes "svc_ok S" "db_inv S db" "b \<in> set (boards db)" "scores_ok (b_id b) xs db"
    and "publish_scores S b nt mt xs db = Inr (vp, db')"
  shows "\<exists>rows. is_ranking (b_sort_direction b) rows \<and>
    mset (filter (\<lambda>p. p_version_id p = v_id (vp_version vp)) (placements db')) = mset rows \<and>
    mset (map (\<lambda>p. (p_entry_id p, p_score p)) rows) = mset (map (\<lambda>x. (fst x, Some (snd x))) xs)"
    and "map p_position (vp_placements vp) = map (\<lambda>i. Some (1 + int i)) [0..<length xs]"
proof -
  obtain n ps where s: "vp_version vp = new_version S (b_id b) n nt mt db"
      "ps = placement_rows S (Suc (drawn db)) (v_id (vp_version vp)) (map score_row xs)"
      "vp_placements vp = fetch_ranked S (v_id (vp_version vp)) db'"
    and d: "derive_scored_positions (v_id (vp_version vp)) (b_sort_direction b)
       (add_placements ps (add_version (vp_version vp) db)) = Inr db'"
    and i: "db_inv S (add_placements ps (add_version (vp_version vp) db))"
    and f: "filter (\<lambda>p. p_version_id p = v_id (vp_version vp))
       (placements (add_placements ps (add_version (vp_version vp) db))) = ps"
    by (rule publish_scores_steps [OF assms])
  have k: "keys_ok (add_placements ps (add_version (vp_version vp) db))" using i by (simp add: db_inv_def)
  have len: "length ps = length xs" by (simp add: s(2))
  obtain rows where r: "is_ranking (b_sort_direction b) rows"
      "mset (filter (\<lambda>p. p_version_id p = v_id (vp_version vp)) (placements db')) = mset rows"
      "mset (map unranked rows) = mset (map unranked ps)"
    by (rule derive_ranking [OF k d, unfolded f])
  let ?pair = "\<lambda>p. (p_entry_id p, p_score p)"
  have "mset (map ?pair qs) = image_mset ?pair (mset (map unranked qs))" for qs
    by (simp add: image_mset.compositionality comp_def unranked_def)
  then have "mset (map ?pair rows) = mset (map ?pair ps)" using r(3) by simp
  then show "\<exists>rows. is_ranking (b_sort_direction b) rows \<and>
    mset (filter (\<lambda>p. p_version_id p = v_id (vp_version vp)) (placements db')) = mset rows \<and>
    mset (map ?pair rows) = mset (map (\<lambda>x. (fst x, Some (snd x))) xs)"
    by (intro exI [of _ rows] conjI r(1,2)) (simp only: s(2) placement_rows_scores)
  have "map p_position (sort_key (snapshot_order S) (joined_placements (v_id (vp_version vp)) db')) =
      map (\<lambda>i. Some (1 + int i)) [0..<length xs]"
    using derived_positions [OF k derive_inv [OF i d] d] unfolding f len
    by (intro sorted_numbered snapshot_order_position)
  then show "map p_position (vp_placements vp) = map (\<lambda>i. Some (1 + int i)) [0..<length xs]"
    by (simp only: s(3) fetch_ranked_def)
qed

lemma publish_scores_is_ok:
  assumes "svc_ok S" "db_inv S db" "b \<in> set (boards db)" "scores_ok (b_id b) xs db"
  shows "is_ok (publish_scores S b nt mt xs db) \<longleftrightarrow> max_number (b_id b) db < i32_max \<and> int (length xs) \<le> i32_max"
proof (cases "next_number (b_id b) db")
  case (Inl e)
  moreover have "checks_ok db" using assms(2) by (simp add: db_inv_def)
  ultimately have "\<not> max_number (b_id b) db < i32_max"
    using max_number_bounds [of db "b_id b"]
    by (auto simp: next_number_def in_i32_def i32_min_def i32_max_def split: if_splits)
  with Inl show ?thesis by (simp add: publish_scores_def)
next
  case (Inr n)
  have c: "checks_ok db" using assms(2) by (simp add: db_inv_def)
  have bid: "b_id b \<in> b_id ` set (boards db)" using assms(3) by simp
  let ?v = "new_version S (b_id b) n nt mt db"
  have ek: "\<forall>r \<in> set (map score_row xs). (pl_entry_id r, b_id b) \<in> entry_keys db"
    using assms(4) by (auto simp: scores_ok_def score_row_def)
  have dist: "distinct (map pl_entry_id (map score_row xs))"
    unfolding score_row_ids using assms(4) by (simp add: scores_ok_def)
  note pub = publish_insert [OF assms(1,2) bid Inr ek dist, of nt mt]
  let ?db2 = "add_placements (placement_rows S (Suc (drawn db)) (v_id ?v) (map score_row xs)) (add_version ?v db)"
  have steps: "publish_scores S b nt mt xs db =
      rbind (derive_scored_positions (v_id ?v) (b_sort_direction b) ?db2) (\<lambda>db3.
      Inr (\<lparr>vp_version = ?v, vp_placements = fetch_ranked S (v_id ?v) db3\<rparr>, db3))"
    by (simp only: publish_scores_def Inr rbind_Inr insert_new_version_eq(1) [OF assms(1,2) bid Inr] prod.case pub(1))
  have "length (ranked (b_sort_direction b) (v_id ?v) ?db2) = length xs"
    using pub(4) by (simp add: ranked_def)
  then show ?thesis
    using next_number_Inr [OF c, of "b_id b" n] Inr
    unfolding steps by (simp add: derive_scored_positions_def Let_def)
qed

section \<open>The scores of a board\<close>

lemma score_entry:
  assumes "db_inv S db" "a \<in> set (accumulated_scores db)"
  shows "filter (\<lambda>e. e_id e = a_entry_id a) (entries db) = [entry_of db (a_entry_id a)]"
    "e_id (entry_of db (a_entry_id a)) = a_entry_id a" "e_board_id (entry_of db (a_entry_id a)) = a_board_id a"
    "entry_of db (a_entry_id a) \<in> set (entries db)"
proof -
  have k: "keys_ok db" using assms(1) by (simp add: db_inv_def)
  have "(a_entry_id a, a_board_id a) \<in> entry_keys db" using assms by (auto simp: db_inv_def refs_ok_def)
  then obtain e where e: "e \<in> set (entries db)" "e_id e = a_entry_id a" "e_board_id e = a_board_id a"
    unfolding entry_keys_def by auto
  from entry_of_eq [OF k e(1)] e(2) have "entry_of db (a_entry_id a) = e" by simp
  moreover have "filter (\<lambda>x. e_id x = e_id e) (entries db) = [e]" using keys_okD(3) [OF k] e(1) by (rule filter_by_key)
  ultimately show "filter (\<lambda>e. e_id e = a_entry_id a) (entries db) = [entry_of db (a_entry_id a)]"
    "e_id (entry_of db (a_entry_id a)) = a_entry_id a" "e_board_id (entry_of db (a_entry_id a)) = a_board_id a"
    "entry_of db (a_entry_id a) \<in> set (entries db)"
    using e by simp_all
qed

lemma board_scores_eq:
  assumes "db_inv S db"
  shows "board_scores bid db =
    map (\<lambda>a. (a_entry_id a, a_score a)) (filter (\<lambda>a. a_board_id a = bid) (accumulated_scores db))"
  unfolding board_scores_def
  by (rule concat_map_single) (simp add: score_entry [OF assms])

lemma board_scores_ok:
  assumes "db_inv S db"
  shows "scores_ok bid (board_scores bid db) db"
proof -
  let ?as = "filter (\<lambda>a. a_board_id a = bid) (accumulated_scores db)"
  have k: "keys_ok db" using assms by (simp add: db_inv_def)
  have "(a_entry_id a, bid) \<in> entry_keys db" if "a \<in> set ?as" for a
    using assms that by (auto simp: db_inv_def refs_ok_def)
  moreover have "distinct (map (\<lambda>a. (a_board_id a, a_entry_id a)) ?as)"
    using keys_okD(9) [OF k] by (rule distinct_map_filter)
  then have "distinct (map a_entry_id ?as)"
    by (auto simp: distinct_map inj_on_def)
  ultimately show ?thesis by (simp add: scores_ok_def board_scores_eq [OF assms] comp_def)
qed

lemma scores_snapshot_steps:
  assumes "scores_snapshot S b0 nt mt mv me db = Inr (vp, db')"
  obtains b where "find (\<lambda>b. b_id b = b_id b0) (boards db) = Some b" "b \<in> set (boards db)" "b_id b = b_id b0"
    "publish_scores S b nt mt (board_scores (b_id b) db) db = Inr (vp, db')" "board_scores (b_id b) db \<noteq> []"
proof -
  from assms obtain b where "find (\<lambda>b. b_id b = b_id b0) (boards db) = Some b"
      "publish_scores S b nt mt (board_scores (b_id b) db) db = Inr (vp, db')" "board_scores (b_id b) db \<noteq> []"
    by (auto simp: scores_snapshot_def Let_def lock_board_def)
  moreover from this(1) have "b \<in> set (boards db)" "b_id b = b_id b0" by (auto dest: find_Some_in)
  ultimately show thesis using that by blast
qed

lemma scores_snapshot_contract:
  assumes "svc_ok S" "db_inv S db" "scores_snapshot S b0 nt mt mv me db = Inr (vp, db')"
  shows "db_inv S db' \<and> published db (b_id b0) (vp_version vp) db'"
proof -
  obtain b where b: "find (\<lambda>b. b_id b = b_id b0) (boards db) = Some b" "b \<in> set (boards db)" "b_id b = b_id b0"
    "publish_scores S b nt mt (board_scores (b_id b) db) db = Inr (vp, db')" "board_scores (b_id b) db \<noteq> []"
    by (rule scores_snapshot_steps [OF assms(3)])
  from publish_scores_contract [OF assms(1,2) b(2) board_scores_ok [OF assms(2)] b(4)] b(3) show ?thesis by simp
qed

interpretation snapshot_writer: version_writer "\<lambda>d. svc_ok S \<and> db_inv S d" "\<lambda>(b, _, _, _, _). b_id b"
    "\<lambda>(b, nt, mt, mv, me). scores_snapshot S b nt mt mv me"
  for S :: svc
proof
  fix d d' :: db and i :: "board \<times> string option \<times> json option \<times> int option \<times> int option" and r
  obtain b nt mt mv me where i: "i = (b, nt, mt, mv, me)" by (cases i)
  assume "svc_ok S \<and> db_inv S d"
    "(case i of (b, nt, mt, mv, me) \<Rightarrow> scores_snapshot S b nt mt mv me) d = Inr (r, d')"
  then have "svc_ok S" "db_inv S d" "scores_snapshot S b nt mt mv me d = Inr (r, d')" by (simp_all add: i)
  from scores_snapshot_contract [OF this] \<open>svc_ok S\<close>
  show "svc_ok S \<and> db_inv S d'" "\<exists>v. published d (case i of (b, _, _, _, _) \<Rightarrow> b_id b) v d'"
    by (auto simp: i)
qed

section \<open>Submitting\<close>

definition submit_ok :: "board \<Rightarrow> submit_score \<Rightarrow> bool" where
  "submit_ok b inp \<longleftrightarrow>
     b_accumulative b \<and> b_board_type b = ''scored'' \<and> f64_is_finite (ss_score inp) \<and>
     slug_ok (ss_entry_slug inp) \<and> name_ok (ss_entry_name inp)"

lemma scores_submit_Inr:
  "scores_submit S b inp db = Inr (a, db') \<longleftrightarrow> submit_ok b inp \<and>
     (\<exists>eid db1. upsert_entry S (tx_now S db) (b_id b) (ss_entry_slug inp) (ss_entry_name inp) db = Inr (eid, db1) \<and>
        upsert_score S (tx_now S db) (b_id b) eid (ss_score inp) db1 = Inr (a, db'))"
  by (auto simp: scores_submit_def submit_ok_def f64_finite_iff)

lemma scores_submit_inv:
  assumes "db_inv S db" "scores_submit S b inp db = Inr (a, db')"
  shows "db_inv S db'"
proof -
  from assms(2) obtain eid db1 where
      e: "upsert_entry S (tx_now S db) (b_id b) (ss_entry_slug inp) (ss_entry_name inp) db = Inr (eid, db1)"
      and a: "upsert_score S (tx_now S db) (b_id b) eid (ss_score inp) db1 = Inr (a, db')"
    by (auto simp: scores_submit_Inr)
  show ?thesis
    by (rule upsert_score_inv [OF upsert_entry_inv [OF assms(1) e] a upsert_entry_key [OF e]])
qed

text \<open>What an upsert of an entry leaves: the entry under that slug has the name; nothing else moved.\<close>

lemma upsert_entry_spec:
  assumes "svc_ok S" "db_inv S db" "bid \<in> b_id ` set (boards db)"
  shows "\<exists>e db1. upsert_entry S t bid slug name db = Inr (e_id e, db1) \<and> db_inv S db1 \<and>
    find_entry bid slug db1 = Some e \<and> e_name e = name \<and>
    filter (\<lambda>x. e_id x \<noteq> e_id e) (entries db1) = filter (\<lambda>x. e_id x \<noteq> e_id e) (entries db) \<and>
    (find_entry bid slug db \<noteq> None \<longrightarrow> e_id e = e_id (the (find_entry bid slug db))) \<and>
    boards db1 = boards db \<and> versions db1 = versions db \<and> placements db1 = placements db \<and>
    accumulated_scores db1 = accumulated_scores db"
proof (cases "find_entry bid slug db")
  case None
  let ?e = "\<lparr>e_id = next_id S db, e_board_id = bid, e_slug = slug, e_name = name, e_metadata = None,
      e_created_at = t, e_updated_at = t\<rparr>"
  have fresh: "next_id S db \<notin> e_id ` set (entries db)"
    using next_id_fresh [OF assms(1)] assms(2) by (auto simp: db_inv_def all_ids_def)
  have u: "upsert_entry S t bid slug name db =
      Inr (e_id ?e, db\<lparr>entries := entries db @ [?e], drawn := Suc (drawn db)\<rparr>)"
    using None [unfolded find_entry_None] fresh assms(3) None [unfolded find_entry_def]
    by (simp add: upsert_entry_def insert_entry_def)
  have inv: "db_inv S (db\<lparr>entries := entries db @ [?e], drawn := Suc (drawn db)\<rparr>)"
    by (rule upsert_entry_inv [OF assms(2) u])
  have "find_entry bid slug (db\<lparr>entries := entries db @ [?e], drawn := Suc (drawn db)\<rparr>) = Some ?e"
    by (rule find_entry_eq) (use inv in \<open>simp_all add: db_inv_def\<close>)
  with u inv None show ?thesis by (intro exI [of _ ?e] exI) auto
next
  case (Some e)
  note f = find_entry_Some [OF Some]
  let ?f = "\<lambda>x. x\<lparr>e_name := name, e_updated_at := t\<rparr>"
  let ?db = "db\<lparr>entries := update_where (\<lambda>x. e_id x = e_id e) ?f (entries db)\<rparr>"
  have u: "upsert_entry S t bid slug name db = Inr (e_id e, ?db)"
    using Some by (simp add: upsert_entry_def find_entry_def)
  have inv: "db_inv S ?db" by (rule upsert_entry_inv [OF assms(2) u])
  have "?f e \<in> set (entries ?db)" using f by (auto simp: set_update_where)
  then have "find_entry bid slug ?db = Some (?f e)"
    by (intro find_entry_eq) (use inv f in \<open>simp_all add: db_inv_def\<close>)
  with u inv Some filter_update_same(2) [of "\<lambda>x. e_id x = e_id e" ?f "entries db"] show ?thesis
    by (intro exI [of _ "?f e"] exI [of _ ?db]) simp
qed

lemma upsert_score_spec:
  assumes "svc_ok S" "db_inv S db" "(eid, bid) \<in> entry_keys db"
  shows "\<exists>a db1. upsert_score S t bid eid sc db = Inr (a, db1) \<and> db_inv S db1 \<and>
    a \<in> set (accumulated_scores db1) \<and> a_board_id a = bid \<and> a_entry_id a = eid \<and> a_score a = sc \<and>
    filter (\<lambda>x. \<not> (a_board_id x = bid \<and> a_entry_id x = eid)) (accumulated_scores db1) =
    filter (\<lambda>x. \<not> (a_board_id x = bid \<and> a_entry_id x = eid)) (accumulated_scores db) \<and>
    boards db1 = boards db \<and> entries db1 = entries db \<and> versions db1 = versions db \<and> placements db1 = placements db"
proof (cases "find (\<lambda>a. a_board_id a = bid \<and> a_entry_id a = eid) (accumulated_scores db)")
  case None
  let ?a = "\<lparr>a_id = next_id S db, a_board_id = bid, a_entry_id = eid, a_score = sc, a_submitted_at = t\<rparr>"
  have "next_id S db \<notin> a_id ` set (accumulated_scores db)"
    using next_id_fresh [OF assms(1)] assms(2) by (auto simp: db_inv_def all_ids_def)
  moreover have "bid \<in> b_id ` set (boards db)" "eid \<in> e_id ` set (entries db)"
    using entry_keys_boards [OF _ assms(3)] assms(2) by (auto simp: db_inv_def)
  ultimately have u: "upsert_score S t bid eid sc db =
      Inr (?a, db\<lparr>accumulated_scores := accumulated_scores db @ [?a], drawn := Suc (drawn db)\<rparr>)"
    using None by (simp add: upsert_score_def Let_def)
  from upsert_score_inv [OF assms(2) u assms(3)] u show ?thesis by (intro exI) auto
next
  case (Some b)
  then have b: "b \<in> set (accumulated_scores db)" "a_board_id b = bid" "a_entry_id b = eid"
    by (auto dest: find_Some_in)
  have k: "keys_ok db" using assms(2) by (simp add: db_inv_def)
  let ?f = "\<lambda>x. x\<lparr>a_score := sc, a_submitted_at := t\<rparr>"
  have u: "upsert_score S t bid eid sc db = Inr (?f b,
      db\<lparr>accumulated_scores := update_where (\<lambda>x. a_id x = a_id b) ?f (accumulated_scores db)\<rparr>)"
    using Some by (simp add: upsert_score_def)
  have "a_id x = a_id b \<longleftrightarrow> a_board_id x = bid \<and> a_entry_id x = eid" if "x \<in> set (accumulated_scores db)" for x
    using k b that distinct_map_inj [of a_id "accumulated_scores db" x b]
      distinct_map_inj [OF keys_okD(9) [OF k] that b(1)]
    by (auto simp: keys_ok_def)
  then have "update_where (\<lambda>x. a_id x = a_id b) ?f (accumulated_scores db) =
      update_where (\<lambda>x. a_board_id x = bid \<and> a_entry_id x = eid) ?f (accumulated_scores db)"
    by (simp add: update_where_def)
  with u filter_update_same(2) [of "\<lambda>x. a_board_id x = bid \<and> a_entry_id x = eid" ?f "accumulated_scores db"]
    upsert_score_inv [OF assms(2) u assms(3)] b
  show ?thesis by (intro exI [of _ "?f b"] exI) (auto simp: set_update_where)
qed

section \<open>Properties\<close>

definition sample_score :: submit_score where
  "sample_score = \<lparr>ss_entry_slug = ''ann'', ss_entry_name = ''Ann'', ss_score = 0\<rparr>"

lemma sample_submit_ok [simp]: "submit_ok sample_row sample_score"
  by (simp add: submit_ok_def sample_score_def sample_row_def new_board_def sample_board_def slug_ok_def
      name_ok_def slug_byte_def less_eq_char_def f64_is_finite_def f64_magnitude_def f64_infinity_bits_def)

lemma sample_row_fields [simp]: "b_accumulative sample_row" "b_board_type sample_row = ''scored''"
  by (simp_all add: sample_row_def new_board_def sample_board_def)

lemma sample_row_in [simp]: "sample_row \<in> set (boards sample_db)"
  by (simp add: sample_db_def)

definition score_db :: db where
  "score_db = sample_entry_db\<lparr>accumulated_scores :=
     [\<lparr>a_id = 3, a_board_id = b_id sample_row, a_entry_id = e_id sample_entry_row, a_score = 0, a_submitted_at = 0\<rparr>],
     drawn := 3\<rparr>"

lemma score_db_inv [simp]: "db_inv sample_svc score_db"
proof (rule upsert_score_inv [OF sample_entry_db_inv])
  show "upsert_score sample_svc 0 (b_id sample_row) (e_id sample_entry_row) 0 sample_entry_db =
      Inr (\<lparr>a_id = 3, a_board_id = b_id sample_row, a_entry_id = e_id sample_entry_row, a_score = 0, a_submitted_at = 0\<rparr>,
        score_db)"
    by (simp add: upsert_score_def Let_def score_db_def sample_entry_db_def sample_db_def empty_db_def next_id_def sample_svc_def)
  show "(e_id sample_entry_row, b_id sample_row) \<in> entry_keys sample_entry_db"
    by (simp add: entry_keys_def sample_entry_db_def sample_entry_row_def new_entry_def)
qed

lemma score_db_find: "find (\<lambda>b. b_id b = b_id sample_row) (boards score_db) = Some sample_row"
  by (simp add: score_db_def sample_entry_db_def sample_db_def)

text \<open>
  The entries after a submission for \<open>slug\<close> under \<open>name\<close>: a new row at the end, with no metadata,
  or the row there was with its name and its date replaced and nothing else of it changed.
\<close>

definition entry_put :: "timestamp \<Rightarrow> uuid \<Rightarrow> string \<Rightarrow> string \<Rightarrow> entry list \<Rightarrow> entry \<Rightarrow> entry list \<Rightarrow> bool" where
  "entry_put t bid slug name es e es' \<longleftrightarrow>
     (case find (\<lambda>x. e_board_id x = bid \<and> e_slug x = slug) es of
        None \<Rightarrow> e = \<lparr>e_id = e_id e, e_board_id = bid, e_slug = slug, e_name = name, e_metadata = None,
                    e_created_at = t, e_updated_at = t\<rparr> \<and> es' = es @ [e]
      | Some old \<Rightarrow> e = old\<lparr>e_name := name, e_updated_at := t\<rparr> \<and> es' = map (\<lambda>x. if x = old then e else x) es)"

text \<open>The scores after it: the row of the board and the entry, new or with its score replaced.\<close>

definition score_put ::
  "timestamp \<Rightarrow> uuid \<Rightarrow> uuid \<Rightarrow> f64 \<Rightarrow> accumulated_score list \<Rightarrow> accumulated_score \<Rightarrow> accumulated_score list \<Rightarrow> bool" where
  "score_put t bid eid sc xs a xs' \<longleftrightarrow>
     (case find (\<lambda>x. a_board_id x = bid \<and> a_entry_id x = eid) xs of
        None \<Rightarrow> a = \<lparr>a_id = a_id a, a_board_id = bid, a_entry_id = eid, a_score = sc, a_submitted_at = t\<rparr> \<and>
                xs' = xs @ [a]
      | Some old \<Rightarrow> a = old\<lparr>a_score := sc, a_submitted_at := t\<rparr> \<and> xs' = map (\<lambda>x. if x = old then a else x) xs)"

lemma update_where_map:
  assumes "distinct (map k xs)" "x \<in> set xs"
  shows "update_where (\<lambda>y. k y = k x) f xs = map (\<lambda>y. if y = x then f x else y) xs"
  using assms by (auto simp: update_where_def distinct_map inj_on_def)

lemma upsert_entry_put:
  assumes "keys_ok db" "upsert_entry S t bid slug name db = Inr (eid, db')"
  shows "\<exists>e. e_id e = eid \<and> e_board_id e = bid \<and> e_slug e = slug \<and> entry_put t bid slug name (entries db) e (entries db') \<and>
    db' = db\<lparr>entries := entries db', drawn := drawn db'\<rparr>"
proof (cases "find (\<lambda>x. e_board_id x = bid \<and> e_slug x = slug) (entries db)")
  case None
  with assms(2) show ?thesis
    by (intro exI [of _ "\<lparr>e_id = eid, e_board_id = bid, e_slug = slug, e_name = name, e_metadata = None,
        e_created_at = t, e_updated_at = t\<rparr>"])
      (auto simp: upsert_entry_def entry_put_def insert_entry_def split: if_splits)
next
  case (Some old)
  then have "old \<in> set (entries db)" "e_board_id old = bid" "e_slug old = slug" by (auto dest: find_Some_in)
  with Some assms(2) update_where_map [OF keys_okD(3) [OF assms(1)]] show ?thesis
    by (intro exI [of _ "old\<lparr>e_name := name, e_updated_at := t\<rparr>"]) (auto simp: upsert_entry_def entry_put_def)
qed

lemma upsert_score_put:
  assumes "keys_ok db" "upsert_score S t bid eid sc db = Inr (a, db')"
  shows "score_put t bid eid sc (accumulated_scores db) a (accumulated_scores db') \<and>
    db' = db\<lparr>accumulated_scores := accumulated_scores db', drawn := drawn db'\<rparr>"
proof (cases "find (\<lambda>x. a_board_id x = bid \<and> a_entry_id x = eid) (accumulated_scores db)")
  case None
  with assms(2) show ?thesis by (auto simp: upsert_score_def score_put_def Let_def split: if_splits)
next
  case (Some old)
  then have "old \<in> set (accumulated_scores db)" by (auto dest: find_Some_in)
  with Some assms update_where_map [of a_id "accumulated_scores db" old] show ?thesis
    by (auto simp: upsert_score_def score_put_def keys_ok_def)
qed

lemma submitted_put:
  assumes "keys_ok db" "keys_ok db1" "upsert_entry S (tx_now S db) (b_id b) slug name db = Inr (e_id e, db1)"
    "find_entry (b_id b) slug db1 = Some e"
    "upsert_score S (tx_now S db) (b_id b) (e_id e) sc db1 = Inr (a, db2)"
  shows "entry_put (tx_now S db) (b_id b) slug name (entries db) e (entries db2) \<and>
    score_put (tx_now S db) (b_id b) (e_id e) sc (accumulated_scores db) a (accumulated_scores db2) \<and>
    db2 = db\<lparr>entries := entries db2, accumulated_scores := accumulated_scores db2, drawn := drawn db2\<rparr>"
proof -
  from upsert_entry_put [OF assms(1,3)] obtain e' where
    e': "e_id e' = e_id e" "entry_put (tx_now S db) (b_id b) slug name (entries db) e' (entries db1)"
    and d1: "db1 = db\<lparr>entries := entries db1, drawn := drawn db1\<rparr>" by blast
  have "e' \<in> set (entries db1)"
    using e'(2) by (auto simp: entry_put_def image_iff split: option.splits dest: find_Some_in)
  with find_entry_Some [OF assms(4)] e'(1) keys_okD(3) [OF assms(2)] have "e' = e"
    by (auto dest: distinct_map_inj)
  moreover from upsert_score_put [OF assms(2,5)]
  have a: "score_put (tx_now S db) (b_id b) (e_id e) sc (accumulated_scores db1) a (accumulated_scores db2)"
    and d2: "db2 = db1\<lparr>accumulated_scores := accumulated_scores db2, drawn := drawn db2\<rparr>" by simp_all
  moreover have "db2 = db\<lparr>entries := entries db2, accumulated_scores := accumulated_scores db2, drawn := drawn db2\<rparr> \<and>
      accumulated_scores db1 = accumulated_scores db \<and> entries db2 = entries db1"
    using d1 d2 by (cases db; cases db1; cases db2) simp
  ultimately show ?thesis using e'(2) by metis
qed

text \<open>
  C7: the last submission wins. Submitting a score is refused with a validation error unless the
  board accumulates scores and the score is finite and the slug and name are valid. An accepted
  submission makes sure the entry exists under the given name, as a new row without metadata or by
  changing the name and the date of the row there was and nothing else of it, and sets the one
  score the board keeps for the entry; every other entry and score, and every other table, boards,
  versions, placements, references, collections and memberships, is left as it was.
\<close>

theorem scores_submit_spec:
  assumes "svc_ok S" "db_inv S db" "b \<in> set (boards db)"
  shows "if \<not> submit_ok b inp then \<exists>m. scores_submit S b inp db = Inl (Validation m)
    else \<exists>a e db'. scores_submit S b inp db = Inr (a, db') \<and> db_inv S db' \<and>
      find_entry (b_id b) (ss_entry_slug inp) db' = Some e \<and> e_name e = ss_entry_name inp \<and>
      a \<in> set (accumulated_scores db') \<and> a_board_id a = b_id b \<and> a_entry_id a = e_id e \<and> a_score a = ss_score inp \<and>
      entry_put (tx_now S db) (b_id b) (ss_entry_slug inp) (ss_entry_name inp) (entries db) e (entries db') \<and>
      score_put (tx_now S db) (b_id b) (e_id e) (ss_score inp) (accumulated_scores db) a (accumulated_scores db') \<and>
      db' = db\<lparr>entries := entries db', accumulated_scores := accumulated_scores db', drawn := drawn db'\<rparr>"
proof (cases "submit_ok b inp")
  case False
  let ?E = "range Validation :: error set"
  have "errs_in ?E (rbind (reject_if (\<not> b_accumulative b)
              (Validation [Lit ''score submission is only allowed on accumulative boards''])) (\<lambda>_.
     rbind (reject_if (b_board_type b \<noteq> ''scored'')
              (Validation [Lit ''score submission is only allowed on scored boards''])) (\<lambda>_.
     rbind (reject_if (f64_is_nan (ss_score inp) \<or> f64_is_infinite (ss_score inp))
              (Validation [Lit ''score must be a finite number''])) (\<lambda>_.
     rbind (validate_slug (ss_entry_slug inp)) (\<lambda>_. validate_name (ss_entry_name inp))))))" (is "errs_in ?E ?c")
    by (auto intro!: errs)
  moreover have "?c \<noteq> Inr ()" using False by (auto simp: submit_ok_def f64_finite_iff)
  ultimately obtain m where "?c = Inl (Validation m)" by (cases ?c) (auto simp: errs_in_def)
  then have "scores_submit S b inp db = Inl (Validation m)"
    by (auto simp: scores_submit_def rbind_eq_Inl)
  with False show ?thesis by simp
next
  case True
  have bid: "b_id b \<in> b_id ` set (boards db)" using assms(3) by simp
  from upsert_entry_spec [OF assms(1,2) bid, of "tx_now S db" "ss_entry_slug inp" "ss_entry_name inp"]
  obtain e db1 where e: "upsert_entry S (tx_now S db) (b_id b) (ss_entry_slug inp) (ss_entry_name inp) db = Inr (e_id e, db1)"
      "db_inv S db1" "find_entry (b_id b) (ss_entry_slug inp) db1 = Some e" "e_name e = ss_entry_name inp"
      "filter (\<lambda>x. e_id x \<noteq> e_id e) (entries db1) = filter (\<lambda>x. e_id x \<noteq> e_id e) (entries db)"
      "versions db1 = versions db" "placements db1 = placements db" "accumulated_scores db1 = accumulated_scores db"
    by blast
  from upsert_score_spec [OF assms(1) e(2) upsert_entry_key [OF e(1)], of "tx_now S db" "ss_score inp"]
  obtain a db2 where a: "upsert_score S (tx_now S db) (b_id b) (e_id e) (ss_score inp) db1 = Inr (a, db2)" "db_inv S db2"
      "a \<in> set (accumulated_scores db2)" "a_board_id a = b_id b" "a_entry_id a = e_id e" "a_score a = ss_score inp"
      "filter (\<lambda>x. \<not> (a_board_id x = b_id b \<and> a_entry_id x = e_id e)) (accumulated_scores db2) =
       filter (\<lambda>x. \<not> (a_board_id x = b_id b \<and> a_entry_id x = e_id e)) (accumulated_scores db1)"
      "entries db2 = entries db1" "versions db2 = versions db1" "placements db2 = placements db1"
    by blast
  have "scores_submit S b inp db = Inr (a, db2)" using True e(1) a(1) by (auto simp: scores_submit_Inr)
  moreover have "find_entry (b_id b) (ss_entry_slug inp) db2 = Some e" using e(3) a(8) by (simp add: find_entry_def)
  moreover note submitted_put [OF _ _ e(1,3) a(1)]
  ultimately show ?thesis
    using True a(2-6) e(2,4) assms(2)
    by (intro if_not_P [THEN iffD2] exI [of _ a] exI [of _ e] exI [of _ db2]) (simp_all add: db_inv_def)
qed

theorem scores_submit_spec_witness:
  "\<exists>a e db'. scores_submit sample_svc sample_row sample_score sample_db = Inr (a, db') \<and>
     db_inv sample_svc db' \<and> find_entry (b_id sample_row) ''ann'' db' = Some e \<and> a_entry_id a = e_id e \<and> a_score a = 0 \<and>
     boards db' = boards sample_db \<and> collection_boards db' = collection_boards sample_db"
proof -
  have s: "ss_entry_slug sample_score = ''ann''" "ss_score sample_score = 0" by (simp_all add: sample_score_def)
  from scores_submit_spec [OF sample_svc_ok sample_db_inv sample_row_in, of sample_score, unfolded s]
  obtain a e db' where d: "scores_submit sample_svc sample_row sample_score sample_db = Inr (a, db')"
    "db_inv sample_svc db'" "find_entry (b_id sample_row) ''ann'' db' = Some e" "a_entry_id a = e_id e" "a_score a = 0"
    "db' = sample_db\<lparr>entries := entries db', accumulated_scores := accumulated_scores db', drawn := drawn db'\<rparr>"
    by (auto split: if_splits)
  from d(6) have "boards db' = boards sample_db \<and> collection_boards db' = collection_boards sample_db"
    by (cases db') simp
  with d(1-5) show ?thesis by blast
qed

text \<open>
  C3: a snapshot publishes the accumulated scores, all of them and nothing else. It succeeds
  exactly when the board accumulates, some score was submitted, the limits allow it and the
  numbers fit; the new version has the next number, its placements are the current scores of the
  board, ranked, and the accumulated scores themselves stay for the next snapshot.
\<close>

theorem scores_snapshot_spec:
  assumes "svc_ok S" "db_inv S db" "find (\<lambda>b. b_id b = b_id b0) (boards db) = Some b"
  defines "scores \<equiv> map (\<lambda>a. (a_entry_id a, a_score a)) (filter (\<lambda>a. a_board_id a = b_id b) (accumulated_scores db))"
  shows "if b_accumulative b0 \<and> b_board_type b0 = ''scored'' \<and>
      (\<forall>m. mv = Some m \<longrightarrow> version_count (b_id b) db < m) \<and> scores \<noteq> [] \<and>
      (\<forall>m. me = Some m \<longrightarrow> int (length scores) \<le> m) \<and>
      max_number (b_id b) db < i32_max \<and> int (length scores) \<le> i32_max
    then \<exists>vp db' rows. scores_snapshot S b0 nt mt mv me db = Inr (vp, db') \<and> db_inv S db' \<and>
      published db (b_id b) (vp_version vp) db' \<and> is_ranking (b_sort_direction b) rows \<and>
      mset (filter (\<lambda>p. p_version_id p = v_id (vp_version vp)) (placements db')) = mset rows \<and>
      mset (map (\<lambda>p. (p_entry_id p, p_score p)) rows) = mset (map (\<lambda>x. (fst x, Some (snd x))) scores) \<and>
      map p_position (vp_placements vp) = map (\<lambda>i. Some (1 + int i)) [0..<length scores]
    else \<exists>e. scores_snapshot S b0 nt mt mv me db = Inl e"
proof -
  have b: "b \<in> set (boards db)" "b_id b = b_id b0" using assms(3) by (auto dest: find_Some_in)
  have sc: "board_scores (b_id b) db = scores" by (simp add: scores_def board_scores_eq [OF assms(2)])
  have ok: "scores_ok (b_id b) scores db" using board_scores_ok [OF assms(2)] unfolding sc [symmetric] .
  have me: "check_max_entries me scores = Inr () \<longleftrightarrow> (\<forall>m. me = Some m \<longrightarrow> int (length scores) \<le> m)"
    by (auto simp: check_max_entries_def split: option.split)
  have l: "lock_board (b_id b) db = Inr b" using assms(3) b(2) by (simp add: lock_board_def)
  have "is_ok (scores_snapshot S b0 nt mt mv me db) \<longleftrightarrow>
      b_accumulative b0 \<and> b_board_type b0 = ''scored'' \<and> check_max_versions mv (b_id b) db = Inr () \<and> scores \<noteq> [] \<and>
      check_max_entries me scores = Inr () \<and> is_ok (publish_scores S b nt mt scores db)"
    unfolding is_ok_iff by (auto simp: scores_snapshot_def Let_def l b(2) [symmetric] sc simp del: check_max_versions_iff)
  then have ok_iff: "is_ok (scores_snapshot S b0 nt mt mv me db) \<longleftrightarrow>
      b_accumulative b0 \<and> b_board_type b0 = ''scored'' \<and> (\<forall>m. mv = Some m \<longrightarrow> version_count (b_id b) db < m) \<and>
      scores \<noteq> [] \<and> (\<forall>m. me = Some m \<longrightarrow> int (length scores) \<le> m) \<and>
      max_number (b_id b) db < i32_max \<and> int (length scores) \<le> i32_max"
    by (simp add: me publish_scores_is_ok [OF assms(1,2) b(1) ok])
  show ?thesis
  proof (cases "scores_snapshot S b0 nt mt mv me db")
    case (Inl e)
    then have "\<not> is_ok (scores_snapshot S b0 nt mt mv me db)" by simp
    with ok_iff Inl show ?thesis by auto
  next
    case (Inr r)
    obtain vp db' where r: "r = (vp, db')" by (cases r)
    note eq = Inr [unfolded r]
    then have "is_ok (scores_snapshot S b0 nt mt mv me db)" by simp
    note cond = this [unfolded ok_iff]
    have p: "publish_scores S b nt mt scores db = Inr (vp, db')"
      using scores_snapshot_steps [OF eq] assms(3) sc by (metis option.inject)
    from publish_scores_ranked(1) [OF assms(1,2) b(1) ok p] obtain rows where
      "is_ranking (b_sort_direction b) rows"
      "mset (filter (\<lambda>p. p_version_id p = v_id (vp_version vp)) (placements db')) = mset rows"
      "mset (map (\<lambda>p. (p_entry_id p, p_score p)) rows) = mset (map (\<lambda>x. (fst x, Some (snd x))) scores)"
      by blast
    note rows = this publish_scores_ranked(2) [OF assms(1,2) b(1) ok p] publish_scores_contract [OF assms(1,2) b(1) ok p]
    show ?thesis
      unfolding if_P [OF cond]
      by (intro exI [of _ vp] exI [of _ db'] exI [of _ rows] conjI eq rows(1-4) rows(5) [THEN conjunct1]
          rows(5) [THEN conjunct2])
  qed
qed

theorem scores_snapshot_spec_witness:
  "\<exists>vp db'. scores_snapshot sample_svc sample_row None None (Some 10) (Some 1) score_db = Inr (vp, db') \<and>
     db_inv sample_svc db' \<and> v_number (vp_version vp) = 1 \<and> map p_position (vp_placements vp) = [Some 1]"
proof -
  let ?scores = "map (\<lambda>a. (a_entry_id a, a_score a))
      (filter (\<lambda>a. a_board_id a = b_id sample_row) (accumulated_scores score_db))"
  have n: "length ?scores = 1" by (simp add: score_db_def)
  have "board_versions (b_id sample_row) score_db = []"
    by (simp add: score_db_def sample_entry_db_def sample_db_def empty_db_def board_versions_def)
  then have m: "max_number (b_id sample_row) score_db = 0" "version_count (b_id sample_row) score_db = 0"
    by (simp_all add: max_number_def version_count_def)
  have cond: "b_accumulative sample_row \<and> b_board_type sample_row = ''scored'' \<and>
      (\<forall>k. Some (10 :: int) = Some k \<longrightarrow> version_count (b_id sample_row) score_db < k) \<and> ?scores \<noteq> [] \<and>
      (\<forall>k. Some (1 :: int) = Some k \<longrightarrow> int (length ?scores) \<le> k) \<and>
      max_number (b_id sample_row) score_db < i32_max \<and> int (length ?scores) \<le> i32_max"
    using n by (auto simp: m i32_max_def)
  have p: "map (\<lambda>i. Some (1 + int i)) [0..<length ?scores] = [Some 1]" unfolding n by simp
  from scores_snapshot_spec [OF sample_svc_ok score_db_inv score_db_find, of "Some 10" "Some 1" None None,
      unfolded if_P [OF cond] p]
  obtain vp db' where r: "scores_snapshot sample_svc sample_row None None (Some 10) (Some 1) score_db = Inr (vp, db')"
      "db_inv sample_svc db'" "published score_db (b_id sample_row) (vp_version vp) db'"
      "map p_position (vp_placements vp) = [Some 1]"
    by (elim exE conjE) (rule that)
  from r(3) m(1) have n1: "v_number (vp_version vp) = 1" by (simp add: published_def)
  show ?thesis by (intro exI [of _ vp] exI [of _ db'] conjI r(1,2) n1 r(4))
qed

end
