(* ===== verification/Redis.thy ===== *)
theory Redis
  imports Values "HOL-Library.AList"
begin

text \<open>
  The Redis server and its client as the realtime code sees them: a record of the commands it
  sends, over an unknown state, and what the code relies on, which is the documented behaviour of
  sorted sets, hashes, DEL, EXISTS and RENAME. A command may fail; a failed write may have been
  carried out all the same. The concrete server at the end answers from association lists.
\<close>

section \<open>Commands\<close>

datatype redis_write =
    ZAdd string string f64
  | HSet string string string
  | Del string
  | Rename string string

text \<open>\<open>rd_exec\<close> sends one write, or several as an atomic pipeline (MULTI, EXEC).\<close>

record 'r redis =
  rd_exec :: "redis_write list \<Rightarrow> 'r \<Rightarrow> (string + unit) \<times> 'r"
  rd_exists :: "string \<Rightarrow> 'r \<Rightarrow> (string + bool) \<times> 'r"
  rd_zrange :: "string \<Rightarrow> 'r \<Rightarrow> (string + (string \<times> f64) list) \<times> 'r"
  rd_zrevrange :: "string \<Rightarrow> 'r \<Rightarrow> (string + (string \<times> f64) list) \<times> 'r"
  rd_hget :: "string \<Rightarrow> string list \<Rightarrow> 'r \<Rightarrow> (string + string option list) \<times> 'r"

section \<open>Documented behaviour\<close>

text \<open>The sorted set and the hash at a key; a key with neither does not exist.\<close>

record keyspace =
  ks_z :: "string \<Rightarrow> string \<Rightarrow> f64 option"
  ks_h :: "string \<Rightarrow> string \<Rightarrow> string option"

definition key_exists :: "keyspace \<Rightarrow> string \<Rightarrow> bool" where
  "key_exists ks k \<longleftrightarrow> ks_z ks k \<noteq> Map.empty \<or> ks_h ks k \<noteq> Map.empty"

fun apply_write :: "redis_write \<Rightarrow> keyspace \<Rightarrow> keyspace" where
  "apply_write (ZAdd k m s) ks = ks\<lparr>ks_z := (ks_z ks)(k := (ks_z ks k)(m \<mapsto> s))\<rparr>"
| "apply_write (HSet k f v) ks = ks\<lparr>ks_h := (ks_h ks)(k := (ks_h ks k)(f \<mapsto> v))\<rparr>"
| "apply_write (Del k) ks = ks\<lparr>ks_z := (ks_z ks)(k := Map.empty), ks_h := (ks_h ks)(k := Map.empty)\<rparr>"
| "apply_write (Rename k k') ks =
     ks\<lparr>ks_z := (ks_z ks)(k := Map.empty, k' := ks_z ks k), ks_h := (ks_h ks)(k := Map.empty, k' := ks_h ks k)\<rparr>"

text \<open>
  A write is refused on a key of the wrong type, for a score that is no number, and when the key
  to rename does not exist; the laws speak of the writes that are not.
\<close>

fun write_ok :: "redis_write \<Rightarrow> keyspace \<Rightarrow> bool" where
  "write_ok (ZAdd k m s) ks \<longleftrightarrow> ks_h ks k = Map.empty \<and> \<not> f64_is_nan s"
| "write_ok (HSet k f v) ks \<longleftrightarrow> ks_z ks k = Map.empty"
| "write_ok (Del k) ks \<longleftrightarrow> True"
| "write_ok (Rename k k') ks \<longleftrightarrow> key_exists ks k"

fun writes_ok :: "redis_write list \<Rightarrow> keyspace \<Rightarrow> bool" where
  "writes_ok [] ks \<longleftrightarrow> True"
| "writes_ok (w # ws) ks \<longleftrightarrow> write_ok w ks \<and> writes_ok ws (apply_write w ks)"

fun apply_writes :: "redis_write list \<Rightarrow> keyspace \<Rightarrow> keyspace" where
  "apply_writes [] ks = ks"
| "apply_writes (w # ws) ks = apply_writes ws (apply_write w ks)"

text \<open>The order of a sorted set: by score, equal scores by member.\<close>

definition member_key :: "string \<times> f64 \<Rightarrow> int \<times> string" where
  "member_key x = (f64_key (snd x), fst x)"

definition range_of :: "(string \<Rightarrow> f64 option) \<Rightarrow> (string \<times> f64) list \<Rightarrow> bool" where
  "range_of z xs \<longleftrightarrow> map_of xs = z \<and> distinct (map fst xs) \<and> sorted_wrt (\<lambda>a b. member_key a < member_key b) xs"

text \<open>
  The laws, with \<open>V r\<close> the keys the server holds in state \<open>r\<close>. HGET with one field that is
  missing answers nil, which the client reads as an empty list, so the law for \<open>rd_hget\<close> leaves
  that case out.
\<close>

definition redis_ok :: "'r redis \<Rightarrow> ('r \<Rightarrow> keyspace) \<Rightarrow> bool" where
  "redis_ok R V \<longleftrightarrow>
     (\<forall>ws r. writes_ok ws (V r) \<longrightarrow>
        (case rd_exec R ws r of
           (Inr _, r') \<Rightarrow> V r' = apply_writes ws (V r)
         | (Inl _, r') \<Rightarrow> V r' = V r \<or> V r' = apply_writes ws (V r))) \<and>
     (\<forall>k r. V (snd (rd_exists R k r)) = V r \<and>
        (\<forall>b. fst (rd_exists R k r) = Inr b \<longrightarrow> (b \<longleftrightarrow> key_exists (V r) k))) \<and>
     (\<forall>k r. V (snd (rd_zrange R k r)) = V r \<and>
        (\<forall>xs. fst (rd_zrange R k r) = Inr xs \<longrightarrow> ks_h (V r) k = Map.empty \<longrightarrow> range_of (ks_z (V r) k) xs)) \<and>
     (\<forall>k r. V (snd (rd_zrevrange R k r)) = V r \<and>
        (\<forall>xs. fst (rd_zrevrange R k r) = Inr xs \<longrightarrow> ks_h (V r) k = Map.empty \<longrightarrow> range_of (ks_z (V r) k) (rev xs))) \<and>
     (\<forall>k fs r. V (snd (rd_hget R k fs r)) = V r \<and>
        (\<forall>ns. fst (rd_hget R k fs r) = Inr ns \<longrightarrow> (\<forall>f \<in> set fs. ks_h (V r) k f \<noteq> None) \<longrightarrow>
           ns = map (ks_h (V r) k) fs))"

lemma redis_exec:
  assumes "redis_ok R V" "writes_ok ws (V r)"
  shows "rd_exec R ws r = (Inr u, r') \<Longrightarrow> V r' = apply_writes ws (V r)"
    and "rd_exec R ws r = (Inl e, r') \<Longrightarrow> V r' = V r \<or> V r' = apply_writes ws (V r)"
proof -
  from assms have "case rd_exec R ws r of
      (Inr _, r') \<Rightarrow> V r' = apply_writes ws (V r)
    | (Inl _, r') \<Rightarrow> V r' = V r \<or> V r' = apply_writes ws (V r)"
    by (rule redis_ok_def [THEN iffD1, THEN conjunct1, rule_format])
  then show "rd_exec R ws r = (Inr u, r') \<Longrightarrow> V r' = apply_writes ws (V r)"
    and "rd_exec R ws r = (Inl e, r') \<Longrightarrow> V r' = V r \<or> V r' = apply_writes ws (V r)"
    by simp_all
qed

lemma redis_exists:
  assumes "redis_ok R V" "rd_exists R k r = (x, r')"
  shows "V r' = V r" "x = Inr b \<Longrightarrow> b = key_exists (V r) k"
proof -
  from assms(1) have "V (snd (rd_exists R k r)) = V r"
      "\<And>b. fst (rd_exists R k r) = Inr b \<Longrightarrow> b = key_exists (V r) k"
    by (simp_all add: redis_ok_def)
  with assms(2) show "V r' = V r" "x = Inr b \<Longrightarrow> b = key_exists (V r) k" by simp_all
qed

lemma redis_zrange:
  assumes "redis_ok R V" "rd_zrange R k r = (x, r')"
  shows "V r' = V r" "x = Inr xs \<Longrightarrow> ks_h (V r) k = Map.empty \<Longrightarrow> range_of (ks_z (V r) k) xs"
proof -
  from assms(1) have "V (snd (rd_zrange R k r)) = V r"
      "\<And>xs. fst (rd_zrange R k r) = Inr xs \<Longrightarrow> ks_h (V r) k = Map.empty \<Longrightarrow> range_of (ks_z (V r) k) xs"
    by (simp_all add: redis_ok_def)
  with assms(2) show "V r' = V r" "x = Inr xs \<Longrightarrow> ks_h (V r) k = Map.empty \<Longrightarrow> range_of (ks_z (V r) k) xs"
    by simp_all
qed

lemma redis_zrevrange:
  assumes "redis_ok R V" "rd_zrevrange R k r = (x, r')"
  shows "V r' = V r" "x = Inr xs \<Longrightarrow> ks_h (V r) k = Map.empty \<Longrightarrow> range_of (ks_z (V r) k) (rev xs)"
proof -
  from assms(1) have "V (snd (rd_zrevrange R k r)) = V r"
      "\<And>xs. fst (rd_zrevrange R k r) = Inr xs \<Longrightarrow> ks_h (V r) k = Map.empty \<Longrightarrow> range_of (ks_z (V r) k) (rev xs)"
    by (simp_all add: redis_ok_def)
  with assms(2) show "V r' = V r" "x = Inr xs \<Longrightarrow> ks_h (V r) k = Map.empty \<Longrightarrow> range_of (ks_z (V r) k) (rev xs)"
    by simp_all
qed

lemma redis_hget:
  assumes "redis_ok R V" "rd_hget R k fs r = (x, r')"
  shows "V r' = V r" "x = Inr ns \<Longrightarrow> \<forall>f \<in> set fs. ks_h (V r) k f \<noteq> None \<Longrightarrow> ns = map (ks_h (V r) k) fs"
proof -
  from assms(1) have "V (snd (rd_hget R k fs r)) = V r"
      "\<And>ns. fst (rd_hget R k fs r) = Inr ns \<Longrightarrow> \<forall>f \<in> set fs. ks_h (V r) k f \<noteq> None \<Longrightarrow> ns = map (ks_h (V r) k) fs"
    by (simp_all add: redis_ok_def)
  with assms(2) show "V r' = V r" "x = Inr ns \<Longrightarrow> \<forall>f \<in> set fs. ks_h (V r) k f \<noteq> None \<Longrightarrow> ns = map (ks_h (V r) k) fs"
    by simp_all
qed

text \<open>Writes leave the keys they do not name alone.\<close>

fun write_keys :: "redis_write \<Rightarrow> string set" where
  "write_keys (ZAdd k m s) = {k}"
| "write_keys (HSet k f v) = {k}"
| "write_keys (Del k) = {k}"
| "write_keys (Rename k k') = {k, k'}"

lemma apply_write_other: "k \<notin> write_keys w \<Longrightarrow>
    ks_z (apply_write w ks) k = ks_z ks k \<and> ks_h (apply_write w ks) k = ks_h ks k"
  by (cases w) auto

lemma apply_writes_other: "(\<And>w. w \<in> set ws \<Longrightarrow> k \<notin> write_keys w) \<Longrightarrow>
    ks_z (apply_writes ws ks) k = ks_z ks k \<and> ks_h (apply_writes ws ks) k = ks_h ks k"
  by (induction ws arbitrary: ks) (auto simp: apply_write_other)

lemma range_of_set: "range_of z xs \<Longrightarrow> (m, s) \<in> set xs \<longleftrightarrow> z m = Some s"
  by (auto simp: range_of_def)

lemma range_of_Nil: "range_of z [] \<longleftrightarrow> z = Map.empty"
  by (auto simp: range_of_def)

section \<open>A concrete server\<close>

record sample_store =
  sr_z :: "string \<Rightarrow> (string \<times> f64) list"
  sr_h :: "string \<Rightarrow> (string \<times> string) list"

definition sample_view :: "sample_store \<Rightarrow> keyspace" where
  "sample_view r = \<lparr>ks_z = (\<lambda>k. map_of (sr_z r k)), ks_h = (\<lambda>k. map_of (sr_h r k))\<rparr>"

fun sample_write :: "redis_write \<Rightarrow> sample_store \<Rightarrow> sample_store" where
  "sample_write (ZAdd k m s) r = r\<lparr>sr_z := (sr_z r)(k := (m, s) # sr_z r k)\<rparr>"
| "sample_write (HSet k f v) r = r\<lparr>sr_h := (sr_h r)(k := (f, v) # sr_h r k)\<rparr>"
| "sample_write (Del k) r = r\<lparr>sr_z := (sr_z r)(k := []), sr_h := (sr_h r)(k := [])\<rparr>"
| "sample_write (Rename k k') r =
     r\<lparr>sr_z := (sr_z r)(k := [], k' := sr_z r k), sr_h := (sr_h r)(k := [], k' := sr_h r k)\<rparr>"

definition sample_range :: "(string \<times> f64) list \<Rightarrow> (string \<times> f64) list" where
  "sample_range xs = sort_key member_key (AList.clearjunk xs)"

definition sample_redis :: "sample_store redis" where
  "sample_redis =
     \<lparr>rd_exec = (\<lambda>ws r. (Inr (), fold sample_write ws r)),
      rd_exists = (\<lambda>k r. (Inr (sr_z r k \<noteq> [] \<or> sr_h r k \<noteq> []), r)),
      rd_zrange = (\<lambda>k r. (Inr (sample_range (sr_z r k)), r)),
      rd_zrevrange = (\<lambda>k r. (Inr (rev (sample_range (sr_z r k))), r)),
      rd_hget = (\<lambda>k fs r. (Inr (map (map_of (sr_h r k)) fs), r))\<rparr>"

lemma sample_write_view: "sample_view (sample_write w r) = apply_write w (sample_view r)"
  by (cases w) (auto simp: sample_view_def)

lemma sample_range_ok: "range_of (map_of xs) (sample_range xs)"
proof -
  let ?ys = "AList.clearjunk xs"
  have d: "distinct (map fst ?ys)" by simp
  then have i: "distinct (map fst (sample_range xs))"
    by (simp add: sample_range_def distinct_map inj_on_def)
  have "map_of (sample_range xs) = map_of ?ys"
    by (rule map_of_inject_set [OF i d, THEN iffD2]) (simp add: sample_range_def)
  moreover have "distinct (map member_key (sample_range xs))"
  proof -
    have "distinct (map snd (map member_key (sample_range xs)))" using i by (simp add: member_key_def comp_def)
    then show ?thesis by (simp only: distinct_map)
  qed
  then have "sorted_wrt (<) (map member_key (sample_range xs))"
    by (simp add: strict_sorted_iff sample_range_def)
  ultimately show ?thesis using i by (simp add: range_of_def sorted_wrt_map map_of_clearjunk)
qed

lemma sample_redis_ok [simp]: "redis_ok sample_redis sample_view"
proof -
  have w: "sample_view (fold sample_write ws r) = apply_writes ws (sample_view r)" for ws r
    by (induction ws arbitrary: r) (simp_all add: sample_write_view)
  have e: "map_of xs = Map.empty \<longleftrightarrow> xs = []" for xs :: "('a \<times> 'b) list"
    by (cases xs) (auto simp: fun_eq_iff)
  have v: "key_exists (sample_view r) k \<longleftrightarrow> sr_z r k \<noteq> [] \<or> sr_h r k \<noteq> []"
      "ks_z (sample_view r) k = map_of (sr_z r k)" "ks_h (sample_view r) k = map_of (sr_h r k)" for r k
    by (simp_all add: key_exists_def sample_view_def e)
  show ?thesis
    unfolding redis_ok_def
    by (intro conjI allI impI) (simp_all add: sample_redis_def w v sample_range_ok)
qed

definition empty_store :: sample_store where
  "empty_store = \<lparr>sr_z = (\<lambda>_. []), sr_h = (\<lambda>_. [])\<rparr>"

end
