(* ===== verification/Realtime.thy ===== *)
theory Realtime
  imports Scores Redis
begin

text \<open>
  \<open>repo/realtime.rs\<close>: realtime boards keep their scores in Redis (a sorted set of scores and a
  hash of names for each board) and publish them as versions. An operation works on the database
  and the Redis state together, and its effects stay when it ends with an error.
\<close>

section \<open>Steps on the database and on Redis\<close>

type_synonym 'r world = "db \<times> 'r"

definition on_db :: "(db \<Rightarrow> ('a \<times> db) result) \<Rightarrow> 'r world \<Rightarrow> 'a result \<times> 'r world" where
  "on_db f s = (case f (fst s) of Inl e \<Rightarrow> (Inl e, s) | Inr (x, d) \<Rightarrow> (Inr x, d, snd s))"

text \<open>\<open>.map_err(|e| Error::ServiceUnavailable(format!("Redis error: {e}")))?\<close>.\<close>

definition on_redis :: "string \<Rightarrow> ('r \<Rightarrow> (string + 'a) \<times> 'r) \<Rightarrow> 'r world \<Rightarrow> 'a result \<times> 'r world" where
  "on_redis msg f s =
     (case f (snd s) of
        (Inl e, r) \<Rightarrow> (Inl (ServiceUnavailable [Lit msg, Str e]), fst s, r)
      | (Inr x, r) \<Rightarrow> (Inr x, fst s, r))"

section \<open>Keys\<close>

definition scores_key :: "string \<Rightarrow> string \<Rightarrow> string" where
  "scores_key prefix slug = prefix @ '':board:'' @ slug @ '':scores''"

definition entries_key :: "string \<Rightarrow> string \<Rightarrow> string" where
  "entries_key prefix slug = prefix @ '':board:'' @ slug @ '':entries''"

definition snap_key :: "string \<Rightarrow> string \<Rightarrow> string" where
  "snap_key k snap_id = k @ '':snap:'' @ snap_id"

section \<open>Operations\<close>

definition check_submit :: "board \<Rightarrow> submit_score \<Rightarrow> unit result" where
  "check_submit board inp =
     rbind (reject_if (\<not> b_realtime board)
              (Validation [Lit ''realtime submit called on non-realtime board''])) (\<lambda>_.
     rbind (reject_if (f64_is_nan (ss_score inp) \<or> f64_is_infinite (ss_score inp))
              (Validation [Lit ''score must be a finite number''])) (\<lambda>_.
     rbind (validate_slug (ss_entry_slug inp)) (\<lambda>_.
     validate_name (ss_entry_name inp))))"

definition realtime_submit ::
  "svc \<Rightarrow> 'r redis \<Rightarrow> board \<Rightarrow> submit_score \<Rightarrow> string \<Rightarrow> 'r world \<Rightarrow> unit result \<times> 'r world" where
  "realtime_submit S R board inp prefix s =
     and_then (check_submit board inp, s) (\<lambda>_ s.
     and_then (on_db (\<lambda>db. upsert_entry S (tx_now S db) (b_id board) (ss_entry_slug inp) (ss_entry_name inp) db) s) (\<lambda>_.
     on_redis ''Redis error: '' (rd_exec R
       [ZAdd (scores_key prefix (b_slug board)) (ss_entry_slug inp) (ss_score inp),
        HSet (entries_key prefix (b_slug board)) (ss_entry_slug inp) (ss_entry_name inp)])))"

definition live_placement :: "nat \<Rightarrow> (string \<times> f64) \<times> string option \<Rightarrow> placement_with_entry" where
  "live_placement i x =
     \<lparr>p_id = nil_uuid, p_version_id = nil_uuid, p_entry_id = nil_uuid, p_position = Some (wrap_i32 (int i + 1)),
      p_score = Some (snd (fst x)), p_tier = None, p_metadata = None, pe_entry_slug = fst (fst x),
      pe_entry_name = (case snd x of Some n \<Rightarrow> n | None \<Rightarrow> fst (fst x))\<rparr>"

definition live_version :: "board \<Rightarrow> timestamp \<Rightarrow> version" where
  "live_version board now =
     \<lparr>v_id = nil_uuid, v_board_id = b_id board, v_number = 0, v_note = None, v_metadata = None, v_created_at = now\<rparr>"

definition realtime_latest ::
  "'r redis \<Rightarrow> board \<Rightarrow> string \<Rightarrow> timestamp \<Rightarrow> 'r world \<Rightarrow> version_with_placements result \<times> 'r world" where
  "realtime_latest R board prefix now s =
     and_then (on_redis ''Redis error: ''
        ((if b_sort_direction board = ''asc'' then rd_zrange R else rd_zrevrange R)
           (scores_key prefix (b_slug board))) s) (\<lambda>scores s.
     and_then (if scores = [] then (Inr [], s)
               else on_redis ''Redis error: '' (rd_hget R (entries_key prefix (b_slug board)) (map fst scores)) s) (\<lambda>names s.
     (Inr \<lparr>vp_version = live_version board now,
           vp_placements = map2 live_placement [0..<length (zip scores names)] (zip scores names)\<rparr>, s)))"

text \<open>Best effort: the answer is dropped.\<close>

definition delete_snap_keys :: "'r redis \<Rightarrow> (string \<times> string) option \<Rightarrow> 'r world \<Rightarrow> 'r world" where
  "delete_snap_keys R keys s =
     (case keys of
        None \<Rightarrow> s
      | Some (sk_snap, ek_snap) \<Rightarrow> (fst s, snd (rd_exec R [Del sk_snap, Del ek_snap] (snd s))))"

text \<open>
  The first part of \<open>snapshot\<close>: the key to read the scores from, and the keys to delete
  afterwards. A clearing board's keys are renamed, so that later submissions start new ones.
\<close>

definition isolate ::
  "'r redis \<Rightarrow> board \<Rightarrow> string \<Rightarrow> string \<Rightarrow> 'r world \<Rightarrow> (string \<times> (string \<times> string) option) result \<times> 'r world" where
  "isolate R board prefix snap_id s =
     (let sk = scores_key prefix (b_slug board);
          ek = entries_key prefix (b_slug board);
          sk_snap = snap_key sk snap_id;
          ek_snap = snap_key ek snap_id in
      if b_clear_on_snapshot board
      then and_then (on_redis ''Redis error: '' (rd_exists R sk) s) (\<lambda>exists s.
           if \<not> exists then (Inl (Validation [Lit ''no scores in Redis to snapshot'']), s)
           else and_then (on_redis ''Redis error: '' (rd_exists R ek) s) (\<lambda>ek_exists s.
                and_then (on_redis ''Redis RENAME error: ''
                            (rd_exec R (if ek_exists then [Rename sk sk_snap, Rename ek ek_snap]
                                        else [Rename sk sk_snap])) s) (\<lambda>_ s.
                (Inr (sk_snap, Some (sk_snap, ek_snap)), s))))
      else (Inr (sk, None), s))"

text \<open>\<open>SELECT id, slug FROM entries WHERE board_id = $1 AND slug = ANY($2)\<close>, collected in a map.\<close>

definition live_entry_map :: "uuid \<Rightarrow> string list \<Rightarrow> db \<Rightarrow> string \<Rightarrow> uuid option" where
  "live_entry_map bid slugs db =
     map_of (map (\<lambda>e. (e_slug e, e_id e)) (filter (\<lambda>e. e_board_id e = bid \<and> e_slug e \<in> set slugs) (entries db)))"

fun insert_live_scores ::
  "svc \<Rightarrow> uuid \<Rightarrow> (string \<Rightarrow> uuid option) \<Rightarrow> (string \<times> f64) list \<Rightarrow> db \<Rightarrow> db result" where
  "insert_live_scores S vid entry_map [] db = Inr db"
| "insert_live_scores S vid entry_map ((slug, score) # rest) db =
     rbind (ok_or (entry_map slug)
              (Internal [Lit ''entry '', Quo slug, Lit '' exists in Redis but not in Postgres''])) (\<lambda>eid.
     rbind (insert_placement (placement_row (next_id S db) vid (score_row (eid, score))) db) (\<lambda>db'.
     insert_live_scores S vid entry_map rest db'))"

definition publish_live ::
  "svc \<Rightarrow> board \<Rightarrow> string option \<Rightarrow> json option \<Rightarrow> (string \<times> f64) list \<Rightarrow> db \<Rightarrow>
   (version_with_placements \<times> db) result" where
  "publish_live S board nt mt scores db =
     rbind (next_number (b_id board) db) (\<lambda>n.
     rbind (insert_new_version S (b_id board) n nt mt db) (\<lambda>(version, db1).
     rbind (insert_live_scores S (v_id version) (live_entry_map (b_id board) (map fst scores) db1) scores db1) (\<lambda>db2.
     rbind (derive_scored_positions (v_id version) (b_sort_direction board) db2) (\<lambda>db3.
     Inr (\<lparr>vp_version = version, vp_placements = fetch_ranked S (v_id version) db3\<rparr>, db3)))))"

text \<open>
  The rest of \<open>snapshot\<close>, one database transaction with the Redis read inside: an error rolls
  the database back, and only the refusals delete the snapshot keys first.
\<close>

definition publish_snapshot ::
  "svc \<Rightarrow> 'r redis \<Rightarrow> board \<Rightarrow> string option \<Rightarrow> json option \<Rightarrow> int option \<Rightarrow> int option \<Rightarrow>
   string \<Rightarrow> (string \<times> string) option \<Rightarrow> 'r world \<Rightarrow> version_with_placements result \<times> 'r world" where
  "publish_snapshot S R board0 nt mt max_versions max_entries read_sk snap_keys s =
     (case lock_board (b_id board0) (fst s) of
        Inl e \<Rightarrow> (Inl e, s)
      | Inr board \<Rightarrow>
          (case check_max_versions max_versions (b_id board) (fst s) of
             Inl e \<Rightarrow> (Inl e, delete_snap_keys R snap_keys s)
           | Inr _ \<Rightarrow>
               and_then (on_redis ''Redis error: '' (rd_zrevrange R read_sk) s) (\<lambda>scores s.
               if scores = []
               then (Inl (Validation [Lit ''no scores in Redis to snapshot'']), delete_snap_keys R snap_keys s)
               else case check_max_entries max_entries scores of
                 Inl e \<Rightarrow> (Inl e, delete_snap_keys R snap_keys s)
               | Inr _ \<Rightarrow>
                   and_then (on_db (publish_live S board nt mt scores) s) (\<lambda>vp s.
                   (Inr vp, delete_snap_keys R snap_keys s)))))"

definition realtime_snapshot ::
  "svc \<Rightarrow> 'r redis \<Rightarrow> board \<Rightarrow> string option \<Rightarrow> json option \<Rightarrow> string \<Rightarrow> int option \<Rightarrow> int option \<Rightarrow>
   string \<Rightarrow> 'r world \<Rightarrow> version_with_placements result \<times> 'r world" where
  "realtime_snapshot S R board nt mt prefix max_versions max_entries snap_id s =
     and_then (isolate R board prefix snap_id s) (\<lambda>(read_sk, snap_keys).
     publish_snapshot S R board nt mt max_versions max_entries read_sk snap_keys)"

definition realtime_clear :: "'r redis \<Rightarrow> string \<Rightarrow> string \<Rightarrow> 'r world \<Rightarrow> unit result \<times> 'r world" where
  "realtime_clear R board_slug prefix =
     on_redis ''Redis error: '' (rd_exec R [Del (scores_key prefix board_slug), Del (entries_key prefix board_slug)])"

section \<open>Keys do not collide\<close>

lemma scores_key_eq [simp]: "scores_key p s = scores_key p s' \<longleftrightarrow> s = s'"
  by (simp add: scores_key_def)

lemma entries_key_eq [simp]: "entries_key p s = entries_key p s' \<longleftrightarrow> s = s'"
  by (simp add: entries_key_def)

lemma scores_entries_key [simp]: "scores_key p s \<noteq> entries_key p s'" "entries_key p s' \<noteq> scores_key p s"
proof -
  have "rev (scores_key p s) \<noteq> rev (entries_key p s')" by (simp add: scores_key_def entries_key_def)
  then show "scores_key p s \<noteq> entries_key p s'" "entries_key p s' \<noteq> scores_key p s" by metis+
qed

lemma colon_prefix:
  assumes "s @ CHR '':'' # t = s' @ CHR '':'' # t'" "CHR '':'' \<notin> set s" "CHR '':'' \<notin> set s'"
  shows "s = s' \<and> t = t'"
proof -
  have "takeWhile (\<lambda>c. c \<noteq> CHR '':'') (s @ CHR '':'' # t) = s" "takeWhile (\<lambda>c. c \<noteq> CHR '':'') (s' @ CHR '':'' # t') = s'"
    using assms(2,3) by (auto intro!: takeWhile_tail simp: takeWhile_append)
  with assms(1) have "s = s'" by metis
  with assms(1) show ?thesis by simp
qed

lemma snap_key_working:
  assumes "CHR '':'' \<notin> set s" "CHR '':'' \<notin> set s'"
  shows "snap_key (scores_key p s) i \<noteq> scores_key p s'" "snap_key (scores_key p s) i \<noteq> entries_key p s'"
    "snap_key (entries_key p s) i \<noteq> scores_key p s'" "snap_key (entries_key p s) i \<noteq> entries_key p s'"
  using colon_prefix [OF _ assms] by (auto simp: snap_key_def scores_key_def entries_key_def)

lemma snap_key_eq [simp]: "snap_key k i = snap_key k i' \<longleftrightarrow> i = i'"
  by (simp add: snap_key_def)

lemma snap_keys_differ: "snap_key (scores_key p s) i \<noteq> snap_key (entries_key p s) i"
  by (simp add: snap_key_def scores_key_def entries_key_def)

text \<open>
  What the realtime code keeps of the keys of every board: the scores key holds a sorted set, the
  entries key a hash with a name for each member, and the scores are numbers.
\<close>

definition live_ok :: "string \<Rightarrow> keyspace \<Rightarrow> bool" where
  "live_ok prefix ks \<longleftrightarrow>
     (\<forall>slug. CHR '':'' \<notin> set slug \<longrightarrow>
        ks_h ks (scores_key prefix slug) = Map.empty \<and> ks_z ks (entries_key prefix slug) = Map.empty \<and>
        (\<forall>m s. ks_z ks (scores_key prefix slug) m = Some s \<longrightarrow>
           f64_is_finite s \<and> ks_h ks (entries_key prefix slug) m \<noteq> None))"

lemma live_okD:
  assumes "live_ok prefix ks" "CHR '':'' \<notin> set slug"
  shows "ks_h ks (scores_key prefix slug) = Map.empty" "ks_z ks (entries_key prefix slug) = Map.empty"
    "ks_z ks (scores_key prefix slug) m = Some s \<Longrightarrow> f64_is_finite s \<and> ks_h ks (entries_key prefix slug) m \<noteq> None"
  using assms by (auto simp: live_ok_def)

text \<open>The effect of a submission on the keys.\<close>

definition submitted :: "string \<Rightarrow> string \<Rightarrow> submit_score \<Rightarrow> keyspace \<Rightarrow> keyspace" where
  "submitted prefix slug inp ks =
     ks\<lparr>ks_z := (ks_z ks)(scores_key prefix slug :=
           (ks_z ks (scores_key prefix slug))(ss_entry_slug inp \<mapsto> ss_score inp)),
        ks_h := (ks_h ks)(entries_key prefix slug :=
           (ks_h ks (entries_key prefix slug))(ss_entry_slug inp \<mapsto> ss_entry_name inp))\<rparr>"

lemma submitted_ok:
  assumes "live_ok prefix ks" "CHR '':'' \<notin> set slug" "f64_is_finite (ss_score inp)"
  shows "live_ok prefix (submitted prefix slug inp ks)"
  using assms unfolding live_ok_def submitted_def by auto

definition live_submit_ok :: "board \<Rightarrow> submit_score \<Rightarrow> bool" where
  "live_submit_ok b inp \<longleftrightarrow>
     b_realtime b \<and> f64_is_finite (ss_score inp) \<and> slug_ok (ss_entry_slug inp) \<and> name_ok (ss_entry_name inp)"

lemma check_submit_iff: "check_submit b inp = Inr () \<longleftrightarrow> live_submit_ok b inp"
  by (auto simp: check_submit_def live_submit_ok_def f64_finite_iff)

lemma check_submit_errs: "\<not> live_submit_ok b inp \<Longrightarrow> \<exists>m. check_submit b inp = Inl (Validation m)"
proof -
  have "errs_in (range Validation) (check_submit b inp)"
    unfolding check_submit_def by (auto intro!: errs)
  moreover assume "\<not> live_submit_ok b inp"
  then have "check_submit b inp \<noteq> Inr ()" by (simp add: check_submit_iff)
  ultimately show ?thesis by (cases "check_submit b inp") (auto simp: errs_in_def)
qed

lemma submit_writes:
  assumes "redis_ok R V" "live_ok prefix (V r)" "CHR '':'' \<notin> set slug" "f64_is_finite (ss_score inp)"
  shows "rd_exec R [ZAdd (scores_key prefix slug) (ss_entry_slug inp) (ss_score inp),
      HSet (entries_key prefix slug) (ss_entry_slug inp) (ss_entry_name inp)] r = (x, r') \<Longrightarrow>
    V r' = submitted prefix slug inp (V r) \<or> (\<exists>e. x = Inl e) \<and> V r' = V r"
proof -
  let ?ws = "[ZAdd (scores_key prefix slug) (ss_entry_slug inp) (ss_score inp),
      HSet (entries_key prefix slug) (ss_entry_slug inp) (ss_entry_name inp)]"
  assume x: "rd_exec R ?ws r = (x, r')"
  have "writes_ok ?ws (V r)"
    using live_okD [OF assms(2,3)] assms(4) by (simp add: f64_finite_iff)
  note e = redis_exec [OF assms(1) this]
  have a: "apply_writes ?ws (V r) = submitted prefix slug inp (V r)"
    by (simp add: submitted_def)
  show ?thesis
  proof (cases x)
    case (Inl err)
    with e(2) x a show ?thesis by auto
  next
    case (Inr u)
    with e(1) x a show ?thesis by simp
  qed
qed

section \<open>Submitting and reading\<close>

lemma realtime_submit_accepted:
  assumes "svc_ok S" "db_inv S db" "b_id b \<in> b_id ` set (boards db)" "redis_ok R V" "live_ok prefix (V r)"
    "CHR '':'' \<notin> set (b_slug b)" "live_submit_ok b inp"
  shows "\<exists>x db' r' e. realtime_submit S R b inp prefix (db, r) = (x, db', r') \<and> db_inv S db' \<and>
    find_entry (b_id b) (ss_entry_slug inp) db' = Some e \<and> e_name e = ss_entry_name inp \<and>
    boards db' = boards db \<and> versions db' = versions db \<and> placements db' = placements db \<and>
    (x = Inr () \<and> V r' = submitted prefix (b_slug b) inp (V r) \<or>
     (\<exists>m. x = Inl (ServiceUnavailable m)) \<and> (V r' = V r \<or> V r' = submitted prefix (b_slug b) inp (V r)))"
proof -
  have c: "check_submit b inp = Inr ()" using assms(7) by (simp add: check_submit_iff)
  from upsert_entry_spec [OF assms(1-3), of "tx_now S db" "ss_entry_slug inp" "ss_entry_name inp"]
  obtain e db1 where e: "upsert_entry S (tx_now S db) (b_id b) (ss_entry_slug inp) (ss_entry_name inp) db = Inr (e_id e, db1)"
      "db_inv S db1" "find_entry (b_id b) (ss_entry_slug inp) db1 = Some e" "e_name e = ss_entry_name inp"
      "boards db1 = boards db" "versions db1 = versions db" "placements db1 = placements db"
    by blast
  obtain x r' where x: "rd_exec R
       [ZAdd (scores_key prefix (b_slug b)) (ss_entry_slug inp) (ss_score inp),
        HSet (entries_key prefix (b_slug b)) (ss_entry_slug inp) (ss_entry_name inp)] r = (x, r')"
    by (cases "rd_exec R
       [ZAdd (scores_key prefix (b_slug b)) (ss_entry_slug inp) (ss_score inp),
        HSet (entries_key prefix (b_slug b)) (ss_entry_slug inp) (ss_entry_name inp)] r")
  have fin: "f64_is_finite (ss_score inp)" using assms(7) by (simp add: live_submit_ok_def)
  note w = submit_writes [OF assms(4-6) fin x]
  have eq: "realtime_submit S R b inp prefix (db, r) =
      (case x of Inl m \<Rightarrow> Inl (ServiceUnavailable [Lit ''Redis error: '', Str m]) | Inr _ \<Rightarrow> Inr (), db1, r')"
    by (cases x) (simp_all add: realtime_submit_def c on_db_def on_redis_def e(1) x)
  show ?thesis
  proof (cases x)
    case (Inl m)
    with w have "V r' = V r \<or> V r' = submitted prefix (b_slug b) inp (V r)" by auto
    with eq Inl e show ?thesis by auto
  next
    case (Inr u)
    with w have "V r' = submitted prefix (b_slug b) inp (V r)" by auto
    with eq Inr e show ?thesis by auto
  qed
qed

lemma realtime_submit_rejected:
  "\<not> live_submit_ok b inp \<Longrightarrow> \<exists>m. realtime_submit S R b inp prefix s = (Inl (Validation m), s)"
  using check_submit_errs [of b inp] by (auto simp: realtime_submit_def)

text \<open>Whatever happens, a submission keeps the invariants and the other boards' keys.\<close>

lemma realtime_submit_keeps:
  assumes "svc_ok S" "db_inv S db" "b_id b \<in> b_id ` set (boards db)" "redis_ok R V" "live_ok prefix (V r)"
    "CHR '':'' \<notin> set (b_slug b)"
  shows "\<exists>x db' r'. realtime_submit S R b inp prefix (db, r) = (x, db', r') \<and> db_inv S db' \<and> live_ok prefix (V r') \<and>
    boards db' = boards db \<and> versions db' = versions db \<and> placements db' = placements db \<and>
    (\<forall>k. k \<noteq> scores_key prefix (b_slug b) \<longrightarrow> k \<noteq> entries_key prefix (b_slug b) \<longrightarrow>
       ks_z (V r') k = ks_z (V r) k \<and> ks_h (V r') k = ks_h (V r) k)"
proof (cases "live_submit_ok b inp")
  case False
  with realtime_submit_rejected [OF False] assms show ?thesis by (metis (no_types, lifting))
next
  case True
  from realtime_submit_accepted [OF assms True] obtain x db' r' where
      x: "realtime_submit S R b inp prefix (db, r) = (x, db', r')" "db_inv S db'" "boards db' = boards db"
        "versions db' = versions db" "placements db' = placements db"
      and v: "V r' = V r \<or> V r' = submitted prefix (b_slug b) inp (V r)"
    by blast
  have "f64_is_finite (ss_score inp)" using True by (simp add: live_submit_ok_def)
  note ok = submitted_ok [OF assms(5,6) this]
  have "live_ok prefix (V r')" using v ok assms(5) by auto
  moreover have "\<forall>k. k \<noteq> scores_key prefix (b_slug b) \<longrightarrow> k \<noteq> entries_key prefix (b_slug b) \<longrightarrow>
       ks_z (V r') k = ks_z (V r) k \<and> ks_h (V r') k = ks_h (V r) k"
    using v by (auto simp: submitted_def)
  ultimately show ?thesis using x by blast
qed

lemma map2_live:
  assumes "length ns = length xs"
  defines "ps \<equiv> map2 live_placement [0..<length xs] (zip xs ns)"
  shows "map pe_entry_slug ps = map fst xs" "map p_score ps = map (\<lambda>x. Some (snd x)) xs"
    "map p_position ps = map (\<lambda>i. Some (wrap_i32 (int i + 1))) [0..<length xs]"
    "map pe_entry_name ps = map (\<lambda>x. case snd x of Some n \<Rightarrow> n | None \<Rightarrow> fst (fst x)) (zip xs ns)"
  using assms(1) by (auto simp: ps_def live_placement_def intro!: nth_equalityI split: option.splits)

text \<open>The scores a read of the sorted set returns, in the order of the board.\<close>

lemma read_scores:
  assumes "redis_ok R V" "ks_h (V r) k = Map.empty"
    "(if asc then rd_zrange R else rd_zrevrange R) k r = (Inr xs, r')"
  shows "V r' = V r" "map_of xs = ks_z (V r) k" "distinct (map fst xs)"
    "sorted_wrt (\<lambda>x y. if asc then f64_key (snd x) \<le> f64_key (snd y) else f64_key (snd y) \<le> f64_key (snd x)) xs"
proof -
  have k: "member_key x < member_key y \<Longrightarrow> f64_key (snd x) \<le> f64_key (snd y)" for x y
    unfolding member_key_def less_prod_def by (auto simp: le_less)
  have "V r' = V r \<and> range_of (ks_z (V r) k) (if asc then xs else rev xs)"
  proof (cases asc)
    case True
    with assms(3) have "rd_zrange R k r = (Inr xs, r')" by simp
    from redis_zrange(1) [OF assms(1) this] redis_zrange(2) [OF assms(1) this refl assms(2)] True
    show ?thesis by simp
  next
    case False
    with assms(3) have "rd_zrevrange R k r = (Inr xs, r')" by simp
    from redis_zrevrange(1) [OF assms(1) this] redis_zrevrange(2) [OF assms(1) this refl assms(2)] False
    show ?thesis by simp
  qed
  then have V: "V r' = V r" and o: "range_of (ks_z (V r) k) (if asc then xs else rev xs)" by simp_all
  show "V r' = V r" by (rule V)
  show d: "distinct (map fst xs)" using o by (auto simp: range_of_def rev_map [symmetric] split: if_splits)
  have "distinct (map fst (rev xs))" using d by (simp add: rev_map [symmetric])
  then have "map_of (rev xs) = map_of xs" using d by (intro map_of_inject_set [THEN iffD2]) simp_all
  then show "map_of xs = ks_z (V r) k" using o by (auto simp: range_of_def split: if_splits)
  show "sorted_wrt (\<lambda>x y. if asc then f64_key (snd x) \<le> f64_key (snd y) else f64_key (snd y) \<le> f64_key (snd x)) xs"
  proof (cases asc)
    case True
    then show ?thesis using o k by (simp add: range_of_def) (auto elim!: sorted_wrt_mono_rel [rotated])
  next
    case False
    then have "sorted_wrt (\<lambda>a b. member_key b < member_key a) xs" using o by (simp add: range_of_def sorted_wrt_rev)
    with False k show ?thesis by simp (auto elim!: sorted_wrt_mono_rel [rotated])
  qed
qed

text \<open>The names a read returns are those of the hash.\<close>

lemma read_names:
  assumes "redis_ok R V" "live_ok prefix (V r)" "CHR '':'' \<notin> set slug"
    "map_of xs = ks_z (V r) (scores_key prefix slug)" "distinct (map fst xs)"
    "rd_hget R (entries_key prefix slug) (map fst xs) r = (Inr ns, r')"
  shows "V r' = V r" "ns = map (ks_h (V r) (entries_key prefix slug)) (map fst xs)"
    "\<forall>x \<in> set xs. ks_h (V r) (entries_key prefix slug) (fst x) \<noteq> None"
proof -
  show p: "\<forall>x \<in> set xs. ks_h (V r) (entries_key prefix slug) (fst x) \<noteq> None"
  proof
    fix x assume "x \<in> set xs"
    then have "map_of xs (fst x) = Some (snd x)" using assms(5) by (intro map_of_is_SomeI) simp_all
    then show "ks_h (V r) (entries_key prefix slug) (fst x) \<noteq> None"
      using live_okD(3) [OF assms(2,3)] assms(4) by metis
  qed
  show "V r' = V r" by (rule redis_hget(1) [OF assms(1,6)])
  show "ns = map (ks_h (V r) (entries_key prefix slug)) (map fst xs)"
    by (rule redis_hget(2) [OF assms(1,6) refl]) (use p in auto)
qed

lemma latest_reads:
  assumes "redis_ok R V" "live_ok prefix (V r)" "CHR '':'' \<notin> set (b_slug b)"
  shows "(\<exists>m r'. realtime_latest R b prefix now (db, r) = (Inl (ServiceUnavailable m), db, r') \<and> V r' = V r) \<or>
    (\<exists>xs ns r'. realtime_latest R b prefix now (db, r) =
        (Inr \<lparr>vp_version = live_version b now, vp_placements = map2 live_placement [0..<length xs] (zip xs ns)\<rparr>, db, r') \<and>
       V r' = V r \<and> map_of xs = ks_z (V r) (scores_key prefix (b_slug b)) \<and> distinct (map fst xs) \<and>
       sorted_wrt (\<lambda>x y. if b_sort_direction b = ''asc'' then f64_key (snd x) \<le> f64_key (snd y)
         else f64_key (snd y) \<le> f64_key (snd x)) xs \<and>
       ns = map (ks_h (V r) (entries_key prefix (b_slug b))) (map fst xs) \<and>
       (\<forall>x \<in> set xs. ks_h (V r) (entries_key prefix (b_slug b)) (fst x) \<noteq> None))"
proof -
  let ?sk = "scores_key prefix (b_slug b)"
  let ?ek = "entries_key prefix (b_slug b)"
  let ?asc = "b_sort_direction b = ''asc''"
  obtain x r1 where x: "(if ?asc then rd_zrange R else rd_zrevrange R) ?sk r = (x, r1)"
    by (cases "(if ?asc then rd_zrange R else rd_zrevrange R) ?sk r")
  have v1: "V r1 = V r"
    using redis_zrange(1) [OF assms(1), of ?sk r x r1] redis_zrevrange(1) [OF assms(1), of ?sk r x r1] x
    by (auto split: if_splits)
  note h = live_okD(1) [OF assms(2,3)]
  show ?thesis
  proof (cases x)
    case (Inl e)
    with x v1 show ?thesis by (simp add: realtime_latest_def on_redis_def)
  next
    case (Inr xs)
    note rs = read_scores [OF assms(1) h x [unfolded Inr]]
    show ?thesis
    proof (cases "xs = []")
      case True
      then have "realtime_latest R b prefix now (db, r) =
          (Inr \<lparr>vp_version = live_version b now, vp_placements = map2 live_placement [0..<length xs] (zip xs [])\<rparr>, db, r1)"
        using x Inr by (simp add: realtime_latest_def on_redis_def)
      with True rs v1 show ?thesis
        by (intro disjI2 exI [of _ xs] exI [of _ "[]"] exI [of _ r1] conjI) simp_all
    next
      case False
      obtain y r2 where y: "rd_hget R ?ek (map fst xs) r1 = (y, r2)" by (cases "rd_hget R ?ek (map fst xs) r1")
      have v2: "V r2 = V r" using redis_hget(1) [OF assms(1) y] v1 by simp
      show ?thesis
      proof (cases y)
        case (Inl e)
        with x y Inr False v2 show ?thesis by (simp add: realtime_latest_def on_redis_def)
      next
        case (Inr ns)
        from read_names [OF assms(1) _ assms(3), where r = r1, folded v1] assms(2) rs(2,3) y Inr v1
        have n: "ns = map (ks_h (V r) ?ek) (map fst xs)" "\<forall>x \<in> set xs. ks_h (V r) ?ek (fst x) \<noteq> None"
          by metis+
        have l: "length (zip xs ns) = length xs" by (simp add: n(1))
        have "realtime_latest R b prefix now (db, r) =
            (Inr \<lparr>vp_version = live_version b now, vp_placements = map2 live_placement [0..<length xs] (zip xs ns)\<rparr>, db, r2)"
          using x \<open>x = Inr xs\<close> y Inr False by (simp add: realtime_latest_def on_redis_def l del: length_zip)
        with rs v2 n show ?thesis
          by (intro disjI2 exI [of _ xs] exI [of _ ns] exI [of _ r2] conjI) simp_all
      qed
    qed
  qed
qed

section \<open>Publishing\<close>

lemma map_of_find: "map_of (map (\<lambda>e. (f e, g e)) (filter P xs)) k = map_option g (find (\<lambda>e. P e \<and> f e = k) xs)"
  by (induction xs) auto

lemma live_entry_map_eq:
  "m \<in> set slugs \<Longrightarrow> live_entry_map bid slugs db m = map_option e_id (find_entry bid m db)"
proof -
  assume "m \<in> set slugs"
  then have "(\<lambda>e. (e_board_id e = bid \<and> e_slug e \<in> set slugs) \<and> e_slug e = m) = (\<lambda>e. e_board_id e = bid \<and> e_slug e = m)"
    by auto
  then show ?thesis unfolding live_entry_map_def map_of_find find_entry_def by (rule arg_cong)
qed

text \<open>The scores by entry id, as the accumulated ones are.\<close>

definition by_entry :: "uuid \<Rightarrow> db \<Rightarrow> (string \<times> f64) list \<Rightarrow> (uuid \<times> f64) list" where
  "by_entry bid db xs = map (\<lambda>x. (e_id (the (find_entry bid (fst x) db)), snd x)) xs"

lemma insert_live_scores_eq:
  "(\<And>x. x \<in> set xs \<Longrightarrow> em (fst x) = Some (f x)) \<Longrightarrow>
   insert_live_scores S vid em xs db =
     rbind (insert_placements S vid (map score_row (map (\<lambda>x. (f x, snd x)) xs)) db) (\<lambda>(_, db'). Inr db')"
proof (induction xs arbitrary: db)
  case (Cons x xs)
  obtain m s where x: "x = (m, s)" by (cases x)
  have "em m = Some (f (m, s))" using Cons.prems [of x] by (simp add: x)
  moreover note Cons.IH [OF Cons.prems]
  ultimately show ?case
    by (cases "insert_placement (placement_row (next_id S db) vid (score_row (f (m, s), s))) db")
      (auto simp: x rbind_def split: sum.splits)
qed simp

lemma insert_live_scores_Inr:
  "insert_live_scores S vid em xs db = Inr db' \<Longrightarrow>
   (\<forall>x \<in> set xs. em (fst x) \<noteq> None) \<and> distinct (map (\<lambda>x. em (fst x)) xs) \<and>
   (\<forall>x \<in> set xs. \<forall>p \<in> set (placements db). p_version_id p = vid \<longrightarrow> em (fst x) \<noteq> Some (p_entry_id p))"
proof (induction xs arbitrary: db)
  case (Cons x xs)
  obtain m s where x: "x = (m, s)" by (cases x)
  from Cons.prems obtain eid db1 where e: "em m = Some eid"
      "insert_placement (placement_row (next_id S db) vid (score_row (eid, s))) db = Inr db1"
      "insert_live_scores S vid em xs db1 = Inr db'"
    by (auto simp: x)
  have d: "(vid, eid) \<notin> (\<lambda>p. (p_version_id p, p_entry_id p)) ` set (placements db)"
      "placements db1 = placements db @ [placement_row (next_id S db) vid (score_row (eid, s))]"
    using e(2) by (auto simp: insert_placement_def placement_row_def score_row_def split: if_splits)
  note ih = Cons.IH [OF e(3)]
  have "em (fst y) \<noteq> Some eid" if "y \<in> set xs" for y
    using ih that by (auto simp: d(2) placement_row_def score_row_def)
  then have "em m \<notin> (\<lambda>y. em (fst y)) ` set xs" unfolding e(1) by (metis (mono_tags, lifting) imageE)
  then have "distinct (map (\<lambda>y. em (fst y)) (x # xs))" using ih by (simp add: x)
  moreover have "\<forall>p \<in> set (placements db). p_version_id p = vid \<longrightarrow> eid \<noteq> p_entry_id p"
    using d(1) by (metis (mono_tags, lifting) image_eqI)
  ultimately show ?case using ih e(1) by (simp add: x d(2))
qed simp

text \<open>Publishing the standings is publishing the list of their scores by entry id.\<close>

lemma publish_live_eq:
  assumes "\<forall>x \<in> set xs. find_entry (b_id b) (fst x) db \<noteq> None"
  shows "publish_live S b nt mt xs db = publish_scores S b nt mt (by_entry (b_id b) db xs) db"
proof -
  have "insert_live_scores S vid (live_entry_map (b_id b) (map fst xs) db1) xs db1 =
      rbind (insert_placements S vid (map score_row (by_entry (b_id b) db xs)) db1) (\<lambda>(_, db'). Inr db')"
    if "entries db1 = entries db" for db1 vid
  proof -
    have same: "find_entry (b_id b) m db1 = find_entry (b_id b) m db" for m using that by (simp add: find_entry_def)
    have "live_entry_map (b_id b) (map fst xs) db1 (fst x) = Some (e_id (the (find_entry (b_id b) (fst x) db)))"
      if "x \<in> set xs" for x
    proof -
      obtain e where e: "find_entry (b_id b) (fst x) db = Some e" using assms \<open>x \<in> set xs\<close> by blast
      have "fst x \<in> set (map fst xs)" using \<open>x \<in> set xs\<close> by simp
      from live_entry_map_eq [OF this, of "b_id b" db1] show ?thesis
        unfolding same e by simp
    qed
    from insert_live_scores_eq [where f = "\<lambda>x. e_id (the (find_entry (b_id b) (fst x) db))", OF this]
    show ?thesis by (simp add: by_entry_def)
  qed
  then have eq: "insert_live_scores S (v_id v) (live_entry_map (b_id b) (map fst xs) db1) xs db1 =
      rbind (insert_placements S (v_id v) (map score_row (by_entry (b_id b) db xs)) db1) (\<lambda>(_, db'). Inr db')"
    if "insert_new_version S (b_id b) n nt mt db = Inr (v, db1)" for n v db1
    using that by (auto simp: insert_new_version_def insert_version_def split: if_splits)
  show ?thesis
  proof (cases "next_number (b_id b) db")
    case (Inr n)
    show ?thesis
    proof (cases "insert_new_version S (b_id b) n nt mt db")
      case (Inr r)
      obtain v db1 where r: "r = (v, db1)" by (cases r)
      show ?thesis
        unfolding publish_live_def publish_scores_def \<open>next_number (b_id b) db = Inr n\<close> Inr r rbind_Inr prod.case
          eq [OF Inr [unfolded r]]
        by (cases "insert_placements S (v_id v) (map score_row (by_entry (b_id b) db xs)) db1") auto
    qed (simp add: publish_live_def publish_scores_def \<open>next_number (b_id b) db = Inr n\<close>)
  qed (simp add: publish_live_def publish_scores_def)
qed

lemma publish_live_Inr:
  assumes "svc_ok S" "db_inv S db" "publish_live S b nt mt xs db = Inr (vp, db')"
  shows "\<forall>x \<in> set xs. find_entry (b_id b) (fst x) db \<noteq> None"
    "scores_ok (b_id b) (by_entry (b_id b) db xs) db"
    "publish_scores S b nt mt (by_entry (b_id b) db xs) db = Inr (vp, db')"
proof -
  from assms(3) obtain n v db1 db2 where s: "insert_new_version S (b_id b) n nt mt db = Inr (v, db1)"
      "insert_live_scores S (v_id v) (live_entry_map (b_id b) (map fst xs) db1) xs db1 = Inr db2"
    by (auto simp: publish_live_def)
  have "entries db1 = entries db"
    using s(1) by (auto simp: insert_new_version_def insert_version_def split: if_splits)
  then have f: "find_entry (b_id b) m db1 = find_entry (b_id b) m db" for m by (simp add: find_entry_def)
  have em: "live_entry_map (b_id b) (map fst xs) db1 (fst x) = map_option e_id (find_entry (b_id b) (fst x) db)"
    if "x \<in> set xs" for x
    unfolding f [symmetric] by (rule live_entry_map_eq) (use that in simp)
  note l = insert_live_scores_Inr [OF s(2)]
  show found: "\<forall>x \<in> set xs. find_entry (b_id b) (fst x) db \<noteq> None"
  proof
    fix x assume x: "x \<in> set xs"
    with l have "live_entry_map (b_id b) (map fst xs) db1 (fst x) \<noteq> None" by blast
    then show "find_entry (b_id b) (fst x) db \<noteq> None" unfolding em [OF x] by simp
  qed
  have "map (\<lambda>x. live_entry_map (b_id b) (map fst xs) db1 (fst x)) xs =
      map Some (map fst (by_entry (b_id b) db xs))"
    using em found by (auto simp: by_entry_def)
  with l have "distinct (map Some (map fst (by_entry (b_id b) db xs)))" by metis
  then have "distinct (map fst (by_entry (b_id b) db xs))" by (simp only: distinct_map)
  moreover have "(fst y, b_id b) \<in> entry_keys db" if y: "y \<in> set (by_entry (b_id b) db xs)" for y
  proof -
    obtain x where x: "x \<in> set xs" "fst y = e_id (the (find_entry (b_id b) (fst x) db))"
      using y by (auto simp: by_entry_def)
    obtain e where "find_entry (b_id b) (fst x) db = Some e" using found x(1) by blast
    with find_entry_Some [OF this] x(2) show ?thesis by (auto simp: entry_keys_def)
  qed
  ultimately show "scores_ok (b_id b) (by_entry (b_id b) db xs) db" by (simp add: scores_ok_def)
  show "publish_scores S b nt mt (by_entry (b_id b) db xs) db = Inr (vp, db')"
    using assms(3) unfolding publish_live_eq [OF found] .
qed

text \<open>The database transaction of a snapshot, for the standings Redis answered with.\<close>

definition live_transaction ::
  "svc \<Rightarrow> board \<times> string option \<times> json option \<times> (string \<times> f64) list \<Rightarrow> db \<Rightarrow>
   (version_with_placements \<times> db) result" where
  "live_transaction S i db =
     (case i of (b0, nt, mt, scores) \<Rightarrow>
        rbind (lock_board (b_id b0) db) (\<lambda>b. publish_live S b nt mt scores db))"

interpretation live_writer: version_writer "\<lambda>d. svc_ok S \<and> db_inv S d" "\<lambda>(b, _, _, _). b_id b" "live_transaction S"
  for S :: svc
proof
  fix d d' :: db and i :: "board \<times> string option \<times> json option \<times> (string \<times> f64) list" and r
  obtain b0 nt mt xs where i: "i = (b0, nt, mt, xs)" by (cases i)
  assume a: "svc_ok S \<and> db_inv S d" "live_transaction S i d = Inr (r, d')"
  then obtain b where b: "lock_board (b_id b0) d = Inr b" "publish_live S b nt mt xs d = Inr (r, d')"
    by (auto simp: live_transaction_def i)
  note m = lock_board_Inr [OF b(1)]
  note p = publish_live_Inr [OF _ _ b(2)]
  have "db_inv S d' \<and> published d (b_id b) (vp_version r) d'"
    by (rule publish_scores_contract [OF _ _ _ p(2,3)]) (use a m in simp_all)
  with a m show "svc_ok S \<and> db_inv S d'" "\<exists>v. published d (case i of (b, _, _, _) \<Rightarrow> b_id b) v d'"
    by (auto simp: i)
qed

text \<open>The placements a snapshot returns are the standings, by slug.\<close>

lemma publish_live_standings:
  assumes "svc_ok S" "db_inv S db" "b \<in> set (boards db)" "publish_live S b nt mt xs db = Inr (vp, db')"
  shows "mset (map (\<lambda>p. (pe_entry_slug p, p_score p)) (vp_placements vp)) = mset (map (\<lambda>x. (fst x, Some (snd x))) xs)"
    "map p_position (vp_placements vp) = map (\<lambda>i. Some (1 + int i)) [0..<length xs]"
    "db_inv S db'" "published db (b_id b) (vp_version vp) db'"
proof -
  note p = publish_live_Inr [OF assms(1,2,4)]
  note c = publish_scores_contract [OF assms(1-3) p(2,3)]
  show inv: "db_inv S db'" and pub: "published db (b_id b) (vp_version vp) db'" using c by simp_all
  show "map p_position (vp_placements vp) = map (\<lambda>i. Some (1 + int i)) [0..<length xs]"
    using publish_scores_ranked(2) [OF assms(1-3) p(2,3)] by (simp add: by_entry_def)
  have k: "keys_ok db'" using inv by (simp add: db_inv_def)
  have en: "entries db' = entries db" using pub by (simp add: published_def)
  from publish_scores_ranked(1) [OF assms(1-3) p(2,3)] obtain rows where
      r1: "mset (filter (\<lambda>p. p_version_id p = v_id (vp_version vp)) (placements db')) = mset rows"
      and r2: "mset (map (\<lambda>p. (p_entry_id p, p_score p)) rows) = mset (map (\<lambda>x. (fst x, Some (snd x))) (by_entry (b_id b) db xs))"
    by blast
  have vp: "vp_placements vp = fetch_ranked S (v_id (vp_version vp)) db'"
    using p(3) by (auto simp: publish_scores_def)
  let ?slug = "\<lambda>eid. e_slug (entry_of db' eid)"
  have "mset (map (\<lambda>p. (pe_entry_slug p, p_score p)) (vp_placements vp)) =
      mset (map (\<lambda>p. (?slug (p_entry_id p), p_score p)) (filter (\<lambda>p. p_version_id p = v_id (vp_version vp)) (placements db')))"
    by (simp add: vp fetch_ranked_def joined_placements_eq [OF inv] with_entry_def image_mset.compositionality comp_def
        placement.defs)
  also have "\<dots> = image_mset (\<lambda>(eid, sc). (?slug eid, sc)) (mset (map (\<lambda>p. (p_entry_id p, p_score p)) rows))"
    by (simp only: mset_map r1 image_mset.compositionality comp_def prod.case)
  also have "\<dots> = mset (map (\<lambda>x. (?slug (e_id (the (find_entry (b_id b) (fst x) db))), Some (snd x))) xs)"
    unfolding r2 by (simp add: by_entry_def image_mset.compositionality comp_def)
  also have "\<dots> = mset (map (\<lambda>x. (fst x, Some (snd x))) xs)"
  proof (intro arg_cong [of _ _ mset] map_cong refl)
    fix x assume "x \<in> set xs"
    then obtain e where e: "find_entry (b_id b) (fst x) db = Some e" using p(1) by blast
    note f = find_entry_Some [OF e]
    then have "entry_of db' (e_id e) = e" by (intro entry_of_eq [OF k]) (simp add: en)
    with e f show "(?slug (e_id (the (find_entry (b_id b) (fst x) db))), Some (snd x)) = (fst x, Some (snd x))" by simp
  qed
  finally show "mset (map (\<lambda>p. (pe_entry_slug p, p_score p)) (vp_placements vp)) = mset (map (\<lambda>x. (fst x, Some (snd x))) xs)" .
qed

lemma delete_snap_keys_view:
  assumes "redis_ok R V"
  shows "\<exists>r'. delete_snap_keys R keys (db, r) = (db, r') \<and>
    (case keys of None \<Rightarrow> r' = r
     | Some (a, b) \<Rightarrow> V r' = V r \<or> V r' = apply_writes [Del a, Del b] (V r))"
proof (cases keys)
  case (Some k)
  obtain a b where k: "k = (a, b)" by (cases k)
  obtain x r' where x: "rd_exec R [Del a, Del b] r = (x, r')" by (cases "rd_exec R [Del a, Del b] r")
  have w: "writes_ok [Del a, Del b] (V r)" by simp
  have "V r' = V r \<or> V r' = apply_writes [Del a, Del b] (V r)"
    using redis_exec [OF assms w] x by (cases x) blast+
  with x Some k show ?thesis by (simp add: delete_snap_keys_def)
qed (simp add: delete_snap_keys_def)

lemma publish_snapshot_Inr:
  assumes "publish_snapshot S R b0 nt mt mv me read_sk keys (db, r) = (Inr vp, s')"
  shows "\<exists>b xs r1 db'. lock_board (b_id b0) db = Inr b \<and> rd_zrevrange R read_sk r = (Inr xs, r1) \<and> xs \<noteq> [] \<and>
    publish_live S b nt mt xs db = Inr (vp, db') \<and> s' = delete_snap_keys R keys (db', r1)"
proof -
  obtain x r1 where x: "rd_zrevrange R read_sk r = (x, r1)" by (cases "rd_zrevrange R read_sk r")
  obtain b where b: "lock_board (b_id b0) db = Inr b"
    using assms by (cases "lock_board (b_id b0) db") (simp_all add: publish_snapshot_def)
  obtain xs where xs: "x = Inr xs" "xs \<noteq> []"
    using assms b x
    by (cases x) (auto simp: publish_snapshot_def on_redis_def split: sum.splits if_splits)
  then obtain db' where "publish_live S b nt mt xs db = Inr (vp, db')" "s' = delete_snap_keys R keys (db', r1)"
    using assms b x
    by (auto simp: publish_snapshot_def on_redis_def on_db_def split: sum.splits)
  with b x xs show ?thesis by blast
qed

section \<open>Isolating the scores\<close>

text \<open>The keys after the rename of a clearing snapshot.\<close>

definition isolated :: "string \<Rightarrow> string \<Rightarrow> string \<Rightarrow> keyspace \<Rightarrow> keyspace" where
  "isolated prefix slug i ks =
     apply_writes [Rename (scores_key prefix slug) (snap_key (scores_key prefix slug) i),
                   Rename (entries_key prefix slug) (snap_key (entries_key prefix slug) i)] ks"

lemma isolated_keys:
  assumes "live_ok prefix ks" "CHR '':'' \<notin> set slug"
  defines "sk \<equiv> scores_key prefix slug" and "ek \<equiv> entries_key prefix slug"
  shows "ks_z (isolated prefix slug i ks) (snap_key sk i) = ks_z ks sk"
    "ks_h (isolated prefix slug i ks) (snap_key sk i) = Map.empty"
    "ks_z (isolated prefix slug i ks) sk = Map.empty" "ks_h (isolated prefix slug i ks) ek = Map.empty"
    "k \<notin> {sk, ek, snap_key sk i, snap_key ek i} \<Longrightarrow>
       ks_z (isolated prefix slug i ks) k = ks_z ks k \<and> ks_h (isolated prefix slug i ks) k = ks_h ks k"
    "live_ok prefix (isolated prefix slug i ks)"
proof -
  note n = snap_key_working [OF assms(2) assms(2), where p = prefix and i = i] snap_keys_differ [of prefix slug i]
  note h = live_okD [OF assms(1,2)]
  show "ks_z (isolated prefix slug i ks) (snap_key sk i) = ks_z ks sk"
    "ks_h (isolated prefix slug i ks) (snap_key sk i) = Map.empty"
    "ks_z (isolated prefix slug i ks) sk = Map.empty" "ks_h (isolated prefix slug i ks) ek = Map.empty"
    using n n [symmetric] h by (auto simp: isolated_def sk_def ek_def)
  show other: "ks_z (isolated prefix slug i ks) k = ks_z ks k \<and> ks_h (isolated prefix slug i ks) k = ks_h ks k"
    if "k \<notin> {sk, ek, snap_key sk i, snap_key ek i}" for k
    using that by (auto simp: isolated_def sk_def ek_def)
  show "live_ok prefix (isolated prefix slug i ks)"
    unfolding live_ok_def
  proof (intro allI impI)
    fix slug' assume c: "CHR '':'' \<notin> set slug'"
    note n' = snap_key_working [OF assms(2) c, where p = prefix and i = i]
    note h' = live_okD [OF assms(1) c]
    show "ks_h (isolated prefix slug i ks) (scores_key prefix slug') = Map.empty \<and>
        ks_z (isolated prefix slug i ks) (entries_key prefix slug') = Map.empty \<and>
        (\<forall>m s. ks_z (isolated prefix slug i ks) (scores_key prefix slug') m = Some s \<longrightarrow>
           f64_is_finite s \<and> ks_h (isolated prefix slug i ks) (entries_key prefix slug') m \<noteq> None)"
      using n' n' [symmetric] h' h by (auto simp: isolated_def)
  qed
qed

lemma isolate_clearing:
  assumes "redis_ok R V" "live_ok prefix (V r)" "CHR '':'' \<notin> set (b_slug b)" "b_clear_on_snapshot b"
    and "isolate R b prefix i (db, r) = (Inr (read_sk, keys), s1)"
  shows "read_sk = snap_key (scores_key prefix (b_slug b)) i"
    "keys = Some (snap_key (scores_key prefix (b_slug b)) i, snap_key (entries_key prefix (b_slug b)) i)"
    "fst s1 = db" "V (snd s1) = isolated prefix (b_slug b) i (V r)" "ks_z (V r) (scores_key prefix (b_slug b)) \<noteq> Map.empty"
proof -
  let ?sk = "scores_key prefix (b_slug b)" and ?ek = "entries_key prefix (b_slug b)"
  note h = live_okD [OF assms(2,3)]
  obtain x r1 where x: "rd_exists R ?sk r = (x, r1)" by (cases "rd_exists R ?sk r")
  note x' = redis_exists [OF assms(1) x]
  obtain y r2 where y: "rd_exists R ?ek r1 = (y, r2)" by (cases "rd_exists R ?ek r1")
  note y' = redis_exists [OF assms(1) y]
  have "x = Inr True"
    using assms(4,5) x by (cases x) (auto simp: isolate_def Let_def on_redis_def split: if_splits)
  then have e: "key_exists (V r) ?sk" using x'(2) by blast
  then show ne: "ks_z (V r) ?sk \<noteq> Map.empty" using h(1) by (simp add: key_exists_def)
  then obtain m where "ks_z (V r) ?sk m \<noteq> None" by (auto simp: fun_eq_iff)
  then obtain sc where "ks_z (V r) ?sk m = Some sc" by blast
  from h(3) [OF this] have e2: "key_exists (V r) ?ek" by (auto simp: key_exists_def fun_eq_iff)
  have "y = Inr True"
    using assms(4,5) x y \<open>x = Inr True\<close> y'(2) x'(1) e2
    by (cases y) (auto simp: isolate_def Let_def on_redis_def split: if_splits)
  obtain z r3 where z: "rd_exec R [Rename ?sk (snap_key ?sk i), Rename ?ek (snap_key ?ek i)] r2 = (z, r3)"
    by (cases "rd_exec R [Rename ?sk (snap_key ?sk i), Rename ?ek (snap_key ?ek i)] r2")
  have o: "z = Inr ()" "read_sk = snap_key ?sk i \<and> keys = Some (snap_key ?sk i, snap_key ?ek i) \<and> s1 = (db, r3)"
    using assms(4,5) x y z \<open>x = Inr True\<close> \<open>y = Inr True\<close>
    by (cases z; simp add: isolate_def Let_def on_redis_def)+
  then show "read_sk = snap_key ?sk i" "keys = Some (snap_key ?sk i, snap_key ?ek i)" "fst s1 = db" by simp_all
  have v: "V r2 = V r" using x'(1) y'(1) by simp
  have n: "?ek \<noteq> snap_key ?sk i" using snap_key_working(2) [OF assms(3) assms(3)] by metis
  have "key_exists (apply_write (Rename ?sk (snap_key ?sk i)) (V r)) ?ek"
    using e2 n by (simp add: key_exists_def)
  with e have "writes_ok [Rename ?sk (snap_key ?sk i), Rename ?ek (snap_key ?ek i)] (V r2)" by (simp add: v)
  from redis_exec(1) [OF assms(1) this, of "()" r3] z o
  show "V (snd s1) = isolated prefix (b_slug b) i (V r)" by (simp add: v isolated_def)
qed

text \<open>Submissions made one after another, to any boards, whatever their answers.\<close>

fun submissions :: "svc \<Rightarrow> 'r redis \<Rightarrow> string \<Rightarrow> (board \<times> submit_score) list \<Rightarrow> 'r world \<Rightarrow> 'r world" where
  "submissions S R prefix [] s = s"
| "submissions S R prefix ((b, inp) # rest) s =
     submissions S R prefix rest (snd (realtime_submit S R b inp prefix s))"

lemma submissions_keep:
  assumes "svc_ok S" "redis_ok R V"
  shows "db_inv S db \<Longrightarrow> live_ok prefix (V r) \<Longrightarrow>
    \<forall>x \<in> set subs. b_id (fst x) \<in> b_id ` set (boards db) \<and> CHR '':'' \<notin> set (b_slug (fst x)) \<Longrightarrow>
    \<exists>db' r'. submissions S R prefix subs (db, r) = (db', r') \<and> db_inv S db' \<and> live_ok prefix (V r') \<and>
      boards db' = boards db \<and> versions db' = versions db \<and> placements db' = placements db \<and>
      (\<forall>k. (\<forall>slug. CHR '':'' \<notin> set slug \<longrightarrow> k \<noteq> scores_key prefix slug \<and> k \<noteq> entries_key prefix slug) \<longrightarrow>
         ks_z (V r') k = ks_z (V r) k \<and> ks_h (V r') k = ks_h (V r) k)"
proof (induction subs arbitrary: db r)
  case (Cons y subs)
  obtain b inp where y: "y = (b, inp)" by (cases y)
  have b: "b_id b \<in> b_id ` set (boards db)" "CHR '':'' \<notin> set (b_slug b)" using Cons.prems(3) by (simp_all add: y)
  from realtime_submit_keeps [OF assms(1) Cons.prems(1) b(1) assms(2) Cons.prems(2) b(2), of inp]
  obtain x db1 r1 where s: "realtime_submit S R b inp prefix (db, r) = (x, db1, r1)" "db_inv S db1" "live_ok prefix (V r1)"
      "boards db1 = boards db" "versions db1 = versions db" "placements db1 = placements db"
      and k: "\<forall>k. k \<noteq> scores_key prefix (b_slug b) \<longrightarrow> k \<noteq> entries_key prefix (b_slug b) \<longrightarrow>
       ks_z (V r1) k = ks_z (V r) k \<and> ks_h (V r1) k = ks_h (V r) k"
    by blast
  from Cons.IH [OF s(2,3)] Cons.prems(3) s(4) obtain db2 r2 where
      t: "submissions S R prefix subs (db1, r1) = (db2, r2)" "db_inv S db2" "live_ok prefix (V r2)"
      "boards db2 = boards db1" "versions db2 = versions db1" "placements db2 = placements db1"
      and l: "\<forall>k. (\<forall>slug. CHR '':'' \<notin> set slug \<longrightarrow> k \<noteq> scores_key prefix slug \<and> k \<noteq> entries_key prefix slug) \<longrightarrow>
         ks_z (V r2) k = ks_z (V r1) k \<and> ks_h (V r2) k = ks_h (V r1) k"
    by auto
  show ?case
    by (intro exI [of _ db2] exI [of _ r2] conjI allI impI) (use s t k l b y in \<open>simp_all\<close>)
qed simp

section \<open>Properties\<close>

definition live_board :: board where
  "live_board = sample_row\<lparr>b_realtime := True, b_clear_on_snapshot := True\<rparr>"

definition live_db :: db where
  "live_db = sample_entry_db\<lparr>boards := [live_board]\<rparr>"

lemma live_board_fields [simp]:
  "b_id live_board = b_id sample_row" "b_slug live_board = ''speed''" "b_realtime live_board"
  "b_clear_on_snapshot live_board" "b_sort_direction live_board = ''asc''"
  by (simp_all add: live_board_def sample_row_def new_board_def sample_board_def)

lemma live_db_inv [simp]: "db_inv sample_svc live_db"
proof -
  let ?f = "\<lambda>b. b\<lparr>b_realtime := True, b_clear_on_snapshot := True\<rparr>"
  have "live_db = sample_entry_db\<lparr>boards := update_where (\<lambda>_. True) ?f (boards sample_entry_db)\<rparr>"
    by (simp add: live_db_def live_board_def sample_entry_db_def sample_db_def update_where_def)
  moreover have "db_inv sample_svc (sample_entry_db\<lparr>boards := update_where (\<lambda>_. True) ?f (boards sample_entry_db)\<rparr>)"
    by (rule update_boards_inv [OF sample_entry_db_inv])
      (auto simp: sample_entry_db_def sample_db_def sample_row_def new_board_def sample_board_def board_check_def)
  ultimately show ?thesis by simp
qed

lemma live_db_board [simp]: "live_board \<in> set (boards live_db)" "b_id sample_row \<in> b_id ` set (boards live_db)"
  "lock_board (b_id sample_row) live_db = Inr live_board"
  by (simp_all add: live_db_def lock_board_def)

text \<open>A store in which the entry \<open>ann\<close> of the board has the score 0.\<close>

definition live_store :: sample_store where
  "live_store =
     \<lparr>sr_z = (\<lambda>k. if k = scores_key ''rl'' ''speed'' then [(''ann'', 0)] else []),
      sr_h = (\<lambda>k. if k = entries_key ''rl'' ''speed'' then [(''ann'', ''Ann'')] else [])\<rparr>"

lemma live_store_view:
  "ks_z (sample_view live_store) k = (if k = scores_key ''rl'' ''speed'' then [''ann'' \<mapsto> 0] else Map.empty)"
  "ks_h (sample_view live_store) k = (if k = entries_key ''rl'' ''speed'' then [''ann'' \<mapsto> ''Ann''] else Map.empty)"
  by (simp_all add: sample_view_def live_store_def fun_eq_iff)

lemma live_store_ok [simp]: "live_ok ''rl'' (sample_view live_store)"
  by (simp add: live_ok_def live_store_view f64_is_finite_def f64_magnitude_def f64_infinity_bits_def)

lemma live_slug [simp]: "CHR '':'' \<notin> set ''speed''"
  by simp

text \<open>
  C14: a realtime submission. A bad one is a validation error that changes nothing. Otherwise the
  entry exists in the database under the given name, and once Redis has answered, the sorted set of
  the board holds exactly this score for the entry; when Redis fails the answer is
  \<open>ServiceUnavailable\<close> and the score was written or not. Published versions and the scores of every
  other board are untouched.
\<close>

theorem realtime_submit_spec:
  assumes "svc_ok S" "db_inv S db" "b \<in> set (boards db)" "redis_ok R V" "live_ok prefix (V r)"
    "CHR '':'' \<notin> set (b_slug b)"
  defines "sk \<equiv> scores_key prefix (b_slug b)"
  shows "if \<not> live_submit_ok b inp then \<exists>m. realtime_submit S R b inp prefix (db, r) = (Inl (Validation m), db, r)
    else \<exists>x db' r' e. realtime_submit S R b inp prefix (db, r) = (x, db', r') \<and> db_inv S db' \<and>
      find_entry (b_id b) (ss_entry_slug inp) db' = Some e \<and> e_name e = ss_entry_name inp \<and>
      versions db' = versions db \<and> placements db' = placements db \<and> live_ok prefix (V r') \<and>
      (x = Inr () \<and> ks_z (V r') sk = (ks_z (V r) sk)(ss_entry_slug inp \<mapsto> ss_score inp) \<or>
       (\<exists>m. x = Inl (ServiceUnavailable m)) \<and>
         (ks_z (V r') sk = ks_z (V r) sk \<or> ks_z (V r') sk = (ks_z (V r) sk)(ss_entry_slug inp \<mapsto> ss_score inp))) \<and>
      (\<forall>slug. slug \<noteq> b_slug b \<longrightarrow> ks_z (V r') (scores_key prefix slug) = ks_z (V r) (scores_key prefix slug))"
proof (cases "live_submit_ok b inp")
  case False
  with realtime_submit_rejected [OF False, of S R prefix "(db, r)"] show ?thesis by simp
next
  case True
  have bid: "b_id b \<in> b_id ` set (boards db)" using assms(3) by simp
  from realtime_submit_accepted [OF assms(1,2) bid assms(4-6) True] obtain x db' r' e where
      o: "realtime_submit S R b inp prefix (db, r) = (x, db', r')" "db_inv S db'"
        "find_entry (b_id b) (ss_entry_slug inp) db' = Some e" "e_name e = ss_entry_name inp"
        "versions db' = versions db" "placements db' = placements db"
      and v: "x = Inr () \<and> V r' = submitted prefix (b_slug b) inp (V r) \<or>
        (\<exists>m. x = Inl (ServiceUnavailable m)) \<and> (V r' = V r \<or> V r' = submitted prefix (b_slug b) inp (V r))"
    by blast
  from realtime_submit_keeps [OF assms(1,2) bid assms(4-6), of inp] o(1) have k: "live_ok prefix (V r')"
      "\<forall>slug. slug \<noteq> b_slug b \<longrightarrow> ks_z (V r') (scores_key prefix slug) = ks_z (V r) (scores_key prefix slug)"
    by simp_all
  have z: "ks_z (submitted prefix (b_slug b) inp (V r)) sk = (ks_z (V r) sk)(ss_entry_slug inp \<mapsto> ss_score inp)"
    by (simp add: submitted_def sk_def)
  have w: "x = Inr () \<and> ks_z (V r') sk = (ks_z (V r) sk)(ss_entry_slug inp \<mapsto> ss_score inp) \<or>
       (\<exists>m. x = Inl (ServiceUnavailable m)) \<and>
         (ks_z (V r') sk = ks_z (V r) sk \<or> ks_z (V r') sk = (ks_z (V r) sk)(ss_entry_slug inp \<mapsto> ss_score inp))"
    using v z by metis
  show ?thesis
    by (intro if_not_P [THEN iffD2] exI [of _ x] exI [of _ db'] exI [of _ r'] exI [of _ e] conjI o k w)
      (use True in simp)
qed

theorem realtime_submit_spec_witness:
  "\<exists>x db' r'. realtime_submit sample_svc sample_redis live_board sample_score ''rl'' (live_db, live_store) = (x, db', r') \<and>
     db_inv sample_svc db' \<and> live_ok ''rl'' (sample_view r')"
proof -
  have ok: "live_submit_ok live_board sample_score"
    by (simp add: live_submit_ok_def sample_score_def slug_ok_def name_ok_def slug_byte_def less_eq_char_def
        f64_is_finite_def f64_magnitude_def f64_infinity_bits_def)
  have c: "CHR '':'' \<notin> set (b_slug live_board)" by simp
  from realtime_submit_spec [OF sample_svc_ok live_db_inv live_db_board(1) sample_redis_ok live_store_ok c, of sample_score] ok
  show ?thesis by (auto simp del: live_board_fields)
qed

text \<open>
  The live standings are right. Reading them changes nothing and fails only as
  \<open>ServiceUnavailable\<close>; the answer, version 0, lists exactly the members of the board's sorted set,
  each once with its score and name, best first by the direction of the board, at the positions
  1, 2, ...
\<close>

theorem realtime_latest_ranked:
  assumes "redis_ok R V" "live_ok prefix (V r)" "CHR '':'' \<notin> set (b_slug b)"
  shows "(\<exists>m r'. realtime_latest R b prefix now (db, r) = (Inl (ServiceUnavailable m), db, r') \<and> V r' = V r) \<or>
    (\<exists>vp r'. realtime_latest R b prefix now (db, r) = (Inr vp, db, r') \<and> V r' = V r \<and>
       v_number (vp_version vp) = 0 \<and> distinct (map pe_entry_slug (vp_placements vp)) \<and>
       (\<forall>m sc n. (\<exists>p \<in> set (vp_placements vp). pe_entry_slug p = m \<and> p_score p = Some sc \<and> pe_entry_name p = n) \<longleftrightarrow>
          ks_z (V r) (scores_key prefix (b_slug b)) m = Some sc \<and>
          ks_h (V r) (entries_key prefix (b_slug b)) m = Some n) \<and>
       sorted_wrt (\<lambda>p q. \<forall>x y. p_score p = Some x \<longrightarrow> p_score q = Some y \<longrightarrow>
          (if b_sort_direction b = ''asc'' then f64_key x \<le> f64_key y else f64_key y \<le> f64_key x)) (vp_placements vp) \<and>
       map p_position (vp_placements vp) =
         map (\<lambda>i. Some (wrap_i32 (int i + 1))) [0..<length (vp_placements vp)])"
  (is "?fail \<or> ?good")
proof (cases ?fail)
  case False
  let ?sk = "scores_key prefix (b_slug b)" and ?ek = "entries_key prefix (b_slug b)"
  from latest_reads [OF assms, of now db] False obtain xs ns r' where
      eq: "realtime_latest R b prefix now (db, r) =
        (Inr \<lparr>vp_version = live_version b now, vp_placements = map2 live_placement [0..<length xs] (zip xs ns)\<rparr>, db, r')"
      and v: "V r' = V r" and z: "map_of xs = ks_z (V r) ?sk" and d: "distinct (map fst xs)"
      and s: "sorted_wrt (\<lambda>x y. if b_sort_direction b = ''asc'' then f64_key (snd x) \<le> f64_key (snd y)
         else f64_key (snd y) \<le> f64_key (snd x)) xs"
      and ns: "ns = map (ks_h (V r) ?ek) (map fst xs)" and nm: "\<forall>x \<in> set xs. ks_h (V r) ?ek (fst x) \<noteq> None"
    by blast
  let ?ps = "map2 live_placement [0..<length xs] (zip xs ns)"
  have l: "length ns = length xs" by (simp add: ns)
  note m = map2_live [OF l]
  have nth: "pe_entry_slug (?ps ! i) = fst (xs ! i)" "p_score (?ps ! i) = Some (snd (xs ! i))"
      "Some (pe_entry_name (?ps ! i)) = ks_h (V r) ?ek (fst (xs ! i))" if "i < length xs" for i
  proof -
    have "ks_h (V r) ?ek (fst (xs ! i)) \<noteq> None" using nm that by simp
    then show "pe_entry_slug (?ps ! i) = fst (xs ! i)" "p_score (?ps ! i) = Some (snd (xs ! i))"
        "Some (pe_entry_name (?ps ! i)) = ks_h (V r) ?ek (fst (xs ! i))"
      using that l by (auto simp: live_placement_def ns)
  qed
  have members: "(\<exists>p \<in> set ?ps. pe_entry_slug p = m \<and> p_score p = Some sc \<and> pe_entry_name p = n) \<longleftrightarrow>
      ks_z (V r) ?sk m = Some sc \<and> ks_h (V r) ?ek m = Some n" (is "?L \<longleftrightarrow> ?R") for m sc n
  proof
    assume ?L
    then obtain i where i: "i < length xs" "pe_entry_slug (?ps ! i) = m" "p_score (?ps ! i) = Some sc"
        "pe_entry_name (?ps ! i) = n"
      using l by (auto simp: in_set_conv_nth)
    then have x: "xs ! i = (m, sc)" using nth(1,2) [OF i(1)] by (simp add: prod_eq_iff)
    then have "map_of xs m = Some sc" using d i(1) by (metis map_of_is_SomeI nth_mem)
    with z nth(3) [OF i(1)] i(4) x show ?R by simp
  next
    assume r: ?R
    then have "(m, sc) \<in> set xs" using z by (metis map_of_SomeD)
    then obtain i where i: "i < length xs" "xs ! i = (m, sc)" by (auto simp: in_set_conv_nth)
    have "?ps ! i \<in> set ?ps" using i(1) l by (intro nth_mem) simp
    moreover have "pe_entry_slug (?ps ! i) = m" "p_score (?ps ! i) = Some sc" "pe_entry_name (?ps ! i) = n"
      using nth [OF i(1)] i(2) r by simp_all
    ultimately show ?L by blast
  qed
  have sorted: "sorted_wrt (\<lambda>p q. \<forall>x y. p_score p = Some x \<longrightarrow> p_score q = Some y \<longrightarrow>
      (if b_sort_direction b = ''asc'' then f64_key x \<le> f64_key y else f64_key y \<le> f64_key x)) ?ps"
    unfolding sorted_wrt_iff_nth_less
  proof (intro allI impI)
    fix i j x y assume ij: "i < j" "j < length ?ps" and p: "p_score (?ps ! i) = Some x" "p_score (?ps ! j) = Some y"
    have b: "i < length xs" "j < length xs" using ij l by simp_all
    have "x = snd (xs ! i)" "y = snd (xs ! j)" using p nth(2) b by simp_all
    with s ij(1) b show "if b_sort_direction b = ''asc'' then f64_key x \<le> f64_key y else f64_key y \<le> f64_key x"
      by (simp add: sorted_wrt_iff_nth_less)
  qed
  have pos: "map p_position ?ps = map (\<lambda>i. Some (wrap_i32 (int i + 1))) [0..<length ?ps]"
    using m(3) l by simp
  have "?good"
    by (intro exI [of _ "\<lparr>vp_version = live_version b now, vp_placements = ?ps\<rparr>"] exI [of _ r'] conjI eq v allI)
      (simp_all only: version_with_placements.select_convs m(1) d members sorted pos, simp add: live_version_def)
  then show ?thesis ..
qed simp

theorem realtime_latest_ranked_witness:
  "\<exists>vp r'. realtime_latest sample_redis live_board ''rl'' 7 (live_db, live_store) = (Inr vp, live_db, r') \<and>
     v_number (vp_version vp) = 0 \<and> (\<exists>p \<in> set (vp_placements vp). pe_entry_slug p = ''ann'' \<and> p_score p = Some 0)"
proof -
  have c: "CHR '':'' \<notin> set (b_slug live_board)" by simp
  let ?read = "realtime_latest sample_redis live_board ''rl'' 7 (live_db, live_store)"
  have nf: "fst ?read \<noteq> Inl e" for e
    by (simp add: realtime_latest_def on_redis_def sample_redis_def)
  from realtime_latest_ranked [OF sample_redis_ok live_store_ok c, of 7 live_db] show ?thesis
  proof (elim disjE exE conjE)
    fix m r' assume "?read = (Inl (ServiceUnavailable m), live_db, r')"
    with nf [of "ServiceUnavailable m"] show ?thesis by simp
  next
    fix vp r' assume r: "?read = (Inr vp, live_db, r')" "v_number (vp_version vp) = 0"
      and m: "\<forall>m sc n. (\<exists>p \<in> set (vp_placements vp). pe_entry_slug p = m \<and> p_score p = Some sc \<and> pe_entry_name p = n) \<longleftrightarrow>
          ks_z (sample_view live_store) (scores_key ''rl'' (b_slug live_board)) m = Some sc \<and>
          ks_h (sample_view live_store) (entries_key ''rl'' (b_slug live_board)) m = Some n"
    have "ks_z (sample_view live_store) (scores_key ''rl'' (b_slug live_board)) ''ann'' = Some 0 \<and>
        ks_h (sample_view live_store) (entries_key ''rl'' (b_slug live_board)) ''ann'' = Some ''Ann''"
      by (simp add: live_store_view)
    with m have "\<exists>p \<in> set (vp_placements vp). pe_entry_slug p = ''ann'' \<and> p_score p = Some 0" by metis
    with r show ?thesis by blast
  qed
qed

end
