(* ===== verification/Snapshots.thy ===== *)
theory Snapshots
  imports Realtime
begin

text \<open>
  What a snapshot of a realtime board publishes, what it leaves in Redis when submissions run
  beside it, and what becomes of the scores when it is refused.
\<close>

section \<open>The part after the isolation\<close>

lemma publish_snapshot_standings:
  assumes "svc_ok S" "db_inv S db" "redis_ok R V" "ks_h (V r) read_sk = Map.empty"
    and "publish_snapshot S R b0 nt mt mv me read_sk keys (db, r) = (Inr vp, db', r')"
  shows "published db (b_id b0) (vp_version vp) db' \<and> db_inv S db'"
    "set (map (\<lambda>p. (pe_entry_slug p, p_score p)) (vp_placements vp)) =
       {(m, Some sc) | m sc. ks_z (V r) read_sk m = Some sc}"
    "distinct (map pe_entry_slug (vp_placements vp))"
    "map p_position (vp_placements vp) = map (\<lambda>i. Some (1 + int i)) [0..<length (vp_placements vp)]"
    "ks_z (V r) read_sk m = Some sc \<Longrightarrow> find_entry (b_id b0) m db \<noteq> None"
    "case keys of None \<Rightarrow> V r' = V r
     | Some (x, y) \<Rightarrow> V r' = V r \<or> V r' = apply_writes [Del x, Del y] (V r)"
proof -
  from publish_snapshot_Inr [OF assms(5)] obtain b xs r1 db1 where
      l: "lock_board (b_id b0) db = Inr b" and z: "rd_zrevrange R read_sk r = (Inr xs, r1)"
      and p: "publish_live S b nt mt xs db = Inr (vp, db1)" and d: "(db', r') = delete_snap_keys R keys (db1, r1)"
    by blast
  note b = lock_board_Inr [OF l]
  have "V r1 = V r" by (rule redis_zrevrange(1) [OF assms(3) z])
  from delete_snap_keys_view [OF assms(3), of keys db1 r1] d this
  have db: "db1 = db'" and del: "case keys of None \<Rightarrow> V r' = V r
     | Some (x, y) \<Rightarrow> V r' = V r \<or> V r' = apply_writes [Del x, Del y] (V r)"
    by (auto split: option.splits)
  show "case keys of None \<Rightarrow> V r' = V r
     | Some (x, y) \<Rightarrow> V r' = V r \<or> V r' = apply_writes [Del x, Del y] (V r)" by (rule del)
  have range: "range_of (ks_z (V r) read_sk) (rev xs)" by (rule redis_zrevrange(2) [OF assms(3) z refl assms(4)])
  have mem: "(m, sc) \<in> set xs \<longleftrightarrow> ks_z (V r) read_sk m = Some sc" for m sc
    using range_of_set [OF range] by simp
  have dist: "distinct (map fst xs)" using range by (simp add: range_of_def rev_map [symmetric])
  note st = publish_live_standings [OF assms(1,2) conjunct1 [OF b] p]
  show "published db (b_id b0) (vp_version vp) db' \<and> db_inv S db'" using st(3,4) b db by simp
  have "set (map (\<lambda>p. (pe_entry_slug p, p_score p)) (vp_placements vp)) = (\<lambda>x. (fst x, Some (snd x))) ` set xs"
    using arg_cong [OF st(1), of set_mset] by simp
  also have "\<dots> = {(m, Some sc) | m sc. ks_z (V r) read_sk m = Some sc}" by (force simp: mem [symmetric])
  finally show "set (map (\<lambda>p. (pe_entry_slug p, p_score p)) (vp_placements vp)) =
       {(m, Some sc) | m sc. ks_z (V r) read_sk m = Some sc}" .
  have "mset (map pe_entry_slug (vp_placements vp)) = mset (map fst xs)"
    using arg_cong [OF st(1), of "image_mset fst"] by (simp add: image_mset.compositionality comp_def)
  then show "distinct (map pe_entry_slug (vp_placements vp))" using dist by (metis mset_eq_imp_distinct_iff)
  have "length (vp_placements vp) = length xs" using arg_cong [OF st(1), of size] by simp
  then show "map p_position (vp_placements vp) = map (\<lambda>i. Some (1 + int i)) [0..<length (vp_placements vp)]"
    using st(2) by simp
  show "find_entry (b_id b0) m db \<noteq> None" if "ks_z (V r) read_sk m = Some sc"
  proof -
    have "(m, sc) \<in> set xs" using that mem by simp
    with publish_live_Inr(1) [OF assms(1,2) p] b show ?thesis by fastforce
  qed
qed

text \<open>Deleting the snapshot keys leaves the working keys of every board.\<close>

lemma delete_snap_working:
  assumes "CHR '':'' \<notin> set s" "CHR '':'' \<notin> set s'"
  shows "ks_z (apply_writes [Del (snap_key (scores_key p s) i), Del (snap_key (entries_key p s) i)] ks) (scores_key p s') =
    ks_z ks (scores_key p s')"
  using snap_key_working [OF assms, where p = p and i = i] by auto

section \<open>Properties\<close>

text \<open>
  C11: no score is lost or counted twice by a clearing snapshot, whatever is submitted beside it.
  The rename leaves the working keys empty; any submissions may then follow; the version published
  after them holds exactly the scores the board had before the rename, each once, numbered 1, 2,
  ...; and when the snapshot is done, the standings of every board are what the submissions since
  the rename have made them.
\<close>

theorem clearing_snapshot_conserves:
  assumes "svc_ok S" "db_inv S db" "redis_ok R V" "live_ok prefix (V r)" "b_clear_on_snapshot b"
    "CHR '':'' \<notin> set (b_slug b)"
    "\<forall>x \<in> set subs. b_id (fst x) \<in> b_id ` set (boards db) \<and> CHR '':'' \<notin> set (b_slug (fst x))"
    "isolate R b prefix i (db, r) = (Inr (read_sk, keys), s1)"
    "submissions S R prefix subs s1 = s2"
    "publish_snapshot S R b nt mt mv me read_sk keys s2 = (Inr vp, s3)"
  shows "published (fst s2) (b_id b) (vp_version vp) (fst s3) \<and> db_inv S (fst s3) \<and>
    ks_z (V (snd s1)) (scores_key prefix (b_slug b)) = Map.empty \<and>
    set (map (\<lambda>p. (pe_entry_slug p, p_score p)) (vp_placements vp)) =
      {(m, Some sc) | m sc. ks_z (V r) (scores_key prefix (b_slug b)) m = Some sc} \<and>
    distinct (map pe_entry_slug (vp_placements vp)) \<and>
    map p_position (vp_placements vp) = map (\<lambda>i. Some (1 + int i)) [0..<length (vp_placements vp)] \<and>
    (\<forall>slug. CHR '':'' \<notin> set slug \<longrightarrow>
       ks_z (V (snd s3)) (scores_key prefix slug) = ks_z (V (snd s2)) (scores_key prefix slug))"
proof -
  let ?sk = "scores_key prefix (b_slug b)"
  let ?snap = "snap_key ?sk i"
  note iso = isolate_clearing [OF assms(3,4,6,5,8)]
  note k = isolated_keys [OF assms(4,6), where i = i]
  have s1: "s1 = (db, snd s1)" using iso(3) by (simp add: prod_eq_iff)
  have live1: "live_ok prefix (V (snd s1))" unfolding iso(4) by (rule k(6))
  from submissions_keep [OF assms(1,3,2) live1 assms(7)] assms(9) s1
  obtain db2 r2 where s2: "s2 = (db2, r2)" "db_inv S db2" "live_ok prefix (V r2)"
      and other: "\<forall>k. (\<forall>slug. CHR '':'' \<notin> set slug \<longrightarrow> k \<noteq> scores_key prefix slug \<and> k \<noteq> entries_key prefix slug) \<longrightarrow>
         ks_z (V r2) k = ks_z (V (snd s1)) k \<and> ks_h (V r2) k = ks_h (V (snd s1)) k"
    by metis
  have "ks_z (V r2) ?snap = ks_z (V (snd s1)) ?snap \<and> ks_h (V r2) ?snap = ks_h (V (snd s1)) ?snap"
    using other snap_key_working(1,2) [OF assms(6)] by metis
  then have snap: "ks_z (V r2) ?snap = ks_z (V r) ?sk" "ks_h (V r2) ?snap = Map.empty"
    using k(1,2) iso(4) by simp_all
  obtain db3 r3 where s3: "s3 = (db3, r3)" by (cases s3)
  note pub = assms(10) [unfolded s2(1) s3 iso(1,2)]
  note st = publish_snapshot_standings [OF assms(1) s2(2) assms(3) snap(2) pub, unfolded snap(1)]
  have "ks_z (V r3) (scores_key prefix slug) = ks_z (V r2) (scores_key prefix slug)"
    if "CHR '':'' \<notin> set slug" for slug
    using st(6) delete_snap_working [OF assms(6) that, of prefix i "V r2"] by auto
  with st(1-4) show ?thesis by (simp add: s2 s3 iso(4) k(3))
qed

lemma sample_isolate:
  "isolate sample_redis live_board ''rl'' ''1'' (live_db, live_store) =
     (Inr (snap_key (scores_key ''rl'' ''speed'') ''1'',
           Some (snap_key (scores_key ''rl'' ''speed'') ''1'', snap_key (entries_key ''rl'' ''speed'') ''1'')),
      live_db, fold sample_write
        [Rename (scores_key ''rl'' ''speed'') (snap_key (scores_key ''rl'' ''speed'') ''1''),
         Rename (entries_key ''rl'' ''speed'') (snap_key (entries_key ''rl'' ''speed'') ''1'')] live_store)"
  by (simp add: isolate_def Let_def on_redis_def sample_redis_def live_store_def)

lemma live_find_entry: "find_entry (b_id sample_row) ''ann'' live_db = Some sample_entry_row"
  using sample_entry_found by (simp add: find_entry_def live_db_def)

lemma live_publish_ok: "is_ok (publish_live sample_svc live_board nt mt [(''ann'', 0)] live_db)"
proof -
  have "versions live_db = []" by (simp add: live_db_def sample_entry_db_def sample_db_def empty_db_def)
  then have m: "max_number (b_id sample_row) live_db = 0" by (simp add: max_number_def board_versions_def)
  have "sample_entry_row \<in> set (entries live_db)" "e_board_id sample_entry_row = b_id sample_row"
    by (simp_all add: live_db_def sample_entry_db_def sample_entry_row_def new_entry_def)
  then have "(e_id sample_entry_row, b_id sample_row) \<in> entry_keys live_db" unfolding entry_keys_def by force
  then have s: "scores_ok (b_id live_board) (by_entry (b_id live_board) live_db [(''ann'', 0)]) live_db"
    by (simp add: scores_ok_def by_entry_def live_find_entry)
  have "publish_live sample_svc live_board nt mt [(''ann'', 0)] live_db =
      publish_scores sample_svc live_board nt mt (by_entry (b_id live_board) live_db [(''ann'', 0)]) live_db"
    by (rule publish_live_eq) (simp add: live_find_entry)
  then show ?thesis
    using publish_scores_is_ok [OF sample_svc_ok live_db_inv live_db_board(1) s, of nt mt] m
    by (simp add: by_entry_def i32_max_def)
qed

theorem clearing_snapshot_conserves_witness:
  "\<exists>rk keys s1 vp s3. isolate sample_redis live_board ''rl'' ''1'' (live_db, live_store) = (Inr (rk, keys), s1) \<and>
     publish_snapshot sample_svc sample_redis live_board None None (Some 9) (Some 9) rk keys s1 = (Inr vp, s3) \<and>
     set (map (\<lambda>p. (pe_entry_slug p, p_score p)) (vp_placements vp)) = {(''ann'', Some 0)} \<and>
     ks_z (sample_view (snd s3)) (scores_key ''rl'' ''speed'') = Map.empty"
proof -
  let ?sk = "scores_key ''rl'' ''speed''" and ?ek = "entries_key ''rl'' ''speed''"
  define s1 where "s1 = (live_db, fold sample_write [Rename ?sk (snap_key ?sk ''1''), Rename ?ek (snap_key ?ek ''1'')] live_store)"
  note iso = sample_isolate [folded s1_def]
  obtain vp db3 where p: "publish_live sample_svc live_board None None [(''ann'', 0)] live_db = Inr (vp, db3)"
    using live_publish_ok [of None None] unfolding is_ok_iff by (metis surj_pair)
  have "versions live_db = []" by (simp add: live_db_def sample_entry_db_def sample_db_def empty_db_def)
  then have m: "version_count (b_id sample_row) live_db = 0" by (simp add: version_count_def board_versions_def)
  have w: "snap_key ?sk ''1'' \<noteq> ?sk" "snap_key ?sk ''1'' \<noteq> ?ek" "snap_key ?ek ''1'' \<noteq> ?sk" "snap_key ?ek ''1'' \<noteq> ?ek"
    by (rule snap_key_working; simp)+
  note w = w w [symmetric]
  have z: "sr_z (snd s1) (snap_key ?sk ''1'') = [(''ann'', 0)]"
    unfolding s1_def using w snap_keys_differ [of "''rl''" "''speed''" "''1''"] by (simp add: live_store_def)
  have c: "check_max_versions (Some 9) (b_id sample_row) live_db = Inr ()" "fst s1 = live_db"
    using m by (auto simp: s1_def)
  have r: "sample_range [(''ann'', 0)] = [(''ann'', 0)]" by (simp add: sample_range_def)
  have "\<exists>s3. publish_snapshot sample_svc sample_redis live_board None None (Some 9) (Some 9) (snap_key ?sk ''1'')
      (Some (snap_key ?sk ''1'', snap_key ?ek ''1'')) s1 = (Inr vp, s3)"
    using c p z by (simp add: publish_snapshot_def on_redis_def on_db_def sample_redis_def check_max_entries_def r
        del: check_max_versions_iff)
  then obtain s3 where s3: "publish_snapshot sample_svc sample_redis live_board None None (Some 9) (Some 9) (snap_key ?sk ''1'')
      (Some (snap_key ?sk ''1'', snap_key ?ek ''1'')) s1 = (Inr vp, s3)" by blast
  have b: "b_clear_on_snapshot live_board" "CHR '':'' \<notin> set (b_slug live_board)" by simp_all
  have "\<forall>x \<in> set []. b_id (fst x) \<in> b_id ` set (boards live_db) \<and> CHR '':'' \<notin> set (b_slug (fst x))" by simp
  from clearing_snapshot_conserves [OF sample_svc_ok live_db_inv sample_redis_ok live_store_ok b this iso _ s3]
  have "set (map (\<lambda>p. (pe_entry_slug p, p_score p)) (vp_placements vp)) = {(''ann'', Some 0)}"
      "ks_z (sample_view (snd s3)) ?sk = Map.empty"
    by (auto simp: live_store_view split: if_splits)
  with iso s3 show ?thesis by blast
qed

text \<open>Every write and every test for existence is answered.\<close>

definition answers :: "'r redis \<Rightarrow> bool" where
  "answers R \<longleftrightarrow> (\<forall>ws r. \<exists>r'. rd_exec R ws r = (Inr (), r')) \<and> (\<forall>k r. \<exists>b r'. rd_exists R k r = (Inr b, r'))"

lemma answersD:
  assumes "answers R"
  shows "\<exists>r'. rd_exec R ws r = (Inr (), r')" "\<exists>b r'. rd_exists R k r = (Inr b, r')"
  using assms by (simp_all add: answers_def)

lemma sample_answers: "answers sample_redis"
  by (simp add: answers_def sample_redis_def)

lemma isolate_answers:
  assumes "redis_ok R V" "answers R" "live_ok prefix (V r)" "CHR '':'' \<notin> set (b_slug b)" "b_clear_on_snapshot b"
    "ks_z (V r) (scores_key prefix (b_slug b)) \<noteq> Map.empty"
  shows "\<exists>rk keys s1. isolate R b prefix i (db, r) = (Inr (rk, keys), s1)"
proof -
  let ?sk = "scores_key prefix (b_slug b)" and ?ek = "entries_key prefix (b_slug b)"
  obtain x r1 where x: "rd_exists R ?sk r = (Inr x, r1)" using answersD(2) [OF assms(2)] by blast
  have e: "x" using redis_exists(2) [OF assms(1) x refl] assms(6) by (simp add: key_exists_def)
  obtain y r2 where y: "rd_exists R ?ek r1 = (Inr y, r2)" using answersD(2) [OF assms(2)] by blast
  obtain r3 where "rd_exec R (if y then [Rename ?sk (snap_key ?sk i), Rename ?ek (snap_key ?ek i)]
      else [Rename ?sk (snap_key ?sk i)]) r2 = (Inr (), r3)" using answersD(1) [OF assms(2)] by blast
  with x y e assms(5) show ?thesis by (auto simp: isolate_def Let_def on_redis_def)
qed

text \<open>
  C12: a refused clearing snapshot loses the scores. When the board already has the most versions
  allowed, the snapshot of a clearing board is a validation error and the database is as before, yet
  the scores, renamed before the check, are deleted with the snapshot keys: afterwards no key of
  Redis holds them, although none was published.
\<close>

theorem refused_snapshot_loses_scores:
  assumes "redis_ok R V" "answers R" "live_ok prefix (V r)" "CHR '':'' \<notin> set (b_slug b)" "b_clear_on_snapshot b"
    "ks_z (V r) (scores_key prefix (b_slug b)) \<noteq> Map.empty"
    "lock_board (b_id b) db = Inr b'" "mx \<le> version_count (b_id b) db"
  shows "\<exists>m s'. realtime_snapshot S R b nt mt prefix (Some mx) me i (db, r) = (Inl (Validation m), s') \<and>
    fst s' = db \<and>
    (\<forall>k. ks_z (V (snd s')) k =
       (if k = scores_key prefix (b_slug b) \<or> k = snap_key (scores_key prefix (b_slug b)) i \<or>
           k = snap_key (entries_key prefix (b_slug b)) i \<or> k = entries_key prefix (b_slug b)
        then Map.empty else ks_z (V r) k))"
proof -
  let ?sk = "scores_key prefix (b_slug b)" and ?ek = "entries_key prefix (b_slug b)"
  obtain rk keys s1 where iso: "isolate R b prefix i (db, r) = (Inr (rk, keys), s1)"
    using isolate_answers [OF assms(1-6)] by blast
  note o = isolate_clearing [OF assms(1,3-5) iso]
  have id: "b_id b' = b_id b" using lock_board_Inr [OF assms(7)] by simp
  obtain e where e: "check_max_versions (Some mx) (b_id b') db = Inl (Validation e)"
    using assms(8) by (auto simp: check_max_versions_def id)
  have w: "writes_ok [Del (snap_key ?sk i), Del (snap_key ?ek i)] (V (snd s1))" by simp
  obtain r' where r': "rd_exec R [Del (snap_key ?sk i), Del (snap_key ?ek i)] (snd s1) = (Inr (), r')"
    using answersD(1) [OF assms(2)] by blast
  have v: "V r' = apply_writes [Del (snap_key ?sk i), Del (snap_key ?ek i)] (isolated prefix (b_slug b) i (V r))"
    using redis_exec(1) [OF assms(1) w r'] by (simp add: o(4))
  have run: "realtime_snapshot S R b nt mt prefix (Some mx) me i (db, r) = (Inl (Validation e), db, r')"
    using iso o(1-3) assms(7) e r'
    by (simp add: realtime_snapshot_def publish_snapshot_def delete_snap_keys_def del: check_max_versions_iff)
  note n = snap_key_working [OF assms(4) assms(4), where p = prefix and i = i]
  have "ks_z (V r') k = (if k = ?sk \<or> k = snap_key ?sk i \<or> k = snap_key ?ek i \<or> k = ?ek then Map.empty else ks_z (V r) k)" for k
    using n n [symmetric] live_okD(2) [OF assms(3,4)] by (auto simp: v isolated_def)
  with run show ?thesis by auto
qed

theorem refused_snapshot_loses_scores_witness:
  "\<exists>m s'. realtime_snapshot sample_svc sample_redis live_board None None ''rl'' (Some 0) None ''1'' (live_db, live_store) =
      (Inl (Validation m), s') \<and>
     ks_z (sample_view live_store) (scores_key ''rl'' ''speed'') ''ann'' = Some 0 \<and>
     (\<forall>k. ks_z (sample_view (snd s')) k = Map.empty)"
proof -
  have b: "CHR '':'' \<notin> set (b_slug live_board)" "b_clear_on_snapshot live_board" by simp_all
  have z: "ks_z (sample_view live_store) (scores_key ''rl'' (b_slug live_board)) \<noteq> Map.empty"
    by (simp add: live_store_view fun_eq_iff)
  have l: "lock_board (b_id live_board) live_db = Inr live_board" by simp
  have n: "0 \<le> version_count (b_id live_board) live_db" by (simp add: version_count_def)
  from refused_snapshot_loses_scores [OF sample_redis_ok sample_answers live_store_ok b z l n, of sample_svc None None None "''1''"]
  obtain m s' where o: "realtime_snapshot sample_svc sample_redis live_board None None ''rl'' (Some 0) None ''1'' (live_db, live_store) =
      (Inl (Validation m), s')"
    and k: "\<forall>k. ks_z (sample_view (snd s')) k =
       (if k = scores_key ''rl'' (b_slug live_board) \<or> k = snap_key (scores_key ''rl'' (b_slug live_board)) ''1'' \<or>
           k = snap_key (entries_key ''rl'' (b_slug live_board)) ''1'' \<or> k = entries_key ''rl'' (b_slug live_board)
        then Map.empty else ks_z (sample_view live_store) k)"
    by blast
  have "ks_z (sample_view (snd s')) k = Map.empty" for k
    using k by (auto simp: live_store_view)
  with o show ?thesis by (auto simp: live_store_view)
qed

text \<open>
  C13: deleting an entry of a realtime board blocks its snapshots. An entry that was never placed may
  be deleted, but its score stays in Redis; a snapshot of the board taken in the state the deletion
  leaves fails, whatever its note, metadata and identifier.
\<close>

theorem orphan_score_blocks_snapshot:
  assumes "svc_ok S" "db_inv S db" "redis_ok R V" "live_ok prefix (V r)" "CHR '':'' \<notin> set (b_slug b)"
    "entries_delete (b_id b) slug db = Inr db'" "ks_z (V r) (scores_key prefix (b_slug b)) slug = Some sc"
  shows "fst (realtime_snapshot S R b nt mt prefix mv me i (db', r)) \<noteq> Inr vp"
proof
  assume ok: "fst (realtime_snapshot S R b nt mt prefix mv me i (db', r)) = Inr vp"
  let ?sk = "scores_key prefix (b_slug b)"
  have inv: "db_inv S db'" by (rule entries_delete_inv [OF assms(2,6)])
  obtain e where e: "find_entry (b_id b) slug db = Some e" "db' = delete_entry_row (e_id e) db"
    using assms(6) by (auto simp: entries_delete_def entries_get_by_slug_def Let_def)
  have k: "keys_ok db" using assms(2) by (simp add: db_inv_def)
  have "x = e" if "x \<in> set (entries db)" "e_board_id x = b_id b" "e_slug x = slug" for x
  proof (rule distinct_map_inj [OF keys_okD(4) [OF k] that(1)])
    show "e \<in> set (entries db)" "(e_board_id x, e_slug x) = (e_board_id e, e_slug e)"
      using find_entry_Some [OF e(1)] that by simp_all
  qed
  then have gone: "find_entry (b_id b) slug db' = None"
    unfolding find_entry_None e(2) by (auto simp: delete_entry_row_def)
  obtain s2 where run: "realtime_snapshot S R b nt mt prefix mv me i (db', r) = (Inr vp, s2)"
    using ok by (cases "realtime_snapshot S R b nt mt prefix mv me i (db', r)") simp
  then obtain rk keys s1 where iso: "isolate R b prefix i (db', r) = (Inr (rk, keys), s1)"
      and pub: "publish_snapshot S R b nt mt mv me rk keys s1 = (Inr vp, s2)"
    by (auto simp: realtime_snapshot_def and_then_Inr)
  have "fst s1 = db' \<and> ks_z (V (snd s1)) rk slug = Some sc \<and> ks_h (V (snd s1)) rk = Map.empty"
  proof (cases "b_clear_on_snapshot b")
    case True
    note o = isolate_clearing [OF assms(3-5) True iso]
    from o isolated_keys(1,2) [OF assms(4,5), of i] assms(7) show ?thesis by simp
  next
    case False
    with iso have "rk = ?sk" "s1 = (db', r)" by (simp_all add: isolate_def Let_def)
    with assms(7) live_okD(1) [OF assms(4,5)] show ?thesis by simp
  qed
  then have s1: "s1 = (db', snd s1)" and z: "ks_z (V (snd s1)) rk slug = Some sc" "ks_h (V (snd s1)) rk = Map.empty"
    by (simp_all add: prod_eq_iff)
  obtain db2 r2 where s2: "s2 = (db2, r2)" by (cases s2)
  have "publish_snapshot S R b nt mt mv me rk keys (db', snd s1) = (Inr vp, db2, r2)"
    using pub s1 s2 by simp
  from publish_snapshot_standings(5) [OF assms(1) inv assms(3) z(2) this z(1)] gone show False by simp
qed

theorem orphan_score_blocks_snapshot_witness:
  "\<exists>db'. entries_delete (b_id live_board) ''ann'' live_db = Inr db' \<and>
     (\<forall>vp. fst (realtime_snapshot sample_svc sample_redis live_board None None ''rl'' None None ''1'' (db', live_store)) \<noteq> Inr vp)"
proof -
  have "placements live_db = []" by (simp add: live_db_def sample_entry_db_def sample_db_def empty_db_def)
  then have "placed_versions (e_id sample_entry_row) live_db = []" by (simp add: placed_versions_def)
  then have d: "entries_delete (b_id live_board) ''ann'' live_db = Inr (delete_entry_row (e_id sample_entry_row) live_db)"
    by (simp add: entries_delete_def entries_get_by_slug_def live_find_entry Let_def)
  have c: "CHR '':'' \<notin> set (b_slug live_board)" by simp
  have z: "ks_z (sample_view live_store) (scores_key ''rl'' (b_slug live_board)) ''ann'' = Some 0"
    by (simp add: live_store_view)
  show ?thesis
    using orphan_score_blocks_snapshot [OF sample_svc_ok live_db_inv sample_redis_ok live_store_ok c d z] d by blast
qed

end
