(* ===== verification/Export.thy ===== *)
theory Export
  imports Versions
begin

text \<open>
  \<open>repo/export.rs\<close>: a board as a portable value, with every version and placement, and its import
  into a database in one transaction. The import keeps the names of the entries in a \<open>HashMap\<close>; the
  order in which it creates the entries is the argument \<open>hash_order\<close>.
\<close>

section \<open>The export format\<close>

record board_export_meta =
  bx_slug :: string
  bx_name :: string
  bx_board_type :: string
  bx_sort_direction :: string
  bx_tier_config :: "json option"
  bx_metadata :: "json option"
  bx_accumulative :: bool
  bx_realtime :: bool
  bx_clear_on_snapshot :: bool

record placement_export =
  x_entry_slug :: string
  x_entry_name :: string
  x_position :: "i32 option"
  x_score :: "f64 option"
  x_tier :: "string option"
  x_metadata :: "json option"

record version_export =
  vx_number :: i32
  vx_note :: "string option"
  vx_metadata :: "json option"
  vx_placements :: "placement_export list"

record board_export =
  ex_board :: board_export_meta
  ex_versions :: "version_export list"

definition board_meta :: "board \<Rightarrow> board_export_meta" where
  "board_meta b =
     \<lparr>bx_slug = b_slug b, bx_name = b_name b, bx_board_type = b_board_type b,
      bx_sort_direction = b_sort_direction b, bx_tier_config = b_tier_config b, bx_metadata = b_metadata b,
      bx_accumulative = b_accumulative b, bx_realtime = b_realtime b,
      bx_clear_on_snapshot = b_clear_on_snapshot b\<rparr>"

definition exported :: "placement_with_entry \<Rightarrow> placement_export" where
  "exported p =
     \<lparr>x_entry_slug = pe_entry_slug p, x_entry_name = pe_entry_name p, x_position = p_position p,
      x_score = p_score p, x_tier = p_tier p, x_metadata = p_metadata p\<rparr>"

section \<open>Export\<close>

text \<open>The joins of the batch query: the placements of all versions of the board.\<close>

definition board_joined :: "uuid \<Rightarrow> db \<Rightarrow> (board \<times> version \<times> placement_with_entry) list" where
  "board_joined bid db =
     concat (map (\<lambda>p. concat (map (\<lambda>e. concat (map (\<lambda>v. map (\<lambda>b. (b, v, with_entry p e))
         (filter (\<lambda>b. b_id b = v_board_id v) (boards db)))
         (filter (\<lambda>v. v_id v = p_version_id p \<and> v_board_id v = bid) (versions db))))
         (filter (\<lambda>e. e_id e = p_entry_id p) (entries db)))) (placements db))"

definition export_order :: "svc \<Rightarrow> int option \<times> version \<times> placement_with_entry \<Rightarrow> int \<times> int \<times> int \<times> string" where
  "export_order S x = (case x of (ord, v, p) \<Rightarrow> (v_number v, placement_order S (ord, p)))"

definition export_placements :: "svc \<Rightarrow> uuid \<Rightarrow> db \<Rightarrow> placement_with_entry list result" where
  "export_placements S bid db =
     rbind (map_result (\<lambda>(b, v, p). rbind (tier_ord S (b_tier_config b) (p_tier p)) (\<lambda>ord. Inr (ord, v, p)))
              (board_joined bid db)) (\<lambda>rows.
     Inr (map (\<lambda>(_, _, p). p) (sort_key (export_order S) rows)))"

definition version_exported :: "placement_with_entry list \<Rightarrow> version \<Rightarrow> version_export" where
  "version_exported all_placements v =
     \<lparr>vx_number = v_number v, vx_note = v_note v, vx_metadata = v_metadata v,
      vx_placements = map exported (filter (\<lambda>p. p_version_id p = v_id v) all_placements)\<rparr>"

definition export_board :: "svc \<Rightarrow> string \<Rightarrow> db \<Rightarrow> board_export result" where
  "export_board S slug db =
     rbind (boards_get_by_slug slug db) (\<lambda>board.
     let vs = versions_list (b_id board) db in
     rbind (export_placements S (b_id board) db) (\<lambda>all_placements.
     Inr \<lparr>ex_board = board_meta board,
          ex_versions = sort_key vx_number (map (version_exported all_placements) vs)\<rparr>))"

section \<open>Import\<close>

record import_result =
  ir_board_slug :: string
  ir_version_numbers :: "i32 list"

definition import_placement_input :: "placement_export \<Rightarrow> create_placement" where
  "import_placement_input p =
     \<lparr>cp_entry_slug = x_entry_slug p, cp_position = x_position p, cp_score = x_score p, cp_tier = x_tier p,
      cp_metadata = x_metadata p\<rparr>"

text \<open>The board the placements are validated against; its id and times are not looked at.\<close>

definition temp_board :: "timestamp \<Rightarrow> board_export_meta \<Rightarrow> board" where
  "temp_board now m =
     \<lparr>b_id = nil_uuid, b_slug = bx_slug m, b_name = bx_name m, b_board_type = bx_board_type m,
      b_sort_direction = bx_sort_direction m, b_tier_config = bx_tier_config m, b_metadata = bx_metadata m,
      b_accumulative = bx_accumulative m, b_realtime = bx_realtime m,
      b_clear_on_snapshot = bx_clear_on_snapshot m, b_created_at = now, b_updated_at = now\<rparr>"

definition import_board_input :: "board_export_meta \<Rightarrow> create_board" where
  "import_board_input m =
     \<lparr>cb_slug = bx_slug m, cb_name = bx_name m, cb_board_type = bx_board_type m,
      cb_sort_direction = bx_sort_direction m, cb_tier_config = bx_tier_config m, cb_metadata = bx_metadata m,
      cb_accumulative = bx_accumulative m, cb_realtime = bx_realtime m,
      cb_clear_on_snapshot = bx_clear_on_snapshot m\<rparr>"

text \<open>\<open>entry_names.insert(slug, name)\<close>; the last name seen stays.\<close>

fun remember_name :: "string \<Rightarrow> string \<Rightarrow> (string \<times> string) list \<Rightarrow> (string \<times> string) list" where
  "remember_name slug name [] = [(slug, name)]"
| "remember_name slug name ((s, n) # rest) =
     (if s = slug then (s, name) # rest else (s, n) # remember_name slug name rest)"

definition entry_names :: "version_export list \<Rightarrow> (string \<times> string) list" where
  "entry_names vs =
     fold (\<lambda>p. remember_name (x_entry_slug p) (x_entry_name p)) (concat (map vx_placements vs)) []"

text \<open>The loop that creates the entries, and the ids by slug it returns.\<close>

fun import_entries ::
  "svc \<Rightarrow> timestamp \<Rightarrow> uuid \<Rightarrow> (string \<times> string) list \<Rightarrow> db \<Rightarrow> ((string \<times> uuid) list \<times> db) result" where
  "import_entries S t bid [] db = Inr ([], db)"
| "import_entries S t bid ((slug, name) # rest) db =
     rbind (validate_slug slug) (\<lambda>_.
     rbind (validate_name name) (\<lambda>_.
     rbind (insert_entry
              \<lparr>e_id = next_id S db, e_board_id = bid, e_slug = slug, e_name = name, e_metadata = None,
               e_created_at = t, e_updated_at = t\<rparr> db) (\<lambda>db'.
     rbind (import_entries S t bid rest db') (\<lambda>(ids, db'').
     Inr ((slug, next_id S db) # ids, db'')))))"

definition import_values :: "uuid \<Rightarrow> placement_export \<Rightarrow> placement_values" where
  "import_values eid p =
     \<lparr>pl_entry_id = eid, pl_position = x_position p, pl_score = x_score p, pl_tier = x_tier p,
      pl_metadata = x_metadata p\<rparr>"

fun import_placements ::
  "svc \<Rightarrow> uuid \<Rightarrow> (string \<times> uuid) list \<Rightarrow> placement_export list \<Rightarrow> db \<Rightarrow> db result" where
  "import_placements S vid ids [] db = Inr db"
| "import_placements S vid ids (p # ps) db =
     rbind (ok_or (map_of ids (x_entry_slug p))
              (Validation [Lit ''unknown entry slug '', Quo (x_entry_slug p), Lit '' in export''])) (\<lambda>eid.
     rbind (insert_placement (placement_row (next_id S db) vid (import_values eid p)) db) (\<lambda>db'.
     import_placements S vid ids ps db'))"

definition import_version :: "svc \<Rightarrow> timestamp \<Rightarrow> uuid \<Rightarrow> version_export \<Rightarrow> db \<Rightarrow> version" where
  "import_version S t bid v db =
     \<lparr>v_id = next_id S db, v_board_id = bid, v_number = vx_number v, v_note = vx_note v,
      v_metadata = vx_metadata v, v_created_at = t\<rparr>"

fun import_versions ::
  "svc \<Rightarrow> timestamp \<Rightarrow> board \<Rightarrow> (string \<times> uuid) list \<Rightarrow> version_export list \<Rightarrow> db \<Rightarrow> db result" where
  "import_versions S t board ids [] db = Inr db"
| "import_versions S t board ids (v # vs) db =
     rbind (insert_version (import_version S t (b_id board) v db) db) (\<lambda>db1.
     rbind (import_placements S (next_id S db) ids (vx_placements v) db1) (\<lambda>db2.
     rbind (if b_board_type board = ''scored''
            then derive_scored_positions (next_id S db) (b_sort_direction board) db2 else Inr db2) (\<lambda>db3.
     import_versions S t board ids vs db3)))"

definition import_board ::
  "svc \<Rightarrow> ((string \<times> string) list \<Rightarrow> (string \<times> string) list) \<Rightarrow> board_export \<Rightarrow> db \<Rightarrow> (import_result \<times> db) result" where
  "import_board S hash_order export db =
     rbind (for_each (\<lambda>v. validate_placements_for_import (temp_board (tx_now S db) (ex_board export))
              (map import_placement_input (vx_placements v))) (ex_versions export)) (\<lambda>_.
     let inp = import_board_input (ex_board export) in
     rbind (validate_slug (cb_slug inp)) (\<lambda>_.
     rbind (validate_name (cb_name inp)) (\<lambda>_.
     rbind (validate_board_type (cb_board_type inp)) (\<lambda>_.
     rbind (validate_sort_direction (cb_sort_direction inp)) (\<lambda>_.
     rbind (check_board_flags (cb_board_type inp) (cb_accumulative inp) (cb_realtime inp)
              (cb_clear_on_snapshot inp)) (\<lambda>_.
     rbind (insert_new_board S inp db) (\<lambda>(board, db1).
     rbind (import_entries S (tx_now S db) (b_id board) (hash_order (entry_names (ex_versions export))) db1) (\<lambda>(ids, db2).
     let sorted_versions = sort_key vx_number (ex_versions export) in
     rbind (import_versions S (tx_now S db) board ids sorted_versions db2) (\<lambda>db3.
     Inr (\<lparr>ir_board_slug = b_slug board, ir_version_numbers = map vx_number sorted_versions\<rparr>, db3))))))))))"

section \<open>The export reads what the versions read\<close>

definition placement_board :: "db \<Rightarrow> placement \<Rightarrow> uuid" where
  "placement_board db p = v_board_id (version_of db (p_version_id p))"

lemma board_joined_eq:
  assumes "db_inv S db" "b \<in> set (boards db)"
  shows "board_joined (b_id b) db =
    map (\<lambda>p. (b, version_of db (p_version_id p), with_entry p (entry_of db (p_entry_id p))))
      (filter (\<lambda>p. placement_board db p = b_id b) (placements db))"
proof -
  have k: "keys_ok db" using assms(1) by (simp add: db_inv_def)
  have fb: "filter (\<lambda>x. b_id x = b_id b) (boards db) = [b]" using keys_okD(1) [OF k] assms(2) by (rule filter_by_key)
  have one: "concat (map (\<lambda>e. concat (map (\<lambda>v. map (\<lambda>b. (b, v, with_entry p e))
         (filter (\<lambda>b. b_id b = v_board_id v) (boards db)))
         (filter (\<lambda>v. v_id v = p_version_id p \<and> v_board_id v = b_id b) (versions db))))
         (filter (\<lambda>e. e_id e = p_entry_id p) (entries db))) =
      (if placement_board db p = b_id b
       then [(b, version_of db (p_version_id p), with_entry p (entry_of db (p_entry_id p)))] else [])"
    if p: "p \<in> set (placements db)" for p
  proof -
    let ?v = "version_of db (p_version_id p)"
    note v = version_of_placement [OF assms(1) p]
    have "filter (\<lambda>v. v_id v = v_id ?v) (versions db) = [?v]"
      using keys_okD(5) [OF k] v(1) by (rule filter_by_key)
    then have fv: "filter (\<lambda>v. v_id v = p_version_id p) (versions db) = [?v]" using v(2) by simp
    have "filter (\<lambda>v. v_id v = p_version_id p \<and> v_board_id v = b_id b) (versions db) =
        filter (\<lambda>v. v_board_id v = b_id b) (filter (\<lambda>v. v_id v = p_version_id p) (versions db))"
      by (simp add: conj_commute)
    also have "\<dots> = (if placement_board db p = b_id b then [?v] else [])"
      unfolding fv by (simp add: placement_board_def)
    finally show ?thesis
      using entry_of_placement(3) [OF assms(1) p] fb by (simp add: placement_board_def)
  qed
  have "concat (map (\<lambda>p. if P p then [f p] else []) xs) = map f (filter P xs)" for P f and xs :: "placement list"
    by (induction xs) auto
  then show ?thesis
    unfolding board_joined_def by (simp add: one cong: map_cong)
qed

lemma sort_key_const_pair: "sort_key (\<lambda>x. (c, f x)) xs = sort_key f xs"
proof -
  have "insort_key (\<lambda>x. (c, f x)) x ys = insort_key f x ys" for x ys
    by (induction ys) (simp_all add: less_eq_prod_def)
  then show ?thesis by (induction xs) simp_all
qed

lemma map_result_bind:
  "map_result (\<lambda>x. rbind (g x) (\<lambda>y. Inr (h x y))) xs = Inr ys \<longleftrightarrow>
     (\<forall>x \<in> set xs. is_ok (g x)) \<and> ys = map (\<lambda>x. h x (projr (g x))) xs"
proof (induction xs arbitrary: ys)
  case (Cons x xs)
  show ?case by (cases "g x") (auto simp: Cons.IH)
qed auto

text \<open>The key a placement is read by, from what the export keeps of it.\<close>

definition export_key :: "svc \<Rightarrow> json option \<Rightarrow> placement_export \<Rightarrow> int \<times> int \<times> string" where
  "export_key S tc x =
     (unwrap_or (case tier_ord S tc (x_tier x) of Inl _ \<Rightarrow> None | Inr ord \<Rightarrow> ord) 2147483647,
      unwrap_or (x_position x) 2147483647, collation S (x_entry_name x))"

lemma export_key_exported: "export_key S tc (exported p) = read_key S tc p"
  by (simp add: export_key_def exported_def read_key_def placement_order_def)

lemma export_placements_version:
  assumes "db_inv S db" "b \<in> set (boards db)" "export_placements S (b_id b) db = Inr all"
    "v \<in> set (versions db)" "v_board_id v = b_id b"
  shows "filter (\<lambda>p. p_version_id p = v_id v) all = sort_key (read_key S (b_tier_config b)) (joined_placements (v_id v) db)"
    "\<forall>p \<in> set (placements db). p_version_id p = v_id v \<longrightarrow> is_ok (tier_ord S (b_tier_config b) (p_tier p))"
proof -
  have k: "keys_ok db" using assms(1) by (simp add: db_inv_def)
  let ?ps = "filter (\<lambda>p. placement_board db p = b_id b) (placements db)"
  let ?w = "\<lambda>p. with_entry p (entry_of db (p_entry_id p))"
  let ?ord = "\<lambda>p. projr (tier_ord S (b_tier_config b) (p_tier p))"
  let ?row = "\<lambda>p. (?ord p, version_of db (p_version_id p), ?w p)"
  have cp: "(\<lambda>(b, v, p). rbind (tier_ord S (b_tier_config b) (p_tier p)) (\<lambda>ord. Inr (ord, v, p))) =
      (\<lambda>x. rbind (tier_ord S (b_tier_config (fst x)) (p_tier (snd (snd x)))) (\<lambda>ord. Inr (ord, snd x)))"
    by (auto simp: fun_eq_iff)
  obtain rows where "map_result (\<lambda>x. rbind (tier_ord S (b_tier_config (fst x)) (p_tier (snd (snd x)))) (\<lambda>ord. Inr (ord, snd x)))
        (board_joined (b_id b) db) = Inr rows"
      and all: "all = map (\<lambda>(_, _, p). p) (sort_key (export_order S) rows)"
    using assms(3) unfolding export_placements_def cp by auto
  note r = this(1) [unfolded map_result_bind]
  have tier: "p_tier (?w p) = p_tier p" "p_version_id (?w p) = p_version_id p" for p
    by (simp_all add: with_entry_def)
  have ok: "is_ok (tier_ord S (b_tier_config b) (p_tier p))" if "p \<in> set ?ps" for p
    using r that by (auto simp: board_joined_eq [OF assms(1,2)] tier)
  have rows: "rows = map ?row ?ps" using r by (simp add: board_joined_eq [OF assms(1,2)] tier comp_def)
  have here: "placement_board db p = b_id b" if "p_version_id p = v_id v" for p
    using version_of_eq [OF k assms(4)] assms(5) that by (simp add: placement_board_def)
  show "\<forall>p \<in> set (placements db). p_version_id p = v_id v \<longrightarrow> is_ok (tier_ord S (b_tier_config b) (p_tier p))"
    using ok here by simp
  let ?vs = "filter (\<lambda>p. p_version_id p = v_id v) (placements db)"
  have "filter (\<lambda>p. p_version_id p = v_id v) ?ps = ?vs"
    using here by (auto intro: filter_cong)
  then have f: "filter (\<lambda>x. p_version_id (snd (snd x)) = v_id v) rows = map ?row ?vs"
    unfolding rows by (simp add: filter_map comp_def tier)
  have "filter (\<lambda>p. p_version_id p = v_id v) all =
      map (\<lambda>x. snd (snd x)) (filter (\<lambda>x. p_version_id (snd (snd x)) = v_id v) (sort_key (export_order S) rows))"
    unfolding all by (simp add: filter_map comp_def case_prod_unfold)
  also have "\<dots> = map (\<lambda>x. snd (snd x)) (sort_key (export_order S) (map ?row ?vs))"
    by (simp only: filter_sort f)
  also have "sort_key (export_order S) (map ?row ?vs) =
      sort_key (\<lambda>x. (v_number v, read_key S (b_tier_config b) (snd (snd x)))) (map ?row ?vs)"
  proof (rule sort_key_same)
    fix x assume "x \<in> set (map ?row ?vs)"
    then obtain p where p: "p \<in> set (placements db)" "p_version_id p = v_id v" "x = ?row p" by auto
    obtain o' where o: "tier_ord S (b_tier_config b) (p_tier p) = Inr o'"
      using ok [of p] p here by (auto simp: is_ok_iff)
    show "export_order S x = (v_number v, read_key S (b_tier_config b) (snd (snd x)))"
      using version_of_eq [OF k assms(4)] p(2) o
      by (simp add: p(3) export_order_def read_key_def tier)
  qed
  also have "map (\<lambda>x. snd (snd x)) (sort_key (\<lambda>x. (v_number v, read_key S (b_tier_config b) (snd (snd x)))) (map ?row ?vs)) =
      sort_key (read_key S (b_tier_config b)) (map (\<lambda>x. snd (snd x)) (map ?row ?vs))"
    unfolding sort_key_const_pair by (rule map_sort_key)
  also have "map (\<lambda>x. snd (snd x)) (map ?row ?vs) = joined_placements (v_id v) db"
    by (simp add: joined_placements_eq [OF assms(1)] comp_def)
  finally show "filter (\<lambda>p. p_version_id p = v_id v) all =
      sort_key (read_key S (b_tier_config b)) (joined_placements (v_id v) db)" .
qed

text \<open>What the export holds of a version.\<close>

definition version_image :: "svc \<Rightarrow> json option \<Rightarrow> db \<Rightarrow> version \<Rightarrow> version_export" where
  "version_image S tc db v =
     \<lparr>vx_number = v_number v, vx_note = v_note v, vx_metadata = v_metadata v,
      vx_placements = sort_key (export_key S tc) (map exported (joined_placements (v_id v) db))\<rparr>"

lemma exported_sorted:
  "map exported (sort_key (read_key S tc) ps) = sort_key (export_key S tc) (map exported ps)"
  using map_sort_key [of exported "export_key S tc" ps] by (simp add: export_key_exported)

lemma export_board_Inr:
  assumes "db_inv S db" "export_board S slug db = Inr ex"
  obtains b where "b \<in> set (boards db)" "b_slug b = slug" "boards_get_by_slug slug db = Inr b" "ex_board ex = board_meta b"
    "ex_versions ex = map (version_image S (b_tier_config b) db) (order_by Asc v_number (board_versions (b_id b) db))"
    "\<And>v p. v \<in> set (board_versions (b_id b) db) \<Longrightarrow> p \<in> set (placements db) \<Longrightarrow> p_version_id p = v_id v \<Longrightarrow>
       is_ok (tier_ord S (b_tier_config b) (p_tier p))"
proof -
  have k: "keys_ok db" using assms(1) by (simp add: db_inv_def)
  from assms(2) obtain b all where b: "boards_get_by_slug slug db = Inr b"
      and all: "export_placements S (b_id b) db = Inr all"
      and ex: "ex = \<lparr>ex_board = board_meta b,
          ex_versions = sort_key vx_number (map (version_exported all) (versions_list (b_id b) db))\<rparr>"
    by (auto simp: export_board_def Let_def)
  have m: "b \<in> set (boards db)" "b_slug b = slug" using b by (auto simp: boards_get_by_slug_def dest: find_Some_in)
  note vs = export_placements_version [OF assms(1) m(1) all]
  let ?vs = "versions_list (b_id b) db"
  let ?f = "version_image S (b_tier_config b) db"
  have m1: "map (version_exported all) ?vs = map ?f ?vs"
  proof (rule map_cong [OF refl])
    fix v assume "v \<in> set ?vs"
    then have "v \<in> set (versions db)" "v_board_id v = b_id b"
      unfolding versions_list_def set_order_by by (simp_all add: board_versions_def)
    then show "version_exported all v = ?f v"
      using vs(1) by (simp add: version_exported_def version_image_def exported_sorted)
  qed
  have m2: "sort_key vx_number (map ?f ?vs) = map ?f (sort_key v_number ?vs)"
    using map_sort_key [of ?f vx_number ?vs] by (simp add: version_image_def)
  have m3: "sort_key v_number ?vs = order_by Asc v_number (board_versions (b_id b) db)"
    using board_numbers_distinct [OF k, of "b_id b"]
    by (intro sort_key_inj_key_eq) (simp_all add: versions_list_def distinct_map)
  have vx: "ex_versions ex = map ?f (order_by Asc v_number (board_versions (b_id b) db))"
    unfolding ex board_export.select_convs m1 m2 m3 ..
  show thesis
    by (rule that [OF m b _ vx]) (use ex vs(2) in \<open>auto simp: board_versions_def\<close>)
qed

lemma version_image_read:
  assumes "db_inv S db" "b \<in> set (boards db)" "v \<in> set (board_versions (b_id b) db)"
    "\<And>p. p \<in> set (placements db) \<Longrightarrow> p_version_id p = v_id v \<Longrightarrow> is_ok (tier_ord S (b_tier_config b) (p_tier p))"
  shows "\<exists>vp. versions_get_by_number S (b_id b) (v_number v) db = Inr vp \<and> vp_version vp = v \<and>
    vx_placements (version_image S (b_tier_config b) db v) = map exported (vp_placements vp)"
proof -
  have k: "keys_ok db" using assms(1) by (simp add: db_inv_def)
  have v: "v \<in> set (versions db)" "v_board_id v = b_id b" using assms(3) by (simp_all add: board_versions_def)
  have "find (\<lambda>x. v_board_id x = b_id b \<and> v_number x = v_number v) (versions db) = Some v"
    using find_by_key [OF keys_okD(6) [OF k] v(1)] v(2) by simp
  moreover have "is_ok (fetch_placements S (v_id v) db)"
    using assms(4) by (auto simp: fetch_placements_eq(1) [OF assms(1) v(1) assms(2) v(2) [symmetric]])
  then obtain pls where pls: "fetch_placements S (v_id v) db = Inr pls" by (auto simp: is_ok_iff)
  ultimately have "versions_get_by_number S (b_id b) (v_number v) db = Inr \<lparr>vp_version = v, vp_placements = pls\<rparr>"
    by (simp add: versions_get_by_number_def)
  moreover have "vx_placements (version_image S (b_tier_config b) db v) = map exported pls"
    using fetch_placements_eq(2) [OF assms(1) v(1) assms(2) v(2) [symmetric] pls]
    by (simp add: version_image_def exported_sorted)
  ultimately show ?thesis by auto
qed

section \<open>What the import creates\<close>

lemma map_of_remember [simp]: "map_of (remember_name k v xs) = (map_of xs)(k \<mapsto> v)"
  by (induction k v xs rule: remember_name.induct) (auto simp: fun_eq_iff)

lemma remember_keys [simp]: "fst ` set (remember_name k v xs) = insert k (fst ` set xs)"
  by (induction k v xs rule: remember_name.induct) auto

lemma remember_distinct: "distinct (map fst xs) \<Longrightarrow> distinct (map fst (remember_name k v xs))"
  by (induction k v xs rule: remember_name.induct) (auto simp flip: image_set simp: image_iff)

text \<open>When a slug always comes with the same name, that name is remembered.\<close>

lemma entry_names_gen:
  assumes "\<And>p q. p \<in> set ps \<Longrightarrow> q \<in> set ps \<Longrightarrow> x_entry_slug p = x_entry_slug q \<Longrightarrow> x_entry_name p = x_entry_name q"
  shows "\<forall>p \<in> set ps. map_of (fold (\<lambda>p. remember_name (x_entry_slug p) (x_entry_name p)) ps xs) (x_entry_slug p) =
    Some (x_entry_name p)"
proof -
  have keep: "map_of (fold (\<lambda>p. remember_name (x_entry_slug p) (x_entry_name p)) qs ys) k = map_of ys k"
    if "k \<notin> x_entry_slug ` set qs" for qs ys k
    using that by (induction qs arbitrary: ys) auto
  show ?thesis using assms
  proof (induction ps arbitrary: xs)
    case (Cons a ps)
    let ?F = "fold (\<lambda>p. remember_name (x_entry_slug p) (x_entry_name p)) ps
        (remember_name (x_entry_slug a) (x_entry_name a) xs)"
    have ih: "\<forall>p \<in> set ps. map_of ?F (x_entry_slug p) = Some (x_entry_name p)"
    proof (rule Cons.IH)
      fix p q assume "p \<in> set ps" "q \<in> set ps" "x_entry_slug p = x_entry_slug q"
      then show "x_entry_name p = x_entry_name q" by (intro Cons.prems [of p q]) simp_all
    qed
    have "map_of ?F (x_entry_slug a) = Some (x_entry_name a)"
    proof (cases "x_entry_slug a \<in> x_entry_slug ` set ps")
      case True
      then obtain q where q: "q \<in> set ps" "x_entry_slug a = x_entry_slug q" by blast
      have "x_entry_name a = x_entry_name q" by (rule Cons.prems [OF _ _ q(2)]) (simp_all add: q(1))
      have "map_of ?F (x_entry_slug q) = Some (x_entry_name q)" using ih q(1) by (rule bspec)
      then show ?thesis unfolding q(2) \<open>x_entry_name a = x_entry_name q\<close> .
    next
      case False
      from keep [OF this] show ?thesis by simp
    qed
    with ih show ?case by simp
  qed simp
qed

lemma entry_names_distinct: "distinct (map fst (entry_names vs))"
proof -
  have "distinct (map fst xs) \<Longrightarrow> distinct (map fst (fold (\<lambda>p. remember_name (x_entry_slug p) (x_entry_name p)) ps xs))" for ps xs
    by (induction ps arbitrary: xs) (simp_all add: remember_distinct)
  from this [of "[]"] show ?thesis by (simp add: entry_names_def)
qed

lemma import_entries_spec:
  "import_entries S t bid names db = Inr (ids, db') \<Longrightarrow> db_inv S db \<Longrightarrow>
   db_inv S db' \<and> map fst ids = map fst names \<and> boards db' = boards db \<and> versions db' = versions db \<and>
   placements db' = placements db \<and>
   (\<exists>es. entries db' = entries db @ es \<and> map e_slug es = map fst names \<and> map e_name es = map snd names \<and>
      map e_id es = map snd ids \<and> (\<forall>e \<in> set es. e_board_id e = bid))"
proof (induction names arbitrary: db ids)
  case (Cons x names)
  obtain slug name where x: "x = (slug, name)" by (cases x)
  let ?e = "\<lparr>e_id = next_id S db, e_board_id = bid, e_slug = slug, e_name = name, e_metadata = None,
      e_created_at = t, e_updated_at = t\<rparr>"
  from Cons.prems(1) obtain db1 ids1 where s: "insert_entry ?e db = Inr db1"
      "import_entries S t bid names db1 = Inr (ids1, db')" "ids = (slug, next_id S db) # ids1"
    by (auto simp: x)
  have i: "db_inv S db1" by (rule insert_entry_inv [OF Cons.prems(2) s(1)]) simp
  have d: "entries db1 = entries db @ [?e]" "boards db1 = boards db" "versions db1 = versions db"
      "placements db1 = placements db"
    using s(1) by (auto simp: insert_entry_def split: if_splits)
  from Cons.IH [OF s(2) i] obtain es where es: "entries db' = entries db1 @ es" "map e_slug es = map fst names"
      "map e_name es = map snd names" "map e_id es = map snd ids1" "\<forall>e \<in> set es. e_board_id e = bid"
    by blast
  from Cons.IH [OF s(2) i] d s(3) show ?case
    by (intro conjI exI [of _ "?e # es"]) (use es x in \<open>simp_all\<close>)
qed simp

text \<open>The row \<open>r\<close> of version \<open>vid\<close> is the imported placement \<open>p\<close>; scores may have been ranked.\<close>

definition imported_row :: "(string \<times> uuid) list \<Rightarrow> uuid \<Rightarrow> placement_export \<Rightarrow> placement \<Rightarrow> bool" where
  "imported_row ids vid p r \<longleftrightarrow>
     p_version_id r = vid \<and> map_of ids (x_entry_slug p) = Some (p_entry_id r) \<and> p_position r = x_position p \<and>
     p_score r = x_score p \<and> p_tier r = x_tier p \<and> p_metadata r = x_metadata p"

lemma import_placements_spec:
  "import_placements S vid ids ps db = Inr db' \<Longrightarrow> db_inv S db \<Longrightarrow> (vid, bid) \<in> version_keys db \<Longrightarrow>
   \<forall>i \<in> snd ` set ids. (i, bid) \<in> entry_keys db \<Longrightarrow>
   db_inv S db' \<and> boards db' = boards db \<and> entries db' = entries db \<and> versions db' = versions db \<and>
   (\<exists>rs. placements db' = placements db @ rs \<and> list_all2 (imported_row ids vid) ps rs)"
proof (induction ps arbitrary: db)
  case (Cons p ps)
  from Cons.prems(1) obtain eid db1 where e: "map_of ids (x_entry_slug p) = Some eid"
      "insert_placement (placement_row (next_id S db) vid (import_values eid p)) db = Inr db1"
      "import_placements S vid ids ps db1 = Inr db'"
    by auto
  let ?r = "placement_row (next_id S db) vid (import_values eid p)"
  have "eid \<in> snd ` set ids" using e(1) by (metis imageI map_of_SomeD snd_conv)
  then have "same_board db vid eid" using Cons.prems(3,4) by (auto simp: same_board_def)
  then have i: "db_inv S db1"
    by (intro insert_placement_inv [OF Cons.prems(2) e(2)]) (simp_all add: placement_row_def import_values_def)
  have d: "placements db1 = placements db @ [?r]" "boards db1 = boards db" "entries db1 = entries db"
      "versions db1 = versions db"
    using e(2) by (auto simp: insert_placement_def split: if_splits)
  have k: "(vid, bid) \<in> version_keys db1" "\<forall>i \<in> snd ` set ids. (i, bid) \<in> entry_keys db1"
    using Cons.prems(3,4) d by (simp_all add: version_keys_def entry_keys_def)
  from Cons.IH [OF e(3) i k] obtain rs where rs: "placements db' = placements db1 @ rs"
      "list_all2 (imported_row ids vid) ps rs" by blast
  have "imported_row ids vid p ?r"
    using e(1) by (simp add: imported_row_def placement_row_def import_values_def)
  with Cons.IH [OF e(3) i k] d rs show ?case
    by (intro conjI exI [of _ "?r # rs"]) simp_all
qed simp

definition imported_version :: "uuid \<Rightarrow> version_export \<Rightarrow> version \<Rightarrow> bool" where
  "imported_version bid v w \<longleftrightarrow>
     v_board_id w = bid \<and> v_number w = vx_number v \<and> v_note w = vx_note v \<and> v_metadata w = vx_metadata v"

lemma import_versions_spec:
  "import_versions S t b ids vs db = Inr db' \<Longrightarrow> db_inv S db \<Longrightarrow>
   \<forall>i \<in> snd ` set ids. (i, b_id b) \<in> entry_keys db \<Longrightarrow>
   db_inv S db' \<and> boards db' = boards db \<and> entries db' = entries db \<and>
   (\<exists>out. versions db' = versions db @ map fst out \<and>
      list_all2 (\<lambda>v x. imported_version (b_id b) v (fst x)) vs out \<and>
      filter (\<lambda>p. p_version_id p \<in> v_id ` set (versions db)) (placements db') = placements db \<and>
      (b_board_type b \<noteq> ''scored'' \<longrightarrow> placements db' = placements db @ concat (map snd out) \<and>
         list_all2 (\<lambda>v x. list_all2 (imported_row ids (v_id (fst x))) (vx_placements v) (snd x)) vs out))"
proof (induction vs arbitrary: db)
  case Nil
  have "p_version_id p \<in> v_id ` set (versions db)" if "p \<in> set (placements db)" for p
    using version_of_placement(1,2) [OF Nil.prems(2) that] by (metis imageI)
  then have "filter (\<lambda>p. p_version_id p \<in> v_id ` set (versions db)) (placements db) = placements db"
    by (simp add: filter_id_conv)
  with Nil show ?case by (intro conjI exI [of _ "[]"]) simp_all
next
  case (Cons v vs)
  let ?w = "import_version S t (b_id b) v db"
  from Cons.prems(1) obtain db1 db2 db3 where s: "insert_version ?w db = Inr db1"
      "import_placements S (next_id S db) ids (vx_placements v) db1 = Inr db2"
      "(if b_board_type b = ''scored'' then derive_scored_positions (next_id S db) (b_sort_direction b) db2
        else Inr db2) = Inr db3"
      "import_versions S t b ids vs db3 = Inr db'"
    by auto
  have w: "v_id ?w = next_id S db" "imported_version (b_id b) v ?w"
    by (simp_all add: import_version_def imported_version_def)
  have i1: "db_inv S db1" by (rule insert_version_inv [OF Cons.prems(2) s(1) w(1)])
  have d1: "versions db1 = versions db @ [?w]" "boards db1 = boards db" "entries db1 = entries db"
      "placements db1 = placements db" "v_id ?w \<notin> v_id ` set (versions db)"
    using s(1) by (auto simp: insert_version_def split: if_splits)
  have k1: "(next_id S db, b_id b) \<in> version_keys db1" "\<forall>i \<in> snd ` set ids. (i, b_id b) \<in> entry_keys db1"
    using Cons.prems(3) d1 by (auto simp: version_keys_def entry_keys_def import_version_def)
  from import_placements_spec [OF s(2) i1 k1] obtain rs where i2: "db_inv S db2" and d2: "boards db2 = boards db1"
      "entries db2 = entries db1" "versions db2 = versions db1" "placements db2 = placements db1 @ rs"
      and rs: "list_all2 (imported_row ids (next_id S db)) (vx_placements v) rs"
    by blast
  have i3: "db_inv S db3" using s(3) i2 by (auto intro: derive_inv split: if_splits)
  have d3: "boards db3 = boards db" "entries db3 = entries db" "versions db3 = versions db @ [?w]"
    using s(3) d1 d2 by (auto simp: derive_scored_positions_def Let_def split: if_splits)
  have k3: "\<forall>i \<in> snd ` set ids. (i, b_id b) \<in> entry_keys db3"
    using Cons.prems(3) d3 by (simp add: entry_keys_def)
  from Cons.IH [OF s(4) i3 k3] obtain out where o: "versions db' = versions db3 @ map fst out"
      "list_all2 (\<lambda>v x. imported_version (b_id b) v (fst x)) vs out"
      "filter (\<lambda>p. p_version_id p \<in> v_id ` set (versions db3)) (placements db') = placements db3"
      and ns: "b_board_type b \<noteq> ''scored'' \<Longrightarrow> placements db' = placements db3 @ concat (map snd out)"
      "b_board_type b \<noteq> ''scored'' \<Longrightarrow>
         list_all2 (\<lambda>v x. list_all2 (imported_row ids (v_id (fst x))) (vx_placements v) (snd x)) vs out"
    by blast
  have old: "filter (\<lambda>p. p_version_id p \<in> v_id ` set (versions db)) (placements db') = placements db"
  proof -
    have new: "p_version_id p = next_id S db" if "p \<in> set rs" for p
      using rs that by (auto simp: list_all2_conv_all_nth in_set_conv_nth imported_row_def)
    have "p_version_id p \<in> v_id ` set (versions db)" if "p \<in> set (placements db)" for p
      using version_of_placement(1,2) [OF Cons.prems(2) that] by (metis imageI)
    then have f2: "filter (\<lambda>p. p_version_id p \<in> v_id ` set (versions db)) (placements db2) = placements db"
      using new d1(4,5) w(1) d2(4) by (auto simp: filter_id_conv filter_empty_conv)
    have f3: "filter (\<lambda>p. p_version_id p \<in> v_id ` set (versions db)) (placements db3) = placements db"
    proof (cases "b_board_type b = ''scored''")
      case True
      then have der: "derive_scored_positions (next_id S db) (b_sort_direction b) db2 = Inr db3" using s(3) by simp
      have "filter (\<lambda>p. p_version_id p \<noteq> next_id S db) (placements db3) = filter (\<lambda>p. p_version_id p \<noteq> next_id S db) (placements db2)"
        using derive_rows(2) [OF _ der] i2 by (simp add: db_inv_def)
      then have "filter (\<lambda>p. p_version_id p \<in> v_id ` set (versions db)) (filter (\<lambda>p. p_version_id p \<noteq> next_id S db) (placements db3)) =
          filter (\<lambda>p. p_version_id p \<in> v_id ` set (versions db)) (filter (\<lambda>p. p_version_id p \<noteq> next_id S db) (placements db2))"
        by simp
      moreover have "filter (\<lambda>p. p_version_id p \<in> v_id ` set (versions db)) (filter (\<lambda>p. p_version_id p \<noteq> next_id S db) ps) =
          filter (\<lambda>p. p_version_id p \<in> v_id ` set (versions db)) ps" for ps :: "placement list"
        using d1(5) w(1) by (induction ps) auto
      ultimately show ?thesis using f2 by simp
    qed (use f2 s(3) in simp)
    have "filter (\<lambda>p. p_version_id p \<in> v_id ` set (versions db)) (placements db') =
        filter (\<lambda>p. p_version_id p \<in> v_id ` set (versions db)) (filter (\<lambda>p. p_version_id p \<in> v_id ` set (versions db3)) (placements db'))"
      by (auto simp: d3(3) intro!: filter_cong)
    then show ?thesis unfolding o(3) f3 .
  qed
  show ?case
  proof (intro conjI exI [of _ "(?w, rs) # out"] impI)
    show "versions db' = versions db @ map fst ((?w, rs) # out)" using o(1) d3(3) by simp
    show "list_all2 (\<lambda>v x. imported_version (b_id b) v (fst x)) (v # vs) ((?w, rs) # out)"
      using o(2) w(2) by simp
    show "filter (\<lambda>p. p_version_id p \<in> v_id ` set (versions db)) (placements db') = placements db" by (rule old)
    assume n: "b_board_type b \<noteq> ''scored''"
    show "placements db' = placements db @ concat (map snd ((?w, rs) # out))"
      using ns(1) [OF n] s(3) n d1(4) d2(4) by simp
    show "list_all2 (\<lambda>v x. list_all2 (imported_row ids (v_id (fst x))) (vx_placements v) (snd x)) (v # vs) ((?w, rs) # out)"
      using ns(2) [OF n] rs w(1) by simp
  qed (use Cons.IH [OF s(4) i3 k3] d3 in simp_all)
qed

lemma export_board_ok:
  assumes "db_inv S db" "boards_get_by_slug slug db = Inr b"
    "\<And>p. p \<in> set (placements db) \<Longrightarrow> placement_board db p = b_id b \<Longrightarrow> is_ok (tier_ord S (b_tier_config b) (p_tier p))"
  shows "export_board S slug db = Inr \<lparr>ex_board = board_meta b,
    ex_versions = map (version_image S (b_tier_config b) db) (order_by Asc v_number (board_versions (b_id b) db))\<rparr>"
proof -
  have b: "b \<in> set (boards db)" using assms(2) by (auto simp: boards_get_by_slug_def dest: find_Some_in)
  have "is_ok (export_placements S (b_id b) db)"
  proof -
    let ?g = "\<lambda>x. tier_ord S (b_tier_config (fst x)) (p_tier (snd (snd x)))"
    have "\<forall>x \<in> set (board_joined (b_id b) db). is_ok (?g x)"
      using assms(3) by (auto simp: board_joined_eq [OF assms(1) b] with_entry_def)
    then have m: "map_result (\<lambda>x. rbind (?g x) (\<lambda>ord. Inr (ord, snd x))) (board_joined (b_id b) db) =
        Inr (map (\<lambda>x. (projr (?g x), snd x)) (board_joined (b_id b) db))"
      by (intro map_result_bind [of ?g "\<lambda>x ord. (ord, snd x)", THEN iffD2] conjI refl)
    have cp: "(\<lambda>(b, v, p). rbind (tier_ord S (b_tier_config b) (p_tier p)) (\<lambda>ord. Inr (ord, v, p))) =
        (\<lambda>x. rbind (?g x) (\<lambda>ord. Inr (ord, snd x)))"
      by (auto simp: fun_eq_iff)
    show ?thesis unfolding export_placements_def cp m by simp
  qed
  then obtain ex where ex: "export_board S slug db = Inr ex"
    using assms(2) by (auto simp: is_ok_iff export_board_def Let_def)
  obtain b' where "boards_get_by_slug slug db = Inr b'" "ex_board ex = board_meta b'"
      "ex_versions ex = map (version_image S (b_tier_config b') db) (order_by Asc v_number (board_versions (b_id b') db))"
    by (rule export_board_Inr [OF assms(1) ex])
  with ex assms(2) show ?thesis by simp
qed

lemma import_board_steps:
  assumes "svc_ok S" "db_inv S db" "import_board S sh ex db = Inr (res, db')"
  obtains b db1 ids db2 where "b = new_board S (import_board_input (ex_board ex)) db"
    "bx_slug (ex_board ex) \<notin> b_slug ` set (boards db)"
    "db_inv S db1" "boards db1 = boards db @ [b]" "entries db1 = entries db" "versions db1 = versions db"
    "placements db1 = placements db" "b_id b \<notin> b_id ` set (boards db)"
    "import_entries S (tx_now S db) (b_id b) (sh (entry_names (ex_versions ex))) db1 = Inr (ids, db2)"
    "import_versions S (tx_now S db) b ids (sort_key vx_number (ex_versions ex)) db2 = Inr db'"
    "res = \<lparr>ir_board_slug = bx_slug (ex_board ex),
       ir_version_numbers = map vx_number (sort_key vx_number (ex_versions ex))\<rparr>"
proof -
  let ?inp = "import_board_input (ex_board ex)"
  from assms(3) obtain b db1 ids db2 where s: "insert_new_board S ?inp db = Inr (b, db1)"
      "import_entries S (tx_now S db) (b_id b) (sh (entry_names (ex_versions ex))) db1 = Inr (ids, db2)"
      "import_versions S (tx_now S db) b ids (sort_key vx_number (ex_versions ex)) db2 = Inr db'"
      "res = \<lparr>ir_board_slug = b_slug b, ir_version_numbers = map vx_number (sort_key vx_number (ex_versions ex))\<rparr>"
    by (auto simp: import_board_def Let_def)
  have ins: "insert_board (new_board S ?inp db) db = Inr db1" "b = new_board S ?inp db"
    using s(1) by (auto simp: insert_new_board_def on_unique_violation_def split: sum.splits error.splits db_error.splits)
  have slug: "b_slug b = bx_slug (ex_board ex)" by (simp add: ins(2) new_board_def import_board_input_def)
  have d: "db1 = db\<lparr>boards := boards db @ [b], drawn := Suc (drawn db)\<rparr>" "b_id b \<notin> b_id ` set (boards db)"
      "b_slug b \<notin> b_slug ` set (boards db)"
    using ins by (auto simp: insert_board_def split: if_splits)
  have "db_inv S db1" by (rule insert_board_inv [OF assms(2) ins(1)]) (simp add: new_board_def)
  with that [OF ins(2)] d s slug show thesis by simp
qed

lemma import_ids:
  assumes "import_entries S t bid names db1 = Inr (ids, db2)" "db_inv S db1" "distinct (map fst names)"
  obtains es where "entries db2 = entries db1 @ es" "ids = map (\<lambda>e. (e_slug e, e_id e)) es"
    "names = map (\<lambda>e. (e_slug e, e_name e)) es" "distinct (map e_slug es)" "\<forall>e \<in> set es. e_board_id e = bid"
proof -
  from import_entries_spec [OF assms(1,2)] obtain es where es: "entries db2 = entries db1 @ es"
      "map e_slug es = map fst names" "map e_name es = map snd names" "map e_id es = map snd ids"
      "\<forall>e \<in> set es. e_board_id e = bid" and f: "map fst ids = map fst names"
    by blast
  have "ids = zip (map fst ids) (map snd ids)" by (simp add: zip_map_fst_snd)
  also have "\<dots> = map (\<lambda>e. (e_slug e, e_id e)) es" unfolding f es(2,4) [symmetric] by (simp add: zip_map_map zip_same_conv_map)
  finally have i: "ids = map (\<lambda>e. (e_slug e, e_id e)) es" .
  have "names = zip (map fst names) (map snd names)" by (simp add: zip_map_fst_snd)
  also have "\<dots> = map (\<lambda>e. (e_slug e, e_name e)) es" unfolding es(2,3) [symmetric] by (simp add: zip_map_map zip_same_conv_map)
  finally have n: "names = map (\<lambda>e. (e_slug e, e_name e)) es" .
  show thesis by (rule that [OF es(1) i n _ es(5)]) (use es(2) assms(3) in simp)
qed

lemma import_entry_ids_on_board:
  assumes "entries db2 = entries db1 @ es" "ids = map (\<lambda>e. (e_slug e, e_id e)) es" "\<forall>e \<in> set es. e_board_id e = bid"
  shows "\<forall>i \<in> snd ` set ids. (i, bid) \<in> entry_keys db2"
  using assms by (auto simp: entry_keys_def)

lemma hash_order_distinct:
  assumes "\<And>xs. mset (sh xs) = mset (xs :: (string \<times> string) list)"
  shows "distinct (map fst (sh (entry_names vs)))" "map_of (sh (entry_names vs)) = map_of (entry_names vs)"
proof -
  have "mset (map fst (sh (entry_names vs))) = mset (map fst (entry_names vs))" using assms by simp
  then show d: "distinct (map fst (sh (entry_names vs)))" using entry_names_distinct by (metis mset_eq_imp_distinct_iff)
  have "set (sh (entry_names vs)) = set (entry_names vs)" using assms by (metis set_mset_mset)
  then show "map_of (sh (entry_names vs)) = map_of (entry_names vs)"
    by (rule map_of_inject_set [OF d entry_names_distinct, THEN iffD2])
qed

lemma import_board_inv:
  assumes "svc_ok S" "db_inv S db" "\<And>xs. mset (sh xs) = mset xs" "import_board S sh ex db = Inr (res, db')"
  shows "db_inv S db'"
    "filter (\<lambda>p. p_version_id p \<in> v_id ` set (versions db)) (placements db') = placements db"
    "\<exists>vs. versions db' = versions db @ vs" "\<exists>b. boards db' = boards db @ [b]" "\<exists>es. entries db' = entries db @ es"
proof -
  obtain b db1 ids db2 where s: "db_inv S db1" "boards db1 = boards db @ [b]" "entries db1 = entries db"
      "versions db1 = versions db" "placements db1 = placements db"
      "import_entries S (tx_now S db) (b_id b) (sh (entry_names (ex_versions ex))) db1 = Inr (ids, db2)"
      "import_versions S (tx_now S db) b ids (sort_key vx_number (ex_versions ex)) db2 = Inr db'"
    by (rule import_board_steps [OF assms(1,2,4)])
  obtain es where e: "entries db2 = entries db1 @ es" "ids = map (\<lambda>e. (e_slug e, e_id e)) es"
      "\<forall>e \<in> set es. e_board_id e = b_id b"
    by (rule import_ids [OF s(6,1) hash_order_distinct(1) [OF assms(3)]])
  from import_entries_spec [OF s(6,1)] have i2: "db_inv S db2" "boards db2 = boards db1" "versions db2 = versions db1"
      "placements db2 = placements db1" by simp_all
  from import_versions_spec [OF s(7) i2(1) import_entry_ids_on_board [OF e]] s i2 e(1)
  show "db_inv S db'" "filter (\<lambda>p. p_version_id p \<in> v_id ` set (versions db)) (placements db') = placements db"
    "\<exists>vs. versions db' = versions db @ vs" "\<exists>b. boards db' = boards db @ [b]" "\<exists>es. entries db' = entries db @ es"
    by auto
qed

end
