(* ===== verification/Importing.thy ===== *)
theory Importing
  imports Export
begin

text \<open>
  When an import goes through, and what it writes: only rows of the new board, in the four tables
  of boards, entries, versions and placements.
\<close>

section \<open>What is written\<close>

text \<open>Rows are added to the four tables an import writes, and no other table changes.\<close>

definition rows_added :: "db \<Rightarrow> board list \<Rightarrow> entry list \<Rightarrow> version list \<Rightarrow> placement list \<Rightarrow> db \<Rightarrow> bool" where
  "rows_added db bs es vs ps db' \<longleftrightarrow>
     db' = db\<lparr>boards := boards db @ bs, entries := entries db @ es, versions := versions db @ vs,
       placements := placements db @ ps, drawn := drawn db'\<rparr>"

lemma rows_added_refl: "rows_added db [] [] [] [] db"
  by (simp add: rows_added_def)

lemma rows_added_trans:
  assumes "rows_added db bs es vs ps db1" "rows_added db1 bs' es' vs' ps' db2"
  shows "rows_added db (bs @ bs') (es @ es') (vs @ vs') (ps @ ps') db2"
  using assms unfolding rows_added_def by (cases db; cases db1; cases db2) simp

lemma insert_rows:
  "insert_board b db = Inr db' \<Longrightarrow> rows_added db [b] [] [] [] db'"
  "insert_entry e db = Inr db' \<Longrightarrow> rows_added db [] [e] [] [] db'"
  "insert_version v db = Inr db' \<Longrightarrow> rows_added db [] [] [v] [] db'"
  "insert_placement p db = Inr db' \<Longrightarrow> rows_added db [] [] [] [p] db'"
  by (auto simp: insert_board_def insert_entry_def insert_version_def insert_placement_def rows_added_def split: if_splits)

lemma import_entries_rows:
  "import_entries S t bid names db = Inr (ids, db') \<Longrightarrow>
   \<exists>es. rows_added db [] es [] [] db' \<and> (\<forall>e \<in> set es. e_board_id e = bid)"
proof (induction names arbitrary: db ids)
  case Nil
  then show ?case using rows_added_refl by (intro exI [of _ "[]"]) simp
next
  case (Cons x names)
  obtain slug name where x: "x = (slug, name)" by (cases x)
  let ?e = "\<lparr>e_id = next_id S db, e_board_id = bid, e_slug = slug, e_name = name, e_metadata = None,
      e_created_at = t, e_updated_at = t\<rparr>"
  from Cons.prems obtain db1 ids1 where s: "insert_entry ?e db = Inr db1"
      "import_entries S t bid names db1 = Inr (ids1, db')"
    by (auto simp: x)
  from Cons.IH [OF s(2)] obtain es where es: "rows_added db1 [] es [] [] db'" "\<forall>e \<in> set es. e_board_id e = bid" by blast
  from rows_added_trans [OF insert_rows(2) [OF s(1)] es(1)] es(2) show ?case by (intro exI [of _ "?e # es"]) simp
qed

lemma import_placements_rows:
  "import_placements S vid ids ps db = Inr db' \<Longrightarrow>
   \<exists>rs. rows_added db [] [] [] rs db' \<and> (\<forall>r \<in> set rs. p_version_id r = vid)"
proof (induction ps arbitrary: db)
  case Nil
  then show ?case using rows_added_refl by (intro exI [of _ "[]"]) simp
next
  case (Cons p ps)
  from Cons.prems obtain eid db1 where s: "insert_placement (placement_row (next_id S db) vid (import_values eid p)) db = Inr db1"
      "import_placements S vid ids ps db1 = Inr db'"
    by auto
  let ?r = "placement_row (next_id S db) vid (import_values eid p)"
  from Cons.IH [OF s(2)] obtain rs where rs: "rows_added db1 [] [] [] rs db'" "\<forall>r \<in> set rs. p_version_id r = vid" by blast
  from rows_added_trans [OF insert_rows(4) [OF s(1)] rs(1)] rs(2) show ?case
    by (intro exI [of _ "?r # rs"]) (simp add: placement_row_def)
qed

lemma import_versions_rows:
  "import_versions S t b ids vs db = Inr db' \<Longrightarrow> b_board_type b \<noteq> ''scored'' \<Longrightarrow>
   \<exists>ws rs. rows_added db [] [] ws rs db' \<and> (\<forall>w \<in> set ws. v_board_id w = b_id b) \<and>
     (\<forall>r \<in> set rs. p_version_id r \<in> v_id ` set ws)"
proof (induction vs arbitrary: db)
  case Nil
  then show ?case using rows_added_refl by (intro exI [of _ "[]"]) simp
next
  case (Cons v vs)
  let ?w = "import_version S t (b_id b) v db"
  from Cons.prems obtain db1 db2 where s: "insert_version ?w db = Inr db1"
      "import_placements S (next_id S db) ids (vx_placements v) db1 = Inr db2"
      "import_versions S t b ids vs db2 = Inr db'"
    by auto
  from import_placements_rows [OF s(2)] obtain rs where
    rs: "rows_added db1 [] [] [] rs db2" "\<forall>r \<in> set rs. p_version_id r = next_id S db" by blast
  from Cons.IH [OF s(3) Cons.prems(2)] obtain ws rs' where
    r: "rows_added db2 [] [] ws rs' db'" "\<forall>w \<in> set ws. v_board_id w = b_id b" "\<forall>r \<in> set rs'. p_version_id r \<in> v_id ` set ws"
    by blast
  from rows_added_trans [OF rows_added_trans [OF insert_rows(3) [OF s(1)] rs(1)] r(1)]
  have "rows_added db [] [] (?w # ws) (rs @ rs') db'" by simp
  with rs(2) r(2,3) show ?case
    by (intro exI [of _ "?w # ws"] exI [of _ "rs @ rs'"]) (auto simp: import_version_def)
qed

lemma import_board_rows:
  assumes "import_board S sh ex db = Inr (res, db')" "bx_board_type (ex_board ex) \<noteq> ''scored''"
  shows "\<exists>b es vs ps. rows_added db [b] es vs ps db' \<and> (\<forall>e \<in> set es. e_board_id e = b_id b) \<and>
    (\<forall>v \<in> set vs. v_board_id v = b_id b) \<and> (\<forall>p \<in> set ps. p_version_id p \<in> v_id ` set vs)"
proof -
  let ?inp = "import_board_input (ex_board ex)"
  from assms(1) obtain b db1 ids db2 where s: "insert_new_board S ?inp db = Inr (b, db1)"
      "import_entries S (tx_now S db) (b_id b) (sh (entry_names (ex_versions ex))) db1 = Inr (ids, db2)"
      "import_versions S (tx_now S db) b ids (sort_key vx_number (ex_versions ex)) db2 = Inr db'"
    by (auto simp: import_board_def Let_def)
  have ins: "insert_board b db = Inr db1" "b = new_board S ?inp db"
    using s(1) by (auto simp: insert_new_board_def on_unique_violation_def split: sum.splits error.splits db_error.splits)
  have "b_board_type b \<noteq> ''scored''" using assms(2) by (simp add: ins(2) new_board_def import_board_input_def)
  from import_versions_rows [OF s(3) this] obtain ws rs where
    w: "rows_added db2 [] [] ws rs db'" "\<forall>w \<in> set ws. v_board_id w = b_id b" "\<forall>r \<in> set rs. p_version_id r \<in> v_id ` set ws"
    by blast
  from import_entries_rows [OF s(2)] obtain es where
    e: "rows_added db1 [] es [] [] db2" "\<forall>e \<in> set es. e_board_id e = b_id b" by blast
  from rows_added_trans [OF rows_added_trans [OF insert_rows(1) [OF ins(1)] e(1)] w(1)]
  have "rows_added db [b] es ws rs db'" by simp
  with e(2) w(2,3) show ?thesis by blast
qed

section \<open>When it goes through\<close>

text \<open>
  What an import accepts: a free and valid slug, a valid name, versions whose placements satisfy
  the rules of the type of board, and entries with valid slugs and names.
\<close>

definition importable :: "svc \<Rightarrow> board_export \<Rightarrow> db \<Rightarrow> bool" where
  "importable S ex db \<longleftrightarrow>
     bx_slug (ex_board ex) \<notin> b_slug ` set (boards db) \<and>
     slug_ok (bx_slug (ex_board ex)) \<and> name_ok (bx_name (ex_board ex)) \<and>
     (\<forall>v \<in> set (ex_versions ex).
        placements_ok (temp_board (tx_now S db) (ex_board ex)) (map import_placement_input (vx_placements v)) \<and>
        (\<forall>x \<in> set (vx_placements v). slug_ok (x_entry_slug x) \<and> name_ok (x_entry_name x)))"

lemma import_entries_ok:
  "svc_ok S \<Longrightarrow> db_inv S db \<Longrightarrow> bid \<in> b_id ` set (boards db) \<Longrightarrow> distinct (map fst names) \<Longrightarrow>
   \<forall>x \<in> set names. slug_ok (fst x) \<and> name_ok (snd x) \<Longrightarrow>
   \<forall>e \<in> set (entries db). e_board_id e = bid \<longrightarrow> e_slug e \<notin> fst ` set names \<Longrightarrow>
   \<exists>ids db'. import_entries S t bid names db = Inr (ids, db')"
proof (induction names arbitrary: db)
  case (Cons x names)
  obtain slug name where x: "x = (slug, name)" by (cases x)
  let ?e = "\<lparr>e_id = next_id S db, e_board_id = bid, e_slug = slug, e_name = name, e_metadata = None,
      e_created_at = t, e_updated_at = t\<rparr>"
  let ?db = "db\<lparr>entries := entries db @ [?e], drawn := Suc (drawn db)\<rparr>"
  have "next_id S db \<notin> e_id ` set (entries db)"
    using next_id_fresh [OF Cons.prems(1)] Cons.prems(2) by (auto simp: db_inv_def all_ids_def)
  moreover have "(bid, slug) \<notin> (\<lambda>e. (e_board_id e, e_slug e)) ` set (entries db)"
    using Cons.prems(6) by (auto simp: x)
  ultimately have i: "insert_entry ?e db = Inr ?db" using Cons.prems(3) by (simp add: insert_entry_def)
  have inv: "db_inv S ?db" by (rule insert_entry_inv [OF Cons.prems(2) i]) simp
  have "\<exists>ids db'. import_entries S t bid names ?db = Inr (ids, db')"
    by (rule Cons.IH [OF Cons.prems(1) inv]) (use Cons.prems(3-6) in \<open>auto simp: x\<close>)
  with i Cons.prems(5) show ?case by (auto simp: x)
qed simp

lemma import_entries_valid:
  "import_entries S t bid names db = Inr r \<Longrightarrow> x \<in> set names \<Longrightarrow> slug_ok (fst x) \<and> name_ok (snd x)"
proof (induction names arbitrary: db r)
  case (Cons y names)
  then show ?case by (cases y) auto
qed simp

lemma import_placements_ok:
  "svc_ok S \<Longrightarrow> db_inv S db \<Longrightarrow> (vid, bid) \<in> version_keys db \<Longrightarrow>
   \<forall>i \<in> snd ` set ids. (i, bid) \<in> entry_keys db \<Longrightarrow> inj_on (map_of ids) (dom (map_of ids)) \<Longrightarrow>
   distinct (map x_entry_slug ps) \<Longrightarrow> x_entry_slug ` set ps \<subseteq> dom (map_of ids) \<Longrightarrow>
   \<forall>r \<in> set (placements db). p_version_id r = vid \<longrightarrow> Some (p_entry_id r) \<notin> map_of ids ` x_entry_slug ` set ps \<Longrightarrow>
   \<exists>db'. import_placements S vid ids ps db = Inr db'"
proof (induction ps arbitrary: db)
  case (Cons p ps)
  from Cons.prems(7) obtain eid where e: "map_of ids (x_entry_slug p) = Some eid" by auto
  let ?r = "placement_row (next_id S db) vid (import_values eid p)"
  let ?db = "db\<lparr>placements := placements db @ [?r], drawn := Suc (drawn db)\<rparr>"
  have r: "p_id ?r = next_id S db" "p_version_id ?r = vid" "p_entry_id ?r = eid"
    by (simp_all add: placement_row_def import_values_def)
  have "eid \<in> snd ` set ids" using e by (metis imageI map_of_SomeD snd_conv)
  then have k: "(eid, bid) \<in> entry_keys db" using Cons.prems(4) by blast
  have "next_id S db \<notin> p_id ` set (placements db)"
    using next_id_fresh [OF Cons.prems(1)] Cons.prems(2) by (auto simp: db_inv_def all_ids_def)
  moreover have "(vid, eid) \<notin> (\<lambda>p. (p_version_id p, p_entry_id p)) ` set (placements db)"
    using Cons.prems(8) e by (auto simp: image_iff)
  moreover have "vid \<in> v_id ` set (versions db)" "eid \<in> e_id ` set (entries db)"
    using Cons.prems(3) k by (auto simp: version_keys_def entry_keys_def)
  ultimately have i: "insert_placement ?r db = Inr ?db" by (simp add: insert_placement_def r)
  have inv: "db_inv S ?db"
    by (rule insert_placement_inv [OF Cons.prems(2) i r(1)]) (use Cons.prems(3) k in \<open>auto simp: r same_board_def\<close>)
  have "Some eid \<notin> map_of ids ` x_entry_slug ` set ps"
  proof
    assume "Some eid \<in> map_of ids ` x_entry_slug ` set ps"
    then obtain q where q: "q \<in> set ps" "map_of ids (x_entry_slug q) = map_of ids (x_entry_slug p)" using e by auto
    with Cons.prems(7) inj_onD [OF Cons.prems(5) q(2)] have "x_entry_slug q = x_entry_slug p" by auto
    with q(1) Cons.prems(6) show False by (metis distinct.simps(2) image_eqI list.simps(9) set_map)
  qed
  then have "\<exists>db'. import_placements S vid ids ps ?db = Inr db'"
    using Cons.prems(3-8)
    by (intro Cons.IH [OF Cons.prems(1) inv]) (auto simp: r version_keys_def entry_keys_def)
  with e i show ?case by simp
qed simp

lemma import_versions_ok:
  "svc_ok S \<Longrightarrow> db_inv S db \<Longrightarrow> b_board_type b \<noteq> ''scored'' \<Longrightarrow> b_id b \<in> b_id ` set (boards db) \<Longrightarrow>
   \<forall>i \<in> snd ` set ids. (i, b_id b) \<in> entry_keys db \<Longrightarrow> inj_on (map_of ids) (dom (map_of ids)) \<Longrightarrow>
   distinct (map vx_number vs) \<Longrightarrow> \<forall>v \<in> set vs. 0 < vx_number v \<and> in_i32 (vx_number v) \<and>
     distinct (map x_entry_slug (vx_placements v)) \<and> x_entry_slug ` set (vx_placements v) \<subseteq> dom (map_of ids) \<Longrightarrow>
   \<forall>w \<in> set (versions db). v_board_id w = b_id b \<longrightarrow> v_number w \<notin> vx_number ` set vs \<Longrightarrow>
   \<exists>db'. import_versions S t b ids vs db = Inr db'"
proof (induction vs arbitrary: db)
  case (Cons v vs)
  let ?w = "import_version S t (b_id b) v db"
  let ?db = "db\<lparr>versions := versions db @ [?w], drawn := Suc (drawn db)\<rparr>"
  have w: "v_id ?w = next_id S db" "v_board_id ?w = b_id b" "v_number ?w = vx_number v"
    by (simp_all add: import_version_def)
  have fresh: "next_id S db \<notin> v_id ` set (versions db)"
    using next_id_fresh [OF Cons.prems(1)] Cons.prems(2) by (auto simp: db_inv_def all_ids_def)
  moreover have "(b_id b, vx_number v) \<notin> (\<lambda>v. (v_board_id v, v_number v)) ` set (versions db)"
    using Cons.prems(9) by auto
  ultimately have i: "insert_version ?w db = Inr ?db"
    using Cons.prems(4,8) by (simp add: insert_version_def version_check_def w)
  have inv: "db_inv S ?db" by (rule insert_version_inv [OF Cons.prems(2) i w(1)])
  have "p_version_id r \<noteq> next_id S db" if "r \<in> set (placements db)" for r
    using version_of_placement(1,2) [OF Cons.prems(2) that] fresh by (metis imageI)
  then have "\<exists>db'. import_placements S (next_id S db) ids (vx_placements v) ?db = Inr db'"
    using Cons.prems(5-8)
    by (intro import_placements_ok [OF Cons.prems(1) inv, where bid = "b_id b"])
      (auto simp: version_keys_def entry_keys_def w)
  then obtain db2 where p: "import_placements S (next_id S db) ids (vx_placements v) ?db = Inr db2" ..
  have k: "(next_id S db, b_id b) \<in> version_keys ?db" "\<forall>i \<in> snd ` set ids. (i, b_id b) \<in> entry_keys ?db"
    using Cons.prems(5) by (auto simp: version_keys_def entry_keys_def w)
  from import_placements_spec [OF p inv k] have d: "db_inv S db2" "boards db2 = boards db" "entries db2 = entries db"
      "versions db2 = versions db @ [?w]" by simp_all
  have "\<exists>db'. import_versions S t b ids vs db2 = Inr db'"
    by (rule Cons.IH [OF Cons.prems(1) d(1) Cons.prems(3)])
      (use Cons.prems(4-9) in \<open>auto simp: d(2-4) w entry_keys_def\<close>)
  with i p Cons.prems(3) show ?case by simp
qed simp

text \<open>The names an import creates are names of the placements, and every slug has one.\<close>

lemma entry_names_from:
  "x \<in> set (entry_names vs) \<Longrightarrow> \<exists>p \<in> set (concat (map vx_placements vs)). x = (x_entry_slug p, x_entry_name p)"
proof -
  have one: "set (remember_name k n xs) \<subseteq> insert (k, n) (set xs)" for k n xs
    by (induction k n xs rule: remember_name.induct) auto
  have "set (fold (\<lambda>p. remember_name (x_entry_slug p) (x_entry_name p)) ps xs) \<subseteq>
      (\<lambda>p. (x_entry_slug p, x_entry_name p)) ` set ps \<union> set xs" for ps xs
  proof (induction ps arbitrary: xs)
    case (Cons p ps)
    from Cons [of "remember_name (x_entry_slug p) (x_entry_name p) xs"] one [of "x_entry_slug p" "x_entry_name p" xs]
    show ?case by auto
  qed simp
  from this [of "concat (map vx_placements vs)" "[]"]
  show "x \<in> set (entry_names vs) \<Longrightarrow> \<exists>p \<in> set (concat (map vx_placements vs)). x = (x_entry_slug p, x_entry_name p)"
    unfolding entry_names_def by fastforce
qed

lemma entry_names_slugs: "fst ` set (entry_names vs) = x_entry_slug ` set (concat (map vx_placements vs))"
proof -
  have "fst ` set (fold (\<lambda>p. remember_name (x_entry_slug p) (x_entry_name p)) ps xs) =
      x_entry_slug ` set ps \<union> fst ` set xs" for ps xs
    by (induction ps arbitrary: xs) auto
  from this [of "concat (map vx_placements vs)" "[]"] show ?thesis by (simp add: entry_names_def)
qed

lemma map_of_ids_inj:
  assumes "distinct (map snd ids)"
  shows "inj_on (map_of ids) (dom (map_of ids))"
proof (rule inj_onI)
  fix s s' assume "s \<in> dom (map_of ids)" "map_of ids s = map_of ids s'"
  then obtain i where "map_of ids s = Some i" "map_of ids s' = Some i" by (metis domD)
  then have "(s, i) \<in> set ids" "(s', i) \<in> set ids" by (auto dest: map_of_SomeD)
  from distinct_map_inj [OF assms this] show "s = s'" by simp
qed

lemma import_board_ok:
  assumes "svc_ok S" "db_inv S db" "\<And>xs. mset (sh xs) = mset (xs :: (string \<times> string) list)"
    and "bx_board_type (ex_board ex) \<noteq> ''scored''" "board_check (temp_board t (ex_board ex))"
    and "distinct (map vx_number (ex_versions ex))"
    and "\<forall>v \<in> set (ex_versions ex). 0 < vx_number v \<and> in_i32 (vx_number v)"
    and "importable S ex db"
  shows "is_ok (import_board S sh ex db)"
proof -
  let ?inp = "import_board_input (ex_board ex)" and ?b = "new_board S (import_board_input (ex_board ex)) db"
  let ?vs = "sort_key vx_number (ex_versions ex)" and ?names = "sh (entry_names (ex_versions ex))"
  let ?db1 = "db\<lparr>boards := boards db @ [?b], drawn := Suc (drawn db)\<rparr>"
  note imp = assms(8) [unfolded importable_def]
  have id: "b_id ?b = next_id S db" "b_slug ?b = bx_slug (ex_board ex)" "b_board_type ?b \<noteq> ''scored''" "board_check ?b"
    using assms(4,5) by (auto simp: new_board_def import_board_input_def board_check_def temp_board_def)
  have fresh: "next_id S db \<notin> b_id ` set (boards db)"
    using next_id_fresh [OF assms(1)] assms(2) by (auto simp: db_inv_def all_ids_def)
  have ins: "insert_board ?b db = Inr ?db1" using fresh imp id by (simp add: insert_board_def)
  then have new: "insert_new_board S ?inp db = Inr (?b, ?db1)" by (simp add: insert_new_board_def on_unique_violation_def)
  have inv1: "db_inv S ?db1" by (rule insert_board_inv [OF assms(2) ins id(1)])
  note order = hash_order_distinct(1) [OF assms(3), of "ex_versions ex"]
  have names: "set ?names = set (entry_names (ex_versions ex))" using assms(3) by (metis set_mset_mset)
  have "\<exists>ids db2. import_entries S (tx_now S db) (b_id ?b) ?names ?db1 = Inr (ids, db2)"
  proof (rule import_entries_ok [OF assms(1) inv1 _ order])
    show "\<forall>x \<in> set ?names. slug_ok (fst x) \<and> name_ok (snd x)"
      using imp entry_names_from [of _ "ex_versions ex"] by (fastforce simp: names)
    have "e_board_id e \<noteq> next_id S db" if "e \<in> set (entries db)" for e
      using assms(2) fresh that unfolding db_inv_def refs_ok_def by metis
    then show "\<forall>e \<in> set (entries ?db1). e_board_id e = b_id ?b \<longrightarrow> e_slug e \<notin> fst ` set ?names"
      by (simp add: id(1))
  qed simp
  then obtain ids db2 where ent: "import_entries S (tx_now S db) (b_id ?b) ?names ?db1 = Inr (ids, db2)" by blast
  obtain es where es: "entries db2 = entries ?db1 @ es" "ids = map (\<lambda>e. (e_slug e, e_id e)) es"
      "?names = map (\<lambda>e. (e_slug e, e_name e)) es" "\<forall>e \<in> set es. e_board_id e = b_id ?b"
    by (rule import_ids [OF ent inv1 order]) (rule that; assumption)
  from import_entries_spec [OF ent inv1] have i2: "db_inv S db2" "boards db2 = boards ?db1" "versions db2 = versions db"
    by simp_all
  have "distinct (map snd ids)"
    using i2(1) by (simp add: es(1,2) db_inv_def keys_ok_def comp_def)
  note inj = map_of_ids_inj [OF this]
  have "fst ` set ids = fst ` set ?names" by (simp add: es(2,3) image_image)
  then have dom: "dom (map_of ids) = x_entry_slug ` set (concat (map vx_placements (ex_versions ex)))"
    by (simp add: dom_map_of_conv_image_fst names entry_names_slugs)
  have "v_board_id w \<noteq> next_id S db" if "w \<in> set (versions db)" for w
      using assms(2) fresh that unfolding db_inv_def refs_ok_def by metis
  then have free: "\<forall>w \<in> set (versions db2). v_board_id w = b_id ?b \<longrightarrow> v_number w \<notin> vx_number ` set ?vs"
    by (simp add: i2(3) id(1))
  have rows: "\<forall>v \<in> set ?vs. 0 < vx_number v \<and> in_i32 (vx_number v) \<and> distinct (map x_entry_slug (vx_placements v)) \<and>
      x_entry_slug ` set (vx_placements v) \<subseteq> dom (map_of ids)"
    using assms(7) imp by (auto simp: dom placements_ok_def import_placement_input_def comp_def)
  have "distinct (map vx_number ?vs)"
    using assms(6) by (metis mset_map mset_sort mset_eq_imp_distinct_iff)
  then have "\<exists>db3. import_versions S (tx_now S db) ?b ids ?vs db2 = Inr db3"
    by (intro import_versions_ok [OF assms(1) i2(1) id(3) _ import_entry_ids_on_board [OF es(1,2,4)] inj _ rows free])
      (simp_all add: i2(2))
  then obtain db3 where ver: "import_versions S (tx_now S db) ?b ids ?vs db2 = Inr db3" ..
  have checked: "for_each (\<lambda>v. validate_placements_for_import (temp_board (tx_now S db) (ex_board ex))
      (map import_placement_input (vx_placements v))) (ex_versions ex) = Inr ()"
    using imp by (simp add: validate_placements_for_import_def validate_placements_iff)
  have flags: "validate_slug (cb_slug ?inp) = Inr ()" "validate_name (cb_name ?inp) = Inr ()"
      "validate_board_type (cb_board_type ?inp) = Inr ()" "validate_sort_direction (cb_sort_direction ?inp) = Inr ()"
      "check_board_flags (cb_board_type ?inp) (cb_accumulative ?inp) (cb_realtime ?inp) (cb_clear_on_snapshot ?inp) = Inr ()"
    using imp assms(5) by (auto simp: import_board_input_def board_check_def temp_board_def validate_board_type_def
        validate_sort_direction_def check_board_flags_def)
  show ?thesis unfolding import_board_def Let_def checked flags new rbind_Inr prod.case ent ver is_ok_simps ..
qed

text \<open>Nothing else goes through, for an export where a slug always comes with the same name.\<close>

lemma import_board_importable:
  assumes "svc_ok S" "db_inv S db" "\<And>xs. mset (sh xs) = mset (xs :: (string \<times> string) list)"
    and "import_board S sh ex db = Inr (res, db')"
    and "\<And>x y. x \<in> set (concat (map vx_placements (ex_versions ex))) \<Longrightarrow>
      y \<in> set (concat (map vx_placements (ex_versions ex))) \<Longrightarrow> x_entry_slug x = x_entry_slug y \<Longrightarrow>
      x_entry_name x = x_entry_name y"
  shows "importable S ex db"
proof -
  let ?names = "sh (entry_names (ex_versions ex))"
  obtain b db1 ids db2 where s: "b = new_board S (import_board_input (ex_board ex)) db"
    "bx_slug (ex_board ex) \<notin> b_slug ` set (boards db)"
    "db_inv S db1" "boards db1 = boards db @ [b]" "entries db1 = entries db" "versions db1 = versions db"
    "placements db1 = placements db" "b_id b \<notin> b_id ` set (boards db)"
    "import_entries S (tx_now S db) (b_id b) ?names db1 = Inr (ids, db2)"
    by (rule import_board_steps [OF assms(1,2,4)])
  have names: "set ?names = set (entry_names (ex_versions ex))" using assms(3) by (metis set_mset_mset)
  have "slug_ok (x_entry_slug x) \<and> name_ok (x_entry_name x)" if "x \<in> set (concat (map vx_placements (ex_versions ex)))" for x
  proof -
    have "map_of (entry_names (ex_versions ex)) (x_entry_slug x) = Some (x_entry_name x)"
      using entry_names_gen [where xs = "[]", OF assms(5)] that unfolding entry_names_def by blast
    then have "(x_entry_slug x, x_entry_name x) \<in> set ?names" unfolding names by (rule map_of_SomeD)
    from import_entries_valid [OF s(9) this] show ?thesis by simp
  qed
  moreover from assms(4) have "slug_ok (bx_slug (ex_board ex))" "name_ok (bx_name (ex_board ex))"
    "\<forall>v \<in> set (ex_versions ex). placements_ok (temp_board (tx_now S db) (ex_board ex)) (map import_placement_input (vx_placements v))"
    by (auto simp: import_board_def import_board_input_def Let_def validate_placements_for_import_def validate_placements_iff)
  ultimately show ?thesis using s(2) by (auto simp: importable_def)
qed

end
