(* ===== verification/Roundtrip.thy ===== *)
theory Roundtrip
  imports Importing
begin

text \<open>
  Export and import against each other: the batch export shows what the versions show one by one,
  and a board that is not scored survives the trip through another database unchanged.
\<close>

text \<open>In an export, a slug always comes with the same name.\<close>

lemma export_names_agree:
  assumes "db_inv S db" "p \<in> set (placements db)" "q \<in> set (placements db)"
    "placement_board db p = placement_board db q"
    "e_slug (entry_of db (p_entry_id p)) = e_slug (entry_of db (p_entry_id q))"
  shows "entry_of db (p_entry_id p) = entry_of db (p_entry_id q)"
proof -
  have k: "keys_ok db" using assms(1) by (simp add: db_inv_def)
  let ?e = "entry_of db (p_entry_id p)" and ?f = "entry_of db (p_entry_id q)"
  note e = entry_of_placement [OF assms(1,2)] and f = entry_of_placement [OF assms(1,3)]
  have "e_board_id ?e = placement_board db p"
    unfolding placement_board_def
    by (rule entry_key_fun [OF k entry_keys_mem [OF e(1,2)] version_of_placement(4) [OF assms(1,2)]])
  moreover have "e_board_id ?f = placement_board db q"
    unfolding placement_board_def
    by (rule entry_key_fun [OF k entry_keys_mem [OF f(1,2)] version_of_placement(4) [OF assms(1,3)]])
  ultimately have "(e_board_id ?e, e_slug ?e) = (e_board_id ?f, e_slug ?f)" using assms(4,5) by simp
  then show ?thesis by (rule distinct_map_inj [OF keys_okD(4) [OF k] e(1) f(1)])
qed

lemma version_image_placements:
  assumes "db_inv S db" "v \<in> set (board_versions bid db)" "x \<in> set (vx_placements (version_image S tc db v))"
  obtains p where "p \<in> set (placements db)" "p_version_id p = v_id v" "placement_board db p = bid"
    "x = exported (with_entry p (entry_of db (p_entry_id p)))"
proof -
  have k: "keys_ok db" using assms(1) by (simp add: db_inv_def)
  from assms(3) obtain p where p: "p \<in> set (placements db)" "p_version_id p = v_id v"
      "x = exported (with_entry p (entry_of db (p_entry_id p)))"
    by (auto simp: version_image_def joined_placements_eq [OF assms(1)])
  have "version_of db (v_id v) = v" "v_board_id v = bid"
    using assms(2) version_of_eq [OF k] by (auto simp: board_versions_def)
  then have "placement_board db p = bid" using p(2) by (simp add: placement_board_def)
  with p that show thesis by blast
qed

lemma exported_fields [simp]:
  "x_entry_slug (exported (with_entry p e)) = e_slug e" "x_entry_name (exported (with_entry p e)) = e_name e"
  "x_position (exported (with_entry p e)) = p_position p" "x_score (exported (with_entry p e)) = p_score p"
  "x_tier (exported (with_entry p e)) = p_tier p" "x_metadata (exported (with_entry p e)) = p_metadata p"
  by (simp_all add: exported_def with_entry_def)

lemma version_image_sorted: "sort_key (export_key S tc) (vx_placements (version_image S tc db v)) =
    vx_placements (version_image S tc db v)"
  by (simp add: version_image_def sort_key_id_if_sorted)

text \<open>An imported version shows what its export holds.\<close>

lemma imported_version_image:
  assumes "db_inv S db" "filter (\<lambda>p. p_version_id p = v_id w) (placements db) = rs" "imported_version bid v w"
    "list_all2 (imported_row ids (v_id w)) (vx_placements v) rs"
    "\<forall>x \<in> set (vx_placements v). \<exists>e \<in> set (entries db). map_of ids (x_entry_slug x) = Some (e_id e) \<and>
       e_slug e = x_entry_slug x \<and> e_name e = x_entry_name x"
    "sort_key (export_key S tc) (vx_placements v) = vx_placements v"
  shows "version_image S tc db w = v"
proof -
  have k: "keys_ok db" using assms(1) by (simp add: db_inv_def)
  have "map exported (joined_placements (v_id w) db) =
      map (\<lambda>p. exported (with_entry p (entry_of db (p_entry_id p)))) rs"
    by (simp add: joined_placements_eq [OF assms(1)] assms(2))
  also have "\<dots> = vx_placements v"
  proof (rule nth_equalityI)
    show "length (map (\<lambda>p. exported (with_entry p (entry_of db (p_entry_id p)))) rs) = length (vx_placements v)"
      using assms(4) by (simp add: list_all2_lengthD)
    fix i assume "i < length (map (\<lambda>p. exported (with_entry p (entry_of db (p_entry_id p)))) rs)"
    then have i: "i < length rs" "i < length (vx_placements v)" using list_all2_lengthD [OF assms(4)] by simp_all
    let ?x = "vx_placements v ! i" and ?r = "rs ! i"
    have r: "imported_row ids (v_id w) ?x ?r" using assms(4) i(2) by (rule list_all2_nthD)
    obtain e where e: "e \<in> set (entries db)" "map_of ids (x_entry_slug ?x) = Some (e_id e)"
        "e_slug e = x_entry_slug ?x" "e_name e = x_entry_name ?x"
      using assms(5) nth_mem [OF i(2)] by blast
    have "p_entry_id ?r = e_id e" using r e(2) by (simp add: imported_row_def)
    then have "entry_of db (p_entry_id ?r) = e" using entry_of_eq [OF k e(1)] by simp
    then have "exported (with_entry ?r (entry_of db (p_entry_id ?r))) = ?x"
      using r e(3,4) by (simp add: imported_row_def exported_def with_entry_def)
    then show "map (\<lambda>p. exported (with_entry p (entry_of db (p_entry_id p)))) rs ! i = ?x" using i(1) by simp
  qed
  finally show ?thesis
    using assms(3,6) by (simp add: version_image_def imported_version_def)
qed

lemma filter_concat_version:
  assumes "distinct (map (\<lambda>x. v_id (fst x)) out)" "x \<in> set out"
    "\<forall>y \<in> set out. \<forall>r \<in> set (snd y). p_version_id r = v_id (fst y)"
  shows "filter (\<lambda>p. p_version_id p = v_id (fst x)) (concat (map snd out)) = snd x"
  using assms
proof (induction out)
  case (Cons y out)
  show ?case
  proof (cases "y = x")
    case True
    then have "filter (\<lambda>p. p_version_id p = v_id (fst x)) (snd y) = snd x" using Cons.prems(3) by (simp add: filter_id_conv)
    moreover have "filter (\<lambda>p. p_version_id p = v_id (fst x)) (concat (map snd out)) = []"
      using Cons.prems(1,3) True by (auto simp: filter_empty_conv image_iff)
    ultimately show ?thesis by simp
  next
    case False
    then have x: "x \<in> set out" using Cons.prems(2) by simp
    then have "v_id (fst y) \<noteq> v_id (fst x)" using Cons.prems(1) by (auto simp: image_iff)
    then have "filter (\<lambda>p. p_version_id p = v_id (fst x)) (snd y) = []" using Cons.prems(3) by (simp add: filter_empty_conv)
    with Cons.IH x Cons.prems show ?thesis by simp
  qed
qed simp

text \<open>
  C17: the batch export of a board agrees with reading its versions one by one: it lists the numbers
  of the board's versions in increasing order, each with the note, metadata and placements, in
  order, that \<open>get_by_number\<close> returns.
\<close>

theorem export_agrees_with_reads:
  assumes "db_inv S db" "export_board S slug db = Inr ex"
  shows "\<exists>b. boards_get_by_slug slug db = Inr b \<and> ex_board ex = board_meta b \<and>
    sorted_wrt (<) (map vx_number (ex_versions ex)) \<and>
    set (map vx_number (ex_versions ex)) = v_number ` set (board_versions (b_id b) db) \<and>
    (\<forall>x \<in> set (ex_versions ex). \<exists>vp. versions_get_by_number S (b_id b) (vx_number x) db = Inr vp \<and>
       vx_note x = v_note (vp_version vp) \<and> vx_metadata x = v_metadata (vp_version vp) \<and>
       vx_placements x = map exported (vp_placements vp))"
proof -
  have k: "keys_ok db" using assms(1) by (simp add: db_inv_def)
  obtain b where b: "b \<in> set (boards db)" "boards_get_by_slug slug db = Inr b" "ex_board ex = board_meta b"
    and "b_slug b = slug" and vs: "ex_versions ex = map (version_image S (b_tier_config b) db) (order_by Asc v_number (board_versions (b_id b) db))"
    and t: "\<And>v p. v \<in> set (board_versions (b_id b) db) \<Longrightarrow> p \<in> set (placements db) \<Longrightarrow> p_version_id p = v_id v \<Longrightarrow>
       is_ok (tier_ord S (b_tier_config b) (p_tier p))"
    by (rule export_board_Inr [OF assms]) blast
  note b = b(1) b(2,3)
  have n: "vx_number (version_image S tc db v) = v_number v" "vx_note (version_image S tc db v) = v_note v"
      "vx_metadata (version_image S tc db v) = v_metadata v" for tc v
    by (simp_all add: version_image_def)
  have "sorted_wrt (\<lambda>v w. v_number v < v_number w) (order_by Asc v_number (board_versions (b_id b) db))"
    using order_by_strict [OF board_numbers_distinct [OF k], of Asc] by simp
  then have s: "sorted_wrt (<) (map vx_number (ex_versions ex))" by (simp add: vs n sorted_wrt_map)
  have m: "set (map vx_number (ex_versions ex)) = v_number ` set (board_versions (b_id b) db)"
    unfolding vs set_map set_order_by by (simp add: image_image n)
  show ?thesis
  proof (intro exI [of _ b] conjI b(2,3) s m ballI)
    fix x assume "x \<in> set (ex_versions ex)"
    then obtain v where v: "v \<in> set (board_versions (b_id b) db)" "x = version_image S (b_tier_config b) db v"
      unfolding vs set_map set_order_by by blast
    from version_image_read [OF assms(1) b(1) v(1) t [OF v(1)]] obtain vp where
        "versions_get_by_number S (b_id b) (v_number v) db = Inr vp" "vp_version vp = v"
        "vx_placements (version_image S (b_tier_config b) db v) = map exported (vp_placements vp)"
      by blast
    then show "\<exists>vp. versions_get_by_number S (b_id b) (vx_number x) db = Inr vp \<and>
       vx_note x = v_note (vp_version vp) \<and> vx_metadata x = v_metadata (vp_version vp) \<and>
       vx_placements x = map exported (vp_placements vp)"
      by (intro exI [of _ vp]) (simp add: v(2) n)
  qed
qed

lemma plain_tiers: "tiers_readable sample_svc (b_tier_config plain_board)"
  by (simp add: no_tiers_readable)

theorem export_agrees_with_reads_witness:
  "\<exists>vp db ex. versions_create sample_svc plain_board sample_version_input None plain_db = Inr (vp, db) \<and>
     export_board sample_svc ''speed'' db = Inr ex \<and> set (map vx_number (ex_versions ex)) = {1}"
proof -
  obtain vp db where c: "versions_create sample_svc plain_board sample_version_input None plain_db = Inr (vp, db)"
    using plain_create_ok unfolding is_ok_iff by (metis surj_pair)
  note out = plain_created [OF c]
  have g: "boards_get_by_slug ''speed'' db = Inr plain_board"
    by (simp add: boards_get_by_slug_def out plain_board_def sample_row_def new_board_def sample_board_def)
  have "is_ok (tier_ord sample_svc (b_tier_config plain_board) t)" for t
    using plain_tiers by (simp add: tiers_readable_def)
  from export_board_ok [OF out(1) g this] obtain ex where ex: "export_board sample_svc ''speed'' db = Inr ex" by blast
  have "v_number ` set (board_versions (b_id plain_board) db) = {1}" by (simp add: board_versions_def out)
  with export_agrees_with_reads [OF out(1) ex] g have "set (map vx_number (ex_versions ex)) = {1}" by auto
  with c ex show ?thesis by blast
qed

text \<open>What every export satisfies, and what the import relies on.\<close>

definition export_ok :: "svc \<Rightarrow> string \<Rightarrow> board_export \<Rightarrow> bool" where
  "export_ok S slug ex \<longleftrightarrow>
     bx_slug (ex_board ex) = slug \<and> sorted (map vx_number (ex_versions ex)) \<and>
     (\<forall>v \<in> set (ex_versions ex).
        sort_key (export_key S (bx_tier_config (ex_board ex))) (vx_placements v) = vx_placements v \<and>
        (\<forall>x \<in> set (vx_placements v). is_ok (tier_ord S (bx_tier_config (ex_board ex)) (x_tier x)))) \<and>
     (\<forall>x \<in> set (concat (map vx_placements (ex_versions ex))).
        \<forall>y \<in> set (concat (map vx_placements (ex_versions ex))).
          x_entry_slug x = x_entry_slug y \<longrightarrow> x_entry_name x = x_entry_name y)"

lemma export_is_ok:
  assumes "db_inv S db" "export_board S slug db = Inr ex"
  shows "export_ok S slug ex"
proof -
  obtain b where b: "ex_board ex = board_meta b" "b_slug b = slug"
    and vs: "ex_versions ex = map (version_image S (b_tier_config b) db) (order_by Asc v_number (board_versions (b_id b) db))"
    and t: "\<And>v p. v \<in> set (board_versions (b_id b) db) \<Longrightarrow> p \<in> set (placements db) \<Longrightarrow> p_version_id p = v_id v \<Longrightarrow>
       is_ok (tier_ord S (b_tier_config b) (p_tier p))"
    by (rule export_board_Inr [OF assms]) blast
  have tc: "bx_tier_config (ex_board ex) = b_tier_config b" "bx_slug (ex_board ex) = slug"
    using b by (simp_all add: board_meta_def)
  have image: "\<exists>v \<in> set (board_versions (b_id b) db). x = version_image S (b_tier_config b) db v"
    if "x \<in> set (ex_versions ex)" for x
    using that unfolding vs set_map set_order_by by blast
  have place: "\<exists>p v. v \<in> set (board_versions (b_id b) db) \<and> p \<in> set (placements db) \<and> p_version_id p = v_id v \<and>
      placement_board db p = b_id b \<and> x = exported (with_entry p (entry_of db (p_entry_id p)))"
    if "v \<in> set (ex_versions ex)" "x \<in> set (vx_placements v)" for v x
  proof -
    from image [OF that(1)] obtain w where w: "w \<in> set (board_versions (b_id b) db)" "v = version_image S (b_tier_config b) db w" ..
    from version_image_placements [OF assms(1) w(1) that(2) [unfolded w(2)]] w(1) show ?thesis by metis
  qed
  have "sorted (map vx_number (ex_versions ex))" by (simp add: vs version_image_def comp_def)
  moreover have "sort_key (export_key S (b_tier_config b)) (vx_placements v) = vx_placements v" if "v \<in> set (ex_versions ex)" for v
    using image [OF that] version_image_sorted by auto
  moreover have "is_ok (tier_ord S (b_tier_config b) (x_tier x))" if "v \<in> set (ex_versions ex)" "x \<in> set (vx_placements v)" for v x
    using place [OF that] t by auto
  moreover have "x_entry_name x = x_entry_name y"
    if xy: "x \<in> set (concat (map vx_placements (ex_versions ex)))" "y \<in> set (concat (map vx_placements (ex_versions ex)))"
      "x_entry_slug x = x_entry_slug y" for x y
  proof -
    obtain v w where v: "v \<in> set (ex_versions ex)" "x \<in> set (vx_placements v)"
        and w: "w \<in> set (ex_versions ex)" "y \<in> set (vx_placements w)"
      using xy(1,2) by auto
    obtain p where p: "p \<in> set (placements db)" "placement_board db p = b_id b" "x = exported (with_entry p (entry_of db (p_entry_id p)))"
      using place [OF v] by blast
    obtain q where q: "q \<in> set (placements db)" "placement_board db q = b_id b" "y = exported (with_entry q (entry_of db (p_entry_id q)))"
      using place [OF w] by blast
    have "entry_of db (p_entry_id p) = entry_of db (p_entry_id q)"
      by (rule export_names_agree [OF assms(1) p(1) q(1)]) (use p(2,3) q(2,3) xy(3) in simp_all)
    then show ?thesis by (simp add: p(3) q(3))
  qed
  ultimately show ?thesis unfolding export_ok_def tc by blast
qed

text \<open>What an import of a board that is not scored has created, version by version.\<close>

lemma import_shape:
  assumes "svc_ok S" "db_inv S db" "\<And>xs. mset (sh xs) = mset (xs :: (string \<times> string) list)"
    "import_board S sh ex db = Inr (res, db')" "bx_board_type (ex_board ex) \<noteq> ''scored''" "bx_slug (ex_board ex) = slug"
  defines "vs \<equiv> sort_key vx_number (ex_versions ex)"
  obtains b ids out where "boards_get_by_slug slug db' = Inr b" "board_meta b = ex_board ex"
    "board_versions (b_id b) db' = map fst out" "length out = length vs"
    "\<And>i. i < length out \<Longrightarrow> imported_version (b_id b) (vs ! i) (fst (out ! i))"
    "\<And>i. i < length out \<Longrightarrow> list_all2 (imported_row ids (v_id (fst (out ! i)))) (vx_placements (vs ! i)) (snd (out ! i))"
    "\<And>i. i < length out \<Longrightarrow> filter (\<lambda>p. p_version_id p = v_id (fst (out ! i))) (placements db') = snd (out ! i)"
    "\<And>sl nm. map_of (entry_names (ex_versions ex)) sl = Some nm \<Longrightarrow>
       \<exists>e \<in> set (entries db'). map_of ids sl = Some (e_id e) \<and> e_slug e = sl \<and> e_name e = nm"
proof -
  obtain b db1 ids db2 where s: "b = new_board S (import_board_input (ex_board ex)) db"
    "bx_slug (ex_board ex) \<notin> b_slug ` set (boards db)"
    "db_inv S db1" "boards db1 = boards db @ [b]" "entries db1 = entries db" "versions db1 = versions db"
    "placements db1 = placements db" "b_id b \<notin> b_id ` set (boards db)"
    "import_entries S (tx_now S db) (b_id b) (sh (entry_names (ex_versions ex))) db1 = Inr (ids, db2)"
    "import_versions S (tx_now S db) b ids vs db2 = Inr db'"
    unfolding vs_def by (rule import_board_steps [OF assms(1,2,4)])
  have meta: "board_meta b = ex_board ex" "b_slug b = slug" "b_board_type b \<noteq> ''scored''"
    using assms(5,6) by (simp_all add: s(1) new_board_def import_board_input_def board_meta_def)
  note order = hash_order_distinct [OF assms(3), of "ex_versions ex"]
  obtain es where es: "entries db2 = entries db1 @ es" "ids = map (\<lambda>e. (e_slug e, e_id e)) es"
    "sh (entry_names (ex_versions ex)) = map (\<lambda>e. (e_slug e, e_name e)) es" "distinct (map e_slug es)"
    "\<forall>e \<in> set es. e_board_id e = b_id b"
    by (rule import_ids [OF s(9,3) order(1)])
  from import_entries_spec [OF s(9,3)] have i2: "db_inv S db2" "boards db2 = boards db1" "versions db2 = versions db1"
      "placements db2 = placements db1" by simp_all
  from import_versions_spec [OF s(10) i2(1) import_entry_ids_on_board [OF es(1,2,5)]] meta(3)
  obtain out where inv: "db_inv S db'" and bd: "boards db' = boards db2" and en: "entries db' = entries db2"
      and vsn: "versions db' = versions db2 @ map fst out"
      and vv: "list_all2 (\<lambda>v x. imported_version (b_id b) v (fst x)) vs out"
      and pl: "placements db' = placements db2 @ concat (map snd out)"
      and rows: "list_all2 (\<lambda>v x. list_all2 (imported_row ids (v_id (fst x))) (vx_placements v) (snd x)) vs out"
    by blast
  have len: "length out = length vs" using vv by (simp add: list_all2_lengthD)
  note nth = list_all2_nthD2 [OF vv] list_all2_nthD2 [OF rows]
  have out_board: "v_board_id (fst y) = b_id b" if y: "y \<in> set out" for y
  proof -
    from y obtain i where "i < length out" "y = out ! i" by (auto simp: in_set_conv_nth)
    with nth(1) [of i] show ?thesis by (simp add: imported_version_def)
  qed
  have row_version: "p_version_id r = v_id (fst y)" if y: "y \<in> set out" "r \<in> set (snd y)" for y r
  proof -
    from y(1) obtain i where "i < length out" "y = out ! i" by (auto simp: in_set_conv_nth)
    with nth(2) [of i] have "list_all2 (imported_row ids (v_id (fst y))) (vx_placements (vs ! i)) (snd y)" by simp
    moreover from y(2) obtain j where "j < length (snd y)" "r = snd y ! j" by (auto simp: in_set_conv_nth)
    ultimately have "imported_row ids (v_id (fst y)) (vx_placements (vs ! i) ! j) r" by (simp add: list_all2_nthD2)
    then show ?thesis by (simp add: imported_row_def)
  qed
  have "v_board_id v \<noteq> b_id b" if "v \<in> set (versions db)" for v
  proof -
    have "v_board_id v \<in> b_id ` set (boards db)" using assms(2) that by (auto simp: db_inv_def refs_ok_def)
    with s(8) show ?thesis by metis
  qed
  then have bv: "board_versions (b_id b) db' = map fst out"
    using out_board by (auto simp: board_versions_def vsn i2(3) s(6) filter_empty_conv filter_id_conv)
  have "distinct (map v_id (versions db'))" using inv by (simp add: db_inv_def keys_ok_def)
  then have dist: "distinct (map (\<lambda>x. v_id (fst x)) out)" "\<forall>y \<in> set out. v_id (fst y) \<notin> v_id ` set (versions db)"
    by (auto simp: vsn i2(3) s(6) comp_def)
  have old: "p_version_id p \<in> v_id ` set (versions db)" if "p \<in> set (placements db)" for p
    using version_of_placement(1,2) [OF assms(2) that] by (metis imageI)
  have frows: "filter (\<lambda>p. p_version_id p = v_id (fst y)) (placements db') = snd y" if "y \<in> set out" for y
  proof -
    have "filter (\<lambda>p. p_version_id p = v_id (fst y)) (placements db) = []"
      using old bspec [OF dist(2) that] by (metis (mono_tags, lifting) filter_False)
    moreover have "filter (\<lambda>p. p_version_id p = v_id (fst y)) (concat (map snd out)) = snd y"
      using row_version by (intro filter_concat_version [OF dist(1) that]) blast
    ultimately show ?thesis by (simp add: pl i2(4) s(7))
  qed
  have "find (\<lambda>x. b_slug x = slug) (boards db') = Some b"
  proof (rule find_unique)
    show "b \<in> set (boards db')" "b_slug b = slug" using meta(2) by (simp_all add: bd i2(2) s(4))
    fix y assume "y \<in> set (boards db')" "b_slug y = slug"
    then show "y = b" using s(2) assms(6) by (auto simp: bd i2(2) s(4) image_iff)
  qed
  then have g: "boards_get_by_slug slug db' = Inr b" by (simp add: boards_get_by_slug_def)
  have "\<exists>e \<in> set (entries db'). map_of ids sl = Some (e_id e) \<and> e_slug e = sl \<and> e_name e = nm"
    if "map_of (entry_names (ex_versions ex)) sl = Some nm" for sl nm
  proof -
    have "map_of (map (\<lambda>e. (e_slug e, e_name e)) es) sl = Some nm" using that order(2) es(3) by simp
    then have "(sl, nm) \<in> set (map (\<lambda>e. (e_slug e, e_name e)) es)" by (rule map_of_SomeD)
    then obtain e where e: "e \<in> set es" "e_slug e = sl" "e_name e = nm" by auto
    have "map_of ids (e_slug e) = Some (e_id e)"
      unfolding es(2) by (rule map_of_is_SomeI) (use es(4) e(1) in \<open>auto simp: comp_def\<close>)
    with e es(1) en show ?thesis by (intro bexI [of _ e]) simp_all
  qed
  note names = this
  show thesis
  proof (rule that [OF g meta(1) bv len])
    fix i assume i: "i < length out"
    show "imported_version (b_id b) (vs ! i) (fst (out ! i))" using i by (rule nth(1))
    show "list_all2 (imported_row ids (v_id (fst (out ! i)))) (vx_placements (vs ! i)) (snd (out ! i))"
      using i by (rule nth(2))
    show "filter (\<lambda>p. p_version_id p = v_id (fst (out ! i))) (placements db') = snd (out ! i)"
      using nth_mem [OF i] by (rule frows)
  qed (rule names)
qed

lemma import_result_eq:
  assumes "svc_ok S" "db_inv S db" "import_board S sh ex db = Inr (res, db')"
  shows "res = \<lparr>ir_board_slug = bx_slug (ex_board ex), ir_version_numbers = map vx_number (sort_key vx_number (ex_versions ex))\<rparr>"
  by (rule import_board_steps [OF assms])

lemma imported_images:
  assumes "svc_ok S" "db_inv S db" "\<And>xs. mset (sh xs) = mset (xs :: (string \<times> string) list)"
    "import_board S sh ex db = Inr (res, db')" "bx_board_type (ex_board ex) \<noteq> ''scored''" "export_ok S slug ex"
  obtains b where "boards_get_by_slug slug db' = Inr b" "board_meta b = ex_board ex"
    "map (version_image S (b_tier_config b) db') (order_by Asc v_number (board_versions (b_id b) db')) = ex_versions ex"
proof -
  let ?vs = "ex_versions ex"
  have x: "bx_slug (ex_board ex) = slug" "sorted (map vx_number ?vs)"
    using assms(6) by (simp_all add: export_ok_def)
  note srt = sort_key_id_if_sorted [OF x(2)]
  obtain b ids out where o: "boards_get_by_slug slug db' = Inr b" "board_meta b = ex_board ex"
    "board_versions (b_id b) db' = map fst out" "length out = length ?vs"
    "\<And>i. i < length out \<Longrightarrow> imported_version (b_id b) (?vs ! i) (fst (out ! i))"
    "\<And>i. i < length out \<Longrightarrow> list_all2 (imported_row ids (v_id (fst (out ! i)))) (vx_placements (?vs ! i)) (snd (out ! i))"
    "\<And>i. i < length out \<Longrightarrow> filter (\<lambda>p. p_version_id p = v_id (fst (out ! i))) (placements db') = snd (out ! i)"
    and names: "\<And>sl nm. map_of (entry_names ?vs) sl = Some nm \<Longrightarrow>
       \<exists>e \<in> set (entries db'). map_of ids sl = Some (e_id e) \<and> e_slug e = sl \<and> e_name e = nm"
    by (rule import_shape [OF assms(1-5) x(1), unfolded srt]) (rule that; assumption)
  have tc: "b_tier_config b = bx_tier_config (ex_board ex)" unfolding o(2) [symmetric] by (simp add: board_meta_def)
  let ?all = "concat (map vx_placements ?vs)"
  have "\<forall>x \<in> set ?all. \<forall>y \<in> set ?all. x_entry_slug x = x_entry_slug y \<longrightarrow> x_entry_name x = x_entry_name y"
    using assms(6) unfolding export_ok_def by (elim conjE)
  note same = this [rule_format]
  have agree: "\<forall>x \<in> set ?all. map_of (entry_names ?vs) (x_entry_slug x) = Some (x_entry_name x)"
    unfolding entry_names_def by (rule entry_names_gen, rule same)
  have inv: "db_inv S db'" by (rule import_board_inv(1) [OF assms(1-4)])
  have img: "version_image S (b_tier_config b) db' (fst (out ! i)) = ?vs ! i" if i: "i < length out" for i
  proof (rule imported_version_image [OF inv o(7) [OF i] o(5) [OF i] o(6) [OF i]])
    have v: "?vs ! i \<in> set ?vs" using i o(4) by simp
    show "sort_key (export_key S (b_tier_config b)) (vx_placements (?vs ! i)) = vx_placements (?vs ! i)"
      using assms(6) v by (simp add: export_ok_def tc)
    show "\<forall>x \<in> set (vx_placements (?vs ! i)). \<exists>e \<in> set (entries db'). map_of ids (x_entry_slug x) = Some (e_id e) \<and>
        e_slug e = x_entry_slug x \<and> e_name e = x_entry_name x"
    proof
      fix x assume "x \<in> set (vx_placements (?vs ! i))"
      with v have "x \<in> set ?all" by auto
      with agree names show "\<exists>e \<in> set (entries db'). map_of ids (x_entry_slug x) = Some (e_id e) \<and>
        e_slug e = x_entry_slug x \<and> e_name e = x_entry_name x" by blast
    qed
  qed
  have m: "map (version_image S (b_tier_config b) db') (map fst out) = ?vs"
    by (rule nth_equalityI) (simp_all add: o(4) img)
  have "map vx_number (map (version_image S (b_tier_config b) db') (map fst out)) = map v_number (map fst out)"
    by (simp add: version_image_def)
  with x(2) have "sorted (map v_number (map fst out))" unfolding m by simp
  then have "order_by Asc v_number (board_versions (b_id b) db') = map fst out"
    unfolding o(3) by (simp add: sort_key_id_if_sorted)
  with o(1,2) m show thesis using that by metis
qed

text \<open>The tiers of an imported board can be read when those of its export can.\<close>

lemma images_readable:
  assumes "db_inv S db" "b \<in> set (boards db)"
    "map (version_image S (b_tier_config b) db) (order_by Asc v_number (board_versions (b_id b) db)) = vs"
    "\<forall>v \<in> set vs. \<forall>x \<in> set (vx_placements v). is_ok (tier_ord S (b_tier_config b) (x_tier x))"
    "p \<in> set (placements db)" "placement_board db p = b_id b"
  shows "is_ok (tier_ord S (b_tier_config b) (p_tier p))"
proof -
  let ?v = "version_of db (p_version_id p)"
  note v = version_of_placement [OF assms(1,5)]
  have "?v \<in> set (board_versions (b_id b) db)" using v(1) assms(6) by (simp add: board_versions_def placement_board_def)
  then have m: "version_image S (b_tier_config b) db ?v \<in> set vs"
    unfolding assms(3) [symmetric] set_map set_order_by by (rule imageI)
  let ?x = "exported (with_entry p (entry_of db (p_entry_id p)))"
  have "?x \<in> set (vx_placements (version_image S (b_tier_config b) db ?v))"
    using assms(5) v(2) by (simp add: version_image_def joined_placements_eq [OF assms(1)])
  with assms(4) m have "is_ok (tier_ord S (b_tier_config b) (x_tier ?x))" by blast
  then show ?thesis by simp
qed

lemma export_importable:
  assumes "db_inv S db" "export_board S slug db = Inr ex"
  shows "board_check (temp_board t (ex_board ex))" "distinct (map vx_number (ex_versions ex))"
    "\<forall>v \<in> set (ex_versions ex). 0 < vx_number v \<and> in_i32 (vx_number v)"
proof -
  have k: "keys_ok db" using assms(1) by (simp add: db_inv_def)
  obtain b where b: "b \<in> set (boards db)" "ex_board ex = board_meta b"
    and vs: "ex_versions ex = map (version_image S (b_tier_config b) db) (order_by Asc v_number (board_versions (b_id b) db))"
    by (rule export_board_Inr [OF assms]) blast
  have "board_check b" using assms(1) b(1) by (simp add: db_inv_def checks_ok_def)
  then show "board_check (temp_board t (ex_board ex))" by (simp add: b(2) board_check_def temp_board_def board_meta_def)
  have n: "map vx_number (ex_versions ex) = map v_number (order_by Asc v_number (board_versions (b_id b) db))"
    by (simp add: vs version_image_def)
  have "mset (map v_number (order_by Asc v_number (board_versions (b_id b) db))) = mset (map v_number (board_versions (b_id b) db))"
    by (simp only: mset_map mset_order_by)
  with board_numbers_distinct [OF k, of "b_id b"] show "distinct (map vx_number (ex_versions ex))"
    unfolding n by (metis mset_eq_imp_distinct_iff)
  have "vx_number ` set (ex_versions ex) = v_number ` set (board_versions (b_id b) db)"
    using arg_cong [OF n, of set] by (simp only: set_map set_order_by)
  moreover have "0 < v_number v \<and> in_i32 (v_number v)" if "v \<in> set (board_versions (b_id b) db)" for v
    using assms(1) that by (auto simp: board_versions_def db_inv_def checks_ok_def version_check_def)
  ultimately have "0 < n \<and> in_i32 n" if "n \<in> vx_number ` set (ex_versions ex)" for n
    using that by auto
  then show "\<forall>v \<in> set (ex_versions ex). 0 < vx_number v \<and> in_i32 (vx_number v)" by simp
qed

text \<open>
  C18: a board that is not scored survives export and import. Importing the export of one database
  into another, whatever order the entries are created in, succeeds exactly when the export is
  importable: its slug is free and valid, its name is valid, and so are the placements of its
  versions and the slugs and names of its entries. It then gives a board whose export is the same
  value and reports the version numbers, and the import touches nothing that was there: it adds
  one board, entries and versions of that board and placements of those versions after the rows of
  the four tables, and leaves every other table as it was.
\<close>

theorem export_import_roundtrip:
  assumes "svc_ok S" "db_inv S src" "export_board S slug src = Inr ex" "bx_board_type (ex_board ex) \<noteq> ''scored''"
    "db_inv S db" "\<And>xs. mset (sh xs) = mset (xs :: (string \<times> string) list)"
  shows "case import_board S sh ex db of
      Inl e \<Rightarrow> \<not> importable S ex db
    | Inr (res, db') \<Rightarrow>
        importable S ex db \<and> export_board S slug db' = Inr ex \<and> db_inv S db' \<and>
        ir_board_slug res = slug \<and> ir_version_numbers res = map vx_number (ex_versions ex) \<and>
        (\<exists>b es vs ps. rows_added db [b] es vs ps db' \<and> (\<forall>e \<in> set es. e_board_id e = b_id b) \<and>
           (\<forall>v \<in> set vs. v_board_id v = b_id b) \<and> (\<forall>p \<in> set ps. p_version_id p \<in> v_id ` set vs))"
proof (cases "import_board S sh ex db")
  case (Inl e)
  with import_board_ok [OF assms(1,5,6,4) export_importable [OF assms(2,3)]] show ?thesis by auto
next
  case (Inr r)
  obtain res db' where r: "r = (res, db')" by (cases r)
  note i = Inr [unfolded r]
  have x: "export_ok S slug ex" by (rule export_is_ok [OF assms(2,3)])
  note inv = import_board_inv [OF assms(1,5,6) i]
  obtain b where b: "boards_get_by_slug slug db' = Inr b" "board_meta b = ex_board ex"
    "map (version_image S (b_tier_config b) db') (order_by Asc v_number (board_versions (b_id b) db')) = ex_versions ex"
    by (rule imported_images [OF assms(1,5,6) i assms(4) x])
  have m: "b \<in> set (boards db')" using b(1) by (auto simp: boards_get_by_slug_def dest: find_Some_in)
  have "b_tier_config b = bx_tier_config (ex_board ex)" unfolding b(2) [symmetric] by (simp add: board_meta_def)
  then have t: "\<forall>v \<in> set (ex_versions ex). \<forall>x \<in> set (vx_placements v). is_ok (tier_ord S (b_tier_config b) (x_tier x))"
    using x by (simp add: export_ok_def)
  have "export_board S slug db' = Inr ex"
    using export_board_ok [OF inv(1) b(1) images_readable [OF inv(1) m b(3) t]] b(2,3) by simp
  moreover have "ir_board_slug res = slug" "ir_version_numbers res = map vx_number (ex_versions ex)"
    using import_result_eq [OF assms(1,5) i] x by (simp_all add: export_ok_def sort_key_id_if_sorted)
  moreover have "importable S ex db"
    by (rule import_board_importable [OF assms(1,5,6) i]) (use x in \<open>unfold export_ok_def, blast\<close>)
  ultimately show ?thesis using i inv(1) import_board_rows [OF i assms(4)] by simp
qed

text \<open>An ordered board with one version, exported and imported into an empty database.\<close>

definition sample_export :: "board_export result" where
  "sample_export =
     rbind (versions_create sample_svc ordered_board sample_version_input None ordered_db) (\<lambda>(vp, db).
     export_board sample_svc ''speed'' db)"

lemma sample_trip: "is_ok (rbind sample_export (\<lambda>ex.
    if bx_board_type (ex_board ex) = ''scored'' then Inl (NotFound [])
    else import_board sample_svc (\<lambda>xs. xs) ex empty_db))"
  by code_simp

theorem export_import_roundtrip_witness:
  "\<exists>ex res db'. sample_export = Inr ex \<and> importable sample_svc ex empty_db \<and>
     import_board sample_svc (\<lambda>xs. xs) ex empty_db = Inr (res, db') \<and> export_board sample_svc ''speed'' db' = Inr ex"
proof -
  obtain ex res db' where e: "sample_export = Inr ex" "bx_board_type (ex_board ex) \<noteq> ''scored''"
      and i: "import_board sample_svc (\<lambda>xs. xs) ex empty_db = Inr (res, db')"
    using sample_trip by (auto simp: is_ok_iff split: if_splits)
  from e(1) obtain vp db where c: "versions_create sample_svc ordered_board sample_version_input None ordered_db = Inr (vp, db)"
      and x: "export_board sample_svc ''speed'' db = Inr ex"
    by (auto simp: sample_export_def)
  have inv: "db_inv sample_svc db"
    using versions_create_contract [OF sample_svc_ok ordered_db_inv c] by simp
  from export_import_roundtrip [OF sample_svc_ok inv x e(2) db_inv_empty, of "\<lambda>xs. xs"] i
  have "importable sample_svc ex empty_db \<and> export_board sample_svc ''speed'' db' = Inr ex" by simp
  with e(1) i show ?thesis by blast
qed

end
