(* ===== verification/Parse.thy ===== *)
theory Parse
  imports Versions
begin

text \<open>
  \<open>sync/parse.rs\<close>: board directories. A directory is what the file system shows of it, and the
  TOML parser is a parameter that turns a text into a table or an error; the structs are read
  from the table as their \<open>Deserialize\<close> attributes say.
\<close>

section \<open>TOML values\<close>

text \<open>A date is the text it prints as; the keys of a table differ.\<close>

datatype toml =
    TString string
  | TInteger int
  | TFloat f64
  | TBoolean bool
  | TDatetime string
  | TArray "toml list"
  | TTable "(string \<times> toml) list"

text \<open>\<open>json!(f)\<close> has no number for a value that is not finite.\<close>

definition json_float :: "f64 \<Rightarrow> json" where
  "json_float f = (if f64_is_finite f then JFloat f else JNull)"

definition json_object :: "(string \<times> json) list \<Rightarrow> json" where
  "json_object kvs = JObject (fold (\<lambda>kv. obj_insert (fst kv) (snd kv)) kvs [])"

fun toml_to_json :: "toml \<Rightarrow> json" where
  "toml_to_json (TString s) = JString s"
| "toml_to_json (TInteger i) = JInt i"
| "toml_to_json (TFloat f) = json_float f"
| "toml_to_json (TBoolean b) = JBool b"
| "toml_to_json (TDatetime dt) = JString dt"
| "toml_to_json (TArray arr) = JArray (map toml_to_json arr)"
| "toml_to_json (TTable table) = json_object (map (\<lambda>(k, v). (k, toml_to_json v)) table)"

section \<open>The files\<close>

record tier_toml =
  tt_key :: string
  tt_label :: "string option"

record board_toml =
  bt_name :: string
  bt_board_type :: string
  bt_sort_direction :: string
  bt_accumulative :: bool
  bt_tiers :: "tier_toml list"
  bt_metadata :: "toml option"

record entry_toml =
  et_slug :: string
  et_name :: string
  et_position :: "i32 option"
  et_score :: "f64 option"
  et_tier :: "string option"
  et_metadata :: "toml option"

record rankings_toml =
  rt_entries :: "entry_toml list"
  rt_version_metadata :: "toml option"

record parsed_board =
  pb_slug :: string
  pb_board :: board_toml
  pb_entries :: "entry_toml list"
  pb_version_metadata :: "json option"

section \<open>Reading a table into a struct\<close>

text \<open>
  What the parser is relied on for: a text gives a table or an error text; \<open>toml_expected\<close> is
  the text of the error for a table of the wrong shape, and \<open>float_of_int\<close> the cast \<open>i64 as f64\<close>.
\<close>

record toml_lib =
  toml_parse :: "string \<Rightarrow> string + (string \<times> toml) list"
  toml_expected :: "(string \<times> toml) list \<Rightarrow> string"
  float_of_int :: "int \<Rightarrow> f64"

definition toml_default_sort_direction :: string where
  "toml_default_sort_direction = ''desc''"

fun toml_string :: "toml \<Rightarrow> string option" where
  "toml_string (TString s) = Some s"
| "toml_string _ = None"

fun toml_bool :: "toml \<Rightarrow> bool option" where
  "toml_bool (TBoolean b) = Some b"
| "toml_bool _ = None"

fun toml_i32 :: "toml \<Rightarrow> i32 option" where
  "toml_i32 (TInteger i) = (if in_i32 i then Some i else None)"
| "toml_i32 _ = None"

fun toml_f64 :: "toml_lib \<Rightarrow> toml \<Rightarrow> f64 option" where
  "toml_f64 L (TFloat f) = Some f"
| "toml_f64 L (TInteger i) = Some (float_of_int L i)"
| "toml_f64 L _ = None"

fun toml_list :: "((string \<times> toml) list \<Rightarrow> 'a option) \<Rightarrow> toml \<Rightarrow> 'a list option" where
  "toml_list f (TArray vs) =
     those (map (\<lambda>v. case v of TTable t \<Rightarrow> f t | _ \<Rightarrow> None) vs)"
| "toml_list f _ = None"

text \<open>A required field, a field with a default, and an optional one.\<close>

definition req :: "(toml \<Rightarrow> 'a option) \<Rightarrow> string \<Rightarrow> (string \<times> toml) list \<Rightarrow> 'a option" where
  "req f k t = Option.bind (map_of t k) f"

definition or_default :: "'a \<Rightarrow> (toml \<Rightarrow> 'a option) \<Rightarrow> string \<Rightarrow> (string \<times> toml) list \<Rightarrow> 'a option" where
  "or_default d f k t = (case map_of t k of None \<Rightarrow> Some d | Some v \<Rightarrow> f v)"

definition opt :: "(toml \<Rightarrow> 'a option) \<Rightarrow> string \<Rightarrow> (string \<times> toml) list \<Rightarrow> 'a option option" where
  "opt f k t = (case map_of t k of None \<Rightarrow> Some None | Some v \<Rightarrow> map_option Some (f v))"

definition tier_toml_of :: "(string \<times> toml) list \<Rightarrow> tier_toml option" where
  "tier_toml_of t =
     Option.bind (req toml_string ''key'' t) (\<lambda>k.
     Option.bind (opt toml_string ''label'' t) (\<lambda>l.
     Some \<lparr>tt_key = k, tt_label = l\<rparr>))"

definition board_toml_of :: "(string \<times> toml) list \<Rightarrow> board_toml option" where
  "board_toml_of t =
     Option.bind (req toml_string ''name'' t) (\<lambda>n.
     Option.bind (req toml_string ''board_type'' t) (\<lambda>bt.
     Option.bind (or_default toml_default_sort_direction toml_string ''sort_direction'' t) (\<lambda>sd.
     Option.bind (or_default False toml_bool ''accumulative'' t) (\<lambda>a.
     Option.bind (or_default [] (toml_list tier_toml_of) ''tiers'' t) (\<lambda>ts.
     Option.bind (opt Some ''metadata'' t) (\<lambda>m.
     Some \<lparr>bt_name = n, bt_board_type = bt, bt_sort_direction = sd, bt_accumulative = a, bt_tiers = ts,
           bt_metadata = m\<rparr>))))))"

definition entry_toml_of :: "toml_lib \<Rightarrow> (string \<times> toml) list \<Rightarrow> entry_toml option" where
  "entry_toml_of L t =
     Option.bind (req toml_string ''slug'' t) (\<lambda>s.
     Option.bind (req toml_string ''name'' t) (\<lambda>n.
     Option.bind (opt toml_i32 ''position'' t) (\<lambda>p.
     Option.bind (opt (toml_f64 L) ''score'' t) (\<lambda>sc.
     Option.bind (opt toml_string ''tier'' t) (\<lambda>ti.
     Option.bind (opt Some ''metadata'' t) (\<lambda>m.
     Some \<lparr>et_slug = s, et_name = n, et_position = p, et_score = sc, et_tier = ti, et_metadata = m\<rparr>))))))"

definition rankings_toml_of :: "toml_lib \<Rightarrow> (string \<times> toml) list \<Rightarrow> rankings_toml option" where
  "rankings_toml_of L t =
     Option.bind (or_default [] (toml_list (entry_toml_of L)) ''entries'' t) (\<lambda>es.
     Option.bind (opt Some ''version_metadata'' t) (\<lambda>m.
     Some \<lparr>rt_entries = es, rt_version_metadata = m\<rparr>))"

text \<open>\<open>toml::from_str\<close> at a struct.\<close>

definition from_str :: "toml_lib \<Rightarrow> ((string \<times> toml) list \<Rightarrow> 'a option) \<Rightarrow> string \<Rightarrow> string + 'a" where
  "from_str L f s =
     (case toml_parse L s of
        Inl e \<Rightarrow> Inl e
      | Inr t \<Rightarrow> (case f t of None \<Rightarrow> Inl (toml_expected L t) | Some x \<Rightarrow> Inr x))"

section \<open>Directories\<close>

text \<open>
  An entry of a directory: its name (its bytes, and whether they are UTF-8), whether it is a
  directory, and its two files: whether each exists and what reading it gives.
\<close>

record dir_entry =
  de_name :: string
  de_utf8 :: bool
  de_is_dir :: bool
  de_has_board :: bool
  de_board :: "string + string"
  de_has_rankings :: bool
  de_rankings :: "string + string"

record directory =
  dir_path :: string
  dir_is_dir :: bool
  dir_read :: "string + (string + dir_entry) list"

definition file_path :: "string \<Rightarrow> dir_entry \<Rightarrow> string \<Rightarrow> string" where
  "file_path path d file = path @ ''/'' @ de_name d @ ''/'' @ file"

definition map_err :: "('e \<Rightarrow> 'f) \<Rightarrow> 'e + 'a \<Rightarrow> 'f + 'a" where
  "map_err f m = (case m of Inl e \<Rightarrow> Inl (f e) | Inr x \<Rightarrow> Inr x)"

text \<open>Reading and parsing one file.\<close>

definition load_file ::
  "toml_lib \<Rightarrow> ((string \<times> toml) list \<Rightarrow> 'a option) \<Rightarrow> string \<Rightarrow> string + string \<Rightarrow> 'a result" where
  "load_file L f path content =
     rbind (map_err (\<lambda>e. Validation [Lit ''failed to read '', Str path, Lit '': '', Str e]) content) (\<lambda>s.
     map_err (\<lambda>e. Validation [Lit ''failed to parse '', Str path, Lit '': '', Str e]) (from_str L f s))"

definition parse_board_dir :: "toml_lib \<Rightarrow> string \<Rightarrow> dir_entry \<Rightarrow> parsed_board result" where
  "parse_board_dir L path d =
     rbind (if de_utf8 d then Inr (de_name d)
            else Inl (Validation [Lit ''invalid board directory: '', Str (path @ ''/'' @ de_name d)])) (\<lambda>slug.
     rbind (validate_slug slug) (\<lambda>_.
     rbind (load_file L board_toml_of (file_path path d ''board.toml'') (de_board d)) (\<lambda>board.
     rbind (if de_has_rankings d
            then rbind (load_file L (rankings_toml_of L) (file_path path d ''rankings.toml'') (de_rankings d)) (\<lambda>r.
                 Inr (rt_entries r, map_option toml_to_json (rt_version_metadata r)))
            else Inr ([], None)) (\<lambda>(es, vm).
     Inr \<lparr>pb_slug = slug, pb_board = board, pb_entries = es, pb_version_metadata = vm\<rparr>))))"

definition readable :: "('e + 'a) list \<Rightarrow> 'a list" where
  "readable xs = List.map_filter (\<lambda>x. case x of Inl _ \<Rightarrow> None | Inr y \<Rightarrow> Some y) xs"

definition parse_boards_dir :: "toml_lib \<Rightarrow> directory \<Rightarrow> parsed_board list result" where
  "parse_boards_dir L dir =
     rbind (reject_if (\<not> dir_is_dir dir) (Validation [Str (dir_path dir), Lit '' is not a directory''])) (\<lambda>_.
     rbind (map_err (\<lambda>e. Validation [Lit ''failed to read directory '', Str (dir_path dir), Lit '': '', Str e])
              (dir_read dir)) (\<lambda>es.
     Inr (readable (map (parse_board_dir L (dir_path dir))
            (filter (\<lambda>d. de_is_dir d \<and> de_has_board d) (sort_key de_name (readable es)))))))"

end
