(* ===== verification/Sync.thy ===== *)
theory Sync
  imports Parse
begin

text \<open>
  \<open>sync/execute.rs\<close>: bringing the boards of a directory into the database. Each repository call
  is a transaction of its own, so what was done before a failure stays. Log messages are left out,
  and a failure is reported by the error itself, which the code prints.
\<close>

section \<open>One board\<close>

datatype sync_action =
    Created i32
  | Updated i32
  | NoChange
  | Skipped message
  | Failed error

record board_sync_result =
  sr_slug :: string
  sr_name :: string
  sr_action :: sync_action

definition tier_json :: "nat \<Rightarrow> tier_toml \<Rightarrow> json" where
  "tier_json i t =
     json_object
       ([(''key'', JString (tt_key t)), (''position'', JInt (wrap_i32 (int i + 1)))] @
        (case tt_label t of None \<Rightarrow> [] | Some label \<Rightarrow> [(''label'', JString label)]))"

definition sync_tier_config :: "board_toml \<Rightarrow> json option" where
  "sync_tier_config bt =
     (if bt_tiers bt \<noteq> []
      then Some (json_object [(''tiers'', JArray (map (\<lambda>(i, t). tier_json i t) (enumerate 0 (bt_tiers bt))))])
      else None)"

definition sync_metadata :: "board_toml \<Rightarrow> json option" where
  "sync_metadata bt = map_option toml_to_json (bt_metadata bt)"

definition nullable_of :: "'a option \<Rightarrow> 'a nullable" where
  "nullable_of x = (case x of Some v \<Rightarrow> Value v | None \<Rightarrow> Null)"

definition ranking_changed :: "board \<Rightarrow> board_toml \<Rightarrow> bool" where
  "ranking_changed existing bt \<longleftrightarrow>
     b_sort_direction existing \<noteq> bt_sort_direction bt \<or> b_tier_config existing \<noteq> sync_tier_config bt"

definition sync_update :: "board \<Rightarrow> board_toml \<Rightarrow> update_board" where
  "sync_update existing bt =
     \<lparr>ub_name = (if b_name existing \<noteq> bt_name bt then Some (bt_name bt) else None),
      ub_sort_direction =
        (if b_sort_direction existing \<noteq> bt_sort_direction bt then Some (bt_sort_direction bt) else None),
      ub_tier_config =
        (if b_tier_config existing \<noteq> sync_tier_config bt then nullable_of (sync_tier_config bt) else Absent),
      ub_metadata =
        (if b_metadata existing \<noteq> sync_metadata bt then nullable_of (sync_metadata bt) else Absent),
      ub_realtime = None, ub_clear_on_snapshot = None\<rparr>"

definition sync_create :: "parsed_board \<Rightarrow> create_board" where
  "sync_create parsed =
     \<lparr>cb_slug = pb_slug parsed, cb_name = bt_name (pb_board parsed),
      cb_board_type = bt_board_type (pb_board parsed), cb_sort_direction = bt_sort_direction (pb_board parsed),
      cb_tier_config = sync_tier_config (pb_board parsed), cb_metadata = sync_metadata (pb_board parsed),
      cb_accumulative = False, cb_realtime = False, cb_clear_on_snapshot = False\<rparr>"

text \<open>The row of the board, and whether what its versions are ranked by has changed.\<close>

definition sync_board_row :: "svc \<Rightarrow> parsed_board \<Rightarrow> db \<Rightarrow> (bool \<times> board) result \<times> db" where
  "sync_board_row S parsed db =
     (case boards_get_by_slug (pb_slug parsed) db of
        Inr existing \<Rightarrow>
          let bt = pb_board parsed in
          if b_name existing \<noteq> bt_name bt \<or> ranking_changed existing bt \<or> b_metadata existing \<noteq> sync_metadata bt
          then and_then (transaction (boards_patch S (pb_slug parsed) (sync_update existing bt)) db) (\<lambda>b db.
               (Inr (ranking_changed existing bt, b), db))
          else (Inr (ranking_changed existing bt, existing), db)
      | Inl (NotFound _) \<Rightarrow>
          and_then (transaction (boards_create S (sync_create parsed)) db) (\<lambda>b db. (Inr (False, b), db))
      | Inl e \<Rightarrow> (Inl e, db))"

definition entry_metadata :: "entry_toml \<Rightarrow> json option" where
  "entry_metadata e = map_option toml_to_json (et_metadata e)"

definition entry_update :: "entry \<Rightarrow> entry_toml \<Rightarrow> update_entry" where
  "entry_update existing e =
     \<lparr>ue_name = (if e_name existing \<noteq> et_name e then Some (et_name e) else None),
      ue_metadata = (if e_metadata existing \<noteq> entry_metadata e then nullable_of (entry_metadata e) else Absent)\<rparr>"

text \<open>\<open>existing_entry_map.get(slug)\<close>: the map is collected from the list, later rows winning.\<close>

definition existing_entry :: "entry list \<Rightarrow> string \<Rightarrow> entry option" where
  "existing_entry es slug = find (\<lambda>e. e_slug e = slug) (rev es)"

definition sync_entry :: "svc \<Rightarrow> uuid \<Rightarrow> entry list \<Rightarrow> entry_toml \<Rightarrow> db \<Rightarrow> unit result \<times> db" where
  "sync_entry S bid existing_entries e db =
     (case existing_entry existing_entries (et_slug e) of
        None \<Rightarrow>
          and_then (transaction (entries_create S bid
              \<lparr>ce_slug = et_slug e, ce_name = et_name e, ce_metadata = entry_metadata e\<rparr>) db) (\<lambda>_ db. (Inr (), db))
      | Some existing \<Rightarrow>
          if e_name existing \<noteq> et_name e \<or> e_metadata existing \<noteq> entry_metadata e
          then and_then (transaction (entries_patch S bid (et_slug e) (entry_update existing e)) db)
                 (\<lambda>_ db. (Inr (), db))
          else (Inr (), db))"

fun sync_entries :: "svc \<Rightarrow> uuid \<Rightarrow> entry list \<Rightarrow> entry_toml list \<Rightarrow> db \<Rightarrow> unit result \<times> db" where
  "sync_entries S bid existing_entries [] db = (Inr (), db)"
| "sync_entries S bid existing_entries (e # es) db =
     and_then (sync_entry S bid existing_entries e db) (\<lambda>_ db. sync_entries S bid existing_entries es db)"

definition sync_placement :: "entry_toml \<Rightarrow> create_placement" where
  "sync_placement e =
     \<lparr>cp_entry_slug = et_slug e, cp_position = et_position e, cp_score = et_score e, cp_tier = et_tier e,
      cp_metadata = entry_metadata e\<rparr>"

text \<open>One turn of the loop of \<open>placements_changed\<close>: does the proposed placement differ?\<close>

definition placement_differs ::
  "string \<Rightarrow> placement_with_entry list \<Rightarrow> nat \<Rightarrow> create_placement \<Rightarrow> bool" where
  "placement_differs board_type current i p =
     (case lookup_slug (cp_entry_slug p) current of
        None \<Rightarrow> True
      | Some c \<Rightarrow>
          (if cp_position p \<noteq> None then p_position c \<noteq> cp_position p
           else board_type = ''ordered'' \<and> p_position c \<noteq> Some (wrap_i32 (int i + 1))) \<or>
          \<not> scores_equal (p_score c) (cp_score p) \<or>
          p_tier c \<noteq> cp_tier p \<or>
          p_metadata c \<noteq> cp_metadata p)"

definition placements_changed :: "string \<Rightarrow> placement_with_entry list \<Rightarrow> create_placement list \<Rightarrow> bool" where
  "placements_changed board_type current proposed \<longleftrightarrow>
     length current \<noteq> length proposed \<or>
     list_ex (\<lambda>(i, p). placement_differs board_type current i p) (enumerate 0 proposed)"

definition needs_version :: "svc \<Rightarrow> bool \<Rightarrow> board \<Rightarrow> create_placement list \<Rightarrow> db \<Rightarrow> bool result" where
  "needs_version S ranking_config_changed board ps db =
     (if ranking_config_changed then Inr True
      else case versions_get_latest S (b_id board) db of
             Inr latest \<Rightarrow> Inr (placements_changed (b_board_type board) (vp_placements latest) ps)
           | Inl (NotFound _) \<Rightarrow> Inr True
           | Inl e \<Rightarrow> Inl e)"

definition sync_version_input :: "parsed_board \<Rightarrow> string option \<Rightarrow> create_version" where
  "sync_version_input parsed nt =
     \<lparr>cv_note = Some (unwrap_or nt ''Synced from file''), cv_metadata = pb_version_metadata parsed,
      cv_placements = map sync_placement (pb_entries parsed)\<rparr>"

definition sync_board :: "svc \<Rightarrow> parsed_board \<Rightarrow> string option \<Rightarrow> db \<Rightarrow> board_sync_result result \<times> db" where
  "sync_board S parsed nt db =
     (if bt_accumulative (pb_board parsed)
      then (Inr \<lparr>sr_slug = pb_slug parsed, sr_name = bt_name (pb_board parsed),
                 sr_action = Skipped [Lit ''accumulative boards are managed via score submission, not file sync'']\<rparr>, db)
      else
        and_then (sync_board_row S parsed db) (\<lambda>(ranking_config_changed, board) db.
        let result = (\<lambda>a. \<lparr>sr_slug = pb_slug parsed, sr_name = b_name board, sr_action = a\<rparr>) in
        if pb_entries parsed = [] then (Inr (result NoChange), db)
        else
          and_then (sync_entries S (b_id board) (entries_list (b_id board) db) (pb_entries parsed) db) (\<lambda>_ db.
          and_then (needs_version S ranking_config_changed board (map sync_placement (pb_entries parsed)) db, db) (\<lambda>needed db.
          if \<not> needed then (Inr (result NoChange), db)
          else
            and_then (transaction (versions_create S board (sync_version_input parsed nt) None) db) (\<lambda>vp db.
            let vnum = v_number (vp_version vp) in
            (Inr (result (if vnum = 1 then Created vnum else Updated vnum)), db))))))"

section \<open>All boards of a directory\<close>

fun sync_boards :: "svc \<Rightarrow> parsed_board list \<Rightarrow> string option \<Rightarrow> db \<Rightarrow> board_sync_result list \<times> db" where
  "sync_boards S [] nt db = ([], db)"
| "sync_boards S (b # bs) nt db =
     (let (r, db') = sync_board S b nt db;
          result = (case r of
            Inr x \<Rightarrow> x
          | Inl e \<Rightarrow> \<lparr>sr_slug = pb_slug b, sr_name = pb_slug b, sr_action = Failed e\<rparr>);
          (rest, db'') = sync_boards S bs nt db'
      in (result # rest, db''))"

definition sync_dir ::
  "svc \<Rightarrow> toml_lib \<Rightarrow> directory \<Rightarrow> string option \<Rightarrow> db \<Rightarrow> board_sync_result list result \<times> db" where
  "sync_dir S L dir nt db =
     and_then (parse_boards_dir L dir, db) (\<lambda>parsed db.
     let (results, db') = sync_boards S parsed nt db in (Inr results, db'))"

end
