(* ===== verification/History.thy ===== *)
theory History
  imports Versions
begin

text \<open>
  What every operation owes to the versions already published: they and their placements stay as
  they are; new versions only come after them.
\<close>

definition history_extends :: "db \<Rightarrow> db \<Rightarrow> bool" where
  "history_extends db db' \<longleftrightarrow>
     (\<exists>vs. versions db' = versions db @ vs) \<and>
     filter (\<lambda>p. p_version_id p \<in> v_id ` set (versions db)) (placements db') = placements db"

lemma placements_of_versions:
  assumes "db_inv S db"
  shows "filter (\<lambda>p. p_version_id p \<in> v_id ` set (versions db)) (placements db) = placements db"
proof -
  have "p_version_id p \<in> v_id ` set (versions db)" if "p \<in> set (placements db)" for p
    using version_of_placement(1,2) [OF assms that] by (metis imageI)
  then show ?thesis by (simp add: filter_id_conv)
qed

lemma history_same:
  "db_inv S db \<Longrightarrow> versions db' = versions db \<Longrightarrow> placements db' = placements db \<Longrightarrow> history_extends db db'"
  using placements_of_versions by (simp add: history_extends_def)

lemma history_refl: "db_inv S db \<Longrightarrow> history_extends db db"
  by (rule history_same) simp_all

lemma history_trans:
  assumes "history_extends a b" "history_extends b c"
  shows "history_extends a c"
proof -
  obtain vs where vs: "versions b = versions a @ vs" using assms(1) by (auto simp: history_extends_def)
  have "filter (\<lambda>p. p_version_id p \<in> v_id ` set (versions a)) (placements c) =
      filter (\<lambda>p. p_version_id p \<in> v_id ` set (versions a))
        (filter (\<lambda>p. p_version_id p \<in> v_id ` set (versions b)) (placements c))"
    by (auto simp: vs intro!: filter_cong)
  also have "\<dots> = placements a" using assms by (simp add: history_extends_def)
  finally show ?thesis using assms by (auto simp: history_extends_def)
qed

lemma history_published: "published db bid v db' \<Longrightarrow> history_extends db db'"
  by (simp add: published_def history_extends_def)

lemma transaction_keeps:
  assumes "transaction f db = (r, db')" "P db" "\<And>x d. f db = Inr (x, d) \<Longrightarrow> P d"
  shows "P db'"
  using assms by (auto simp: transaction_def split: sum.splits)

definition keeps_history :: "svc \<Rightarrow> db \<Rightarrow> db \<Rightarrow> bool" where
  "keeps_history S db db' \<longleftrightarrow> db_inv S db' \<and> history_extends db db'"

lemma keeps_history_refl: "db_inv S db \<Longrightarrow> keeps_history S db db"
  by (simp add: keeps_history_def history_refl)

lemma keeps_history_trans: "keeps_history S a b \<Longrightarrow> keeps_history S b c \<Longrightarrow> keeps_history S a c"
  by (auto simp: keeps_history_def intro: history_trans)

end
