(* ===== verification/Syncing.thy ===== *)
theory Syncing
  imports Sync History
begin

text \<open>
  What a sync does: the board, its entries and its latest version become what the files say, a
  second sync of the same files changes nothing, and no published version is touched.
\<close>

section \<open>JSON built by the sync\<close>

lemma map_of_json_fold:
  "map_of (fold (\<lambda>kv. obj_insert (fst kv) (snd kv)) kvs acc) = map_of acc ++ map_of (rev kvs)"
  by (induction kvs arbitrary: acc) (auto simp: map_add_def fun_eq_iff split: option.split)

lemma json_get_object [simp]: "json_get k (json_object kvs) = map_of (rev kvs) k"
  by (simp add: json_object_def map_of_json_fold)



section \<open>The row of the board\<close>

text \<open>The board says what \<open>board.toml\<close> says, except for its type, which never changes.\<close>

definition synced :: "board_toml \<Rightarrow> board \<Rightarrow> bool" where
  "synced bt b \<longleftrightarrow>
     b_name b = bt_name bt \<and> b_sort_direction b = bt_sort_direction bt \<and>
     b_tier_config b = sync_tier_config bt \<and> b_metadata b = sync_metadata bt"

lemma synced_patch: "synced bt (patched_board t (sync_update b bt) b)"
  by (auto simp: synced_def patched_board_def sync_update_def nullable_of_def unwrap_or_def split: option.split)

lemma synced_new: "synced (pb_board p) (new_board S (sync_create p) db)"
  by (simp add: synced_def new_board_def sync_create_def)

text \<open>A step that leaves the published versions as they are.\<close>

definition history_kept :: "db \<Rightarrow> db \<Rightarrow> bool" where
  "history_kept db db' \<longleftrightarrow> versions db' = versions db \<and> placements db' = placements db"


lemma sync_board_row_spec:
  assumes "svc_ok S" "db_inv S db" "sync_board_row S parsed db = (r, db')"
  shows "db_inv S db' \<and> history_kept db db' \<and> entries db' = entries db \<and>
    (\<forall>rc b. r = Inr (rc, b) \<longrightarrow> find (\<lambda>x. b_slug x = pb_slug parsed) (boards db') = Some b \<and> synced (pb_board parsed) b \<and>
      b_board_type b = (case find (\<lambda>x. b_slug x = pb_slug parsed) (boards db) of
        None \<Rightarrow> bt_board_type (pb_board parsed) | Some old \<Rightarrow> b_board_type old)) \<and>
    (\<forall>e. r = Inl e \<longrightarrow> db' = db)"
proof (cases "find (\<lambda>x. b_slug x = pb_slug parsed) (boards db)")
  case None
  then have g: "boards_get_by_slug (pb_slug parsed) db = Inl (board_not_found (pb_slug parsed))"
    by (simp add: boards_get_by_slug_def)
  show ?thesis
  proof (cases "boards_create S (sync_create parsed) db")
    case (Inl e)
    then have "transaction (boards_create S (sync_create parsed)) db = (Inl e, db)" by (simp add: transaction_Inl)
    with assms(2,3) g show ?thesis by (auto simp: sync_board_row_def board_not_found_def history_kept_def)
  next
    case (Inr x)
    obtain b db1 where x: "x = (b, db1)" by (cases x)
    note c = Inr [unfolded x]
    then have t: "transaction (boards_create S (sync_create parsed)) db = (Inr b, db1)" by simp
    have r: "r = Inr (False, b)" "db' = db1"
      using assms(3) g t by (auto simp: sync_board_row_def board_not_found_def)
    have inv: "db_inv S db1" by (rule boards_create_inv [OF assms(2) c])
    from c have ok: "create_board_ok (sync_create parsed)" and ins: "insert_new_board S (sync_create parsed) db = Inr (b, db1)"
      by (simp_all add: boards_create_Inr)
    from ins have b: "b = new_board S (sync_create parsed) db" "boards db1 = boards db @ [b]"
        "history_kept db db1" "entries db1 = entries db"
      by (auto simp: insert_new_board_eq [OF assms(1,2) ok] history_kept_def split: if_splits)
    have "b_slug b = pb_slug parsed" by (simp add: b(1) new_board_def sync_create_def)
    with None b(2) have "find (\<lambda>x. b_slug x = pb_slug parsed) (boards db1) = Some b" by (simp add: find_append)
    moreover have "b_board_type b = bt_board_type (pb_board parsed)" by (simp add: b(1) new_board_def sync_create_def)
    ultimately show ?thesis using inv b r None synced_new by simp
  qed
next
  case (Some b0)
  let ?bt = "pb_board parsed"
  have g: "boards_get_by_slug (pb_slug parsed) db = Inr b0" by (simp add: boards_get_by_slug_def Some)
  show ?thesis
  proof (cases "b_name b0 \<noteq> bt_name ?bt \<or> ranking_changed b0 ?bt \<or> b_metadata b0 \<noteq> sync_metadata ?bt")
    case False
    then have "synced ?bt b0" by (auto simp: synced_def ranking_changed_def)
    with False assms(2,3) g Some show ?thesis by (auto simp: sync_board_row_def Let_def history_kept_def)
  next
    case True
    show ?thesis
    proof (cases "boards_patch S (pb_slug parsed) (sync_update b0 ?bt) db")
      case (Inl e)
      then have "transaction (boards_patch S (pb_slug parsed) (sync_update b0 ?bt)) db = (Inl e, db)"
        by (simp add: transaction_Inl)
      with True assms(2,3) g show ?thesis by (auto simp: sync_board_row_def Let_def history_kept_def)
    next
      case (Inr x)
      obtain b db1 where x: "x = (b, db1)" by (cases x)
      note c = Inr [unfolded x]
      then have "transaction (boards_patch S (pb_slug parsed) (sync_update b0 ?bt)) db = (Inr b, db1)" by simp
      then have r: "r = Inr (ranking_changed b0 ?bt, b)" "db' = db1"
        using True assms(3) g by (simp_all add: sync_board_row_def Let_def)
      have inv: "db_inv S db1" by (rule boards_patch_inv [OF assms(2) c])
      obtain b1 where "find (\<lambda>b. b_slug b = pb_slug parsed) (boards db) = Some b1"
          "(b, db1) = patch_result (tx_now S db) (sync_update b0 ?bt) b1 db"
        by (rule boards_patch_Inr [OF c])
      with Some have b: "b = patched_board (tx_now S db) (sync_update b0 ?bt) b0"
          "db1 = db\<lparr>boards := update_where (\<lambda>x. b_id x = b_id b0) (\<lambda>_. b) (boards db)\<rparr>"
        by (simp_all add: patch_result_def)
      have b0: "b0 \<in> set (boards db)" "b_slug b0 = pb_slug parsed" using Some by (auto dest: find_Some_in)
      have sl: "b_slug b = pb_slug parsed" using b0(2) by (simp add: b(1) patched_board_def)
      have "b \<in> set (boards db1)" using b0(1) by (auto simp: b(2) set_update_where)
      then have "find (\<lambda>x. b_slug x = b_slug b) (boards db1) = Some b"
        using keys_okD(2) inv by (intro find_by_key) (simp_all add: db_inv_def)
      then have "find (\<lambda>x. b_slug x = pb_slug parsed) (boards db1) = Some b" by (simp only: sl)
      moreover have "synced ?bt b" unfolding b(1) by (rule synced_patch)
      moreover have "b_board_type b = b_board_type b0" by (simp add: b(1) patched_board_def)
      moreover have "history_kept db db1" "entries db1 = entries db" by (simp_all add: b(2) history_kept_def)
      ultimately show ?thesis using inv r Some by simp
    qed
  qed
qed

section \<open>The entries\<close>






section \<open>The version\<close>




lemma resolved_positions_length [simp]: "length (resolved_positions i ps) = length ps"
  by (induction i ps rule: resolved_positions.induct) simp_all




section \<open>A whole sync\<close>















section \<open>All boards\<close>

text \<open>Whatever a sync ends with, what it did before keeps the invariant and the history.\<close>

lemma sync_entry_keeps:
  assumes "db_inv S db" "sync_entry S bid ex e db = (r, db')"
  shows "keeps_history S db db'"
proof -
  have c: "keeps_history S db d" if c: "entries_create S bid inp db = Inr (x, d)" for inp x d
  proof -
    have "versions d = versions db" "placements d = placements db"
      using c by (auto simp: entries_create_def on_unique_violation_def insert_entry_def
          split: sum.splits error.splits db_error.splits if_splits)
    with entries_create_inv [OF assms(1) c] show ?thesis
      using history_same [OF assms(1)] by (simp add: keeps_history_def)
  qed
  have p: "keeps_history S db d" if p: "entries_patch S bid s inp db = Inr (x, d)" for s inp x d
  proof -
    have "versions d = versions db" "placements d = placements db"
      using p by (auto simp: entries_patch_def Let_def)
    with entries_patch_inv [OF assms(1) p] show ?thesis
      using history_same [OF assms(1)] by (simp add: keeps_history_def)
  qed
  note keep = transaction_keeps [where P = "keeps_history S db", OF _ keeps_history_refl [OF assms(1)]]
  have t: "keeps_history S db db'" if "and_then (transaction f db) (\<lambda>_ d. (Inr (), d)) = (r, db')"
    "\<And>x d. f db = Inr (x, d) \<Longrightarrow> keeps_history S db d" for f :: "db \<Rightarrow> (entry \<times> db) result"
  proof -
    obtain r1 d1 where d1: "transaction f db = (r1, d1)" by fastforce
    then have "db' = d1" using that(1) by (cases r1) simp_all
    with keep [OF d1 that(2)] show ?thesis by simp
  qed
  show ?thesis
    using assms(2) keeps_history_refl [OF assms(1)] t [OF _ c] t [OF _ p]
    by (auto simp: sync_entry_def split: option.splits if_splits)
qed

lemma sync_entries_keeps:
  "db_inv S db \<Longrightarrow> sync_entries S bid ex es db = (r, db') \<Longrightarrow> keeps_history S db db'"
proof (induction es arbitrary: db)
  case (Cons e es)
  obtain r1 db1 where s: "sync_entry S bid ex e db = (r1, db1)" by fastforce
  note h = sync_entry_keeps [OF Cons.prems(1) s]
  show ?case
  proof (cases r1)
    case (Inr u)
    with Cons.prems(2) s have "sync_entries S bid ex es db1 = (r, db')" by simp
    with Cons.IH h show ?thesis by (auto simp: keeps_history_def intro: history_trans)
  qed (use Cons.prems(2) s h in simp)
qed (simp add: keeps_history_refl)

lemma sync_board_keeps:
  assumes "svc_ok S" "db_inv S db" "sync_board S parsed nt db = (r, db')"
  shows "keeps_history S db db'" "\<forall>x. r = Inr x \<longrightarrow> sr_slug x = pb_slug parsed"
proof -
  obtain r1 db1 where row: "sync_board_row S parsed db = (r1, db1)" by fastforce
  from sync_board_row_spec [OF assms(1,2) row] history_same [OF assms(2)]
  have h1: "keeps_history S db db1" by (simp add: keeps_history_def history_kept_def)
  show "keeps_history S db db'"
  proof (cases "bt_accumulative (pb_board parsed) \<or> (\<exists>e. r1 = Inl e)")
    case True
    with assms(3) row h1 keeps_history_refl [OF assms(2)] show ?thesis
      by (auto simp: sync_board_def split: if_splits)
  next
    case False
    then obtain rc b where r1: "r1 = Inr (rc, b)" "\<not> bt_accumulative (pb_board parsed)" by (cases r1) auto
    show ?thesis
    proof (cases "pb_entries parsed = []")
      case True
      with assms(3) row r1 h1 show ?thesis by (simp add: sync_board_def Let_def)
    next
      case ne: False
      obtain r2 db2 where es: "sync_entries S (b_id b) (entries_list (b_id b) db1) (pb_entries parsed) db1 = (r2, db2)"
        by fastforce
      have h2: "keeps_history S db db2"
        using sync_entries_keeps [OF _ es] h1 keeps_history_trans by (auto simp: keeps_history_def)
      have "keeps_history S db2 d" if "versions_create S b inp None db2 = Inr (vp, d)" for inp vp d
        using versions_create_contract [OF assms(1) _ that] h2 history_published by (auto simp: keeps_history_def)
      moreover have "keeps_history S db2 db2" using h2 by (auto simp: keeps_history_def intro: history_refl)
      ultimately have "keeps_history S db2 d"
        if "transaction (versions_create S b inp None) db2 = (q, d)" for inp q d
        using transaction_keeps [where P = "keeps_history S db2", OF that] by blast
      with h2 have tx: "keeps_history S db d" if "transaction (versions_create S b inp None) db2 = (q, d)" for inp q d
        using keeps_history_trans that by blast
      obtain r3 db3 where t3: "transaction (versions_create S b (sync_version_input parsed nt) None) db2 = (r3, db3)"
        by fastforce
      have "db' = db2 \<or> db' = db3"
        using assms(3) row r1 ne es t3
        by (cases r2; cases "needs_version S rc b (map sync_placement (pb_entries parsed)) db2"; cases r3)
          (simp_all add: sync_board_def Let_def split: if_splits)
      with h2 tx [OF t3] show ?thesis by auto
    qed
  qed
  show "\<forall>x. r = Inr x \<longrightarrow> sr_slug x = pb_slug parsed"
    using assms(3) by (auto simp: sync_board_def Let_def and_then_Inr split: if_splits)
qed

lemma sync_boards_keeps:
  assumes "svc_ok S" "db_inv S db" "sync_boards S parsed nt db = (results, db')"
  shows "map sr_slug results = map pb_slug parsed \<and> keeps_history S db db'"
  using assms(2,3)
proof (induction parsed arbitrary: db results)
  case (Cons b bs)
  obtain r db1 where b: "sync_board S b nt db = (r, db1)" by fastforce
  obtain rest db2 where bs: "sync_boards S bs nt db1 = (rest, db2)" by fastforce
  note keep = sync_board_keeps [OF assms(1) Cons.prems(1) b]
  have r: "db' = db2" "results = (case r of Inr x \<Rightarrow> x
      | Inl e \<Rightarrow> \<lparr>sr_slug = pb_slug b, sr_name = pb_slug b, sr_action = Failed e\<rparr>) # rest"
    using Cons.prems(2) b bs by simp_all
  have "map sr_slug rest = map pb_slug bs \<and> keeps_history S db1 db'"
    using keep(1) bs r(1) by (intro Cons.IH) (simp_all add: keeps_history_def)
  with keep r(2) show ?case using keeps_history_trans by (auto split: sum.splits)
qed (simp add: keeps_history_refl)

lemma sync_dir_keeps:
  assumes "svc_ok S" "db_inv S db" "sync_dir S L dir nt db = (r, db')"
  shows "keeps_history S db db'"
proof (cases "parse_boards_dir L dir")
  case (Inl e)
  with assms show ?thesis by (simp add: sync_dir_def keeps_history_refl)
next
  case (Inr parsed)
  obtain results d where "sync_boards S parsed nt db = (results, d)" by (meson surj_pair)
  with sync_boards_keeps [OF assms(1,2) this] assms(3) Inr show ?thesis by (simp add: sync_dir_def)
qed

text \<open>
  C20: syncing a directory is safe for what was published. Whatever the files hold and whichever
  boards fail, every board of the directory gets one result, in name order and under its slug, a
  failed board does not stop the others, the database stays consistent, and every version there
  was before is still there with its placements.
\<close>

theorem sync_dir_keeps_history:
  assumes "svc_ok S" "db_inv S db" "sync_dir S L dir nt db = (Inr results, db')"
  shows "\<exists>parsed. parse_boards_dir L dir = Inr parsed \<and> map sr_slug results = map pb_slug parsed \<and>
    db_inv S db' \<and> history_extends db db'"
proof -
  obtain parsed where p: "parse_boards_dir L dir = Inr parsed" "sync_boards S parsed nt db = (results, db')"
    using assms(3) unfolding sync_dir_def and_then_Inr case_prod_unfold Let_def by (auto simp: prod_eq_iff)
  from sync_boards_keeps [OF assms(1,2) p(2)] p(1) show ?thesis by (simp add: keeps_history_def)
qed





definition sample_toml :: toml_lib where
  "sample_toml =
     \<lparr>toml_parse = (\<lambda>s. if s = ''b'' then Inr [(''name'', TString ''Team''), (''board_type'', TString ''ordered'')]
        else Inr [(''entries'', TArray [TTable [(''slug'', TString ''ann''), (''name'', TString ''Ann'')]])]),
      toml_expected = (\<lambda>_. ''?''), float_of_int = word_of_int\<rparr>"

definition sample_dir :: directory where
  "sample_dir =
     \<lparr>dir_path = ''boards'', dir_is_dir = True,
      dir_read = Inr [Inr \<lparr>de_name = ''team'', de_utf8 = True, de_is_dir = True, de_has_board = True, de_board = Inr ''b'',
         de_has_rankings = True, de_rankings = Inr ''r''\<rparr>]\<rparr>"

lemma sample_dir_sync:
  "is_ok (fst (sync_dir sample_svc sample_toml sample_dir None empty_db))"
  "map v_number (versions (snd (sync_dir sample_svc sample_toml sample_dir None empty_db))) = [1]"
  by code_simp+

theorem sync_dir_keeps_history_witness:
  "\<exists>results db'. sync_dir sample_svc sample_toml sample_dir None empty_db = (Inr results, db') \<and>
     db_inv sample_svc db' \<and> map v_number (versions db') = [1]"
proof -
  obtain results db' where s: "sync_dir sample_svc sample_toml sample_dir None empty_db = (Inr results, db')"
      and v: "map v_number (versions db') = [1]"
    using sample_dir_sync unfolding is_ok_iff by (metis prod.exhaust_sel)
  from sync_dir_keeps_history [OF sample_svc_ok db_inv_empty s] have "db_inv sample_svc db'" by blast
  with s v show ?thesis by (intro exI conjI)
qed

end
