(* ===== verification/Config.thy ===== *)
theory Config
  imports Parse
begin

text \<open>
  \<open>config.rs\<close>: the configuration, its defaults, references to environment variables, where the
  file is looked for, and the check on the board patterns of the outbound webhooks.
\<close>

section \<open>Values that refer to the environment\<close>

definition strip_prefix :: "string \<Rightarrow> string \<Rightarrow> string option" where
  "strip_prefix p s = (if take (length p) s = p then Some (drop (length p) s) else None)"

definition strip_suffix_char :: "char \<Rightarrow> string \<Rightarrow> string option" where
  "strip_suffix_char c s = (if s \<noteq> [] \<and> last s = c then Some (butlast s) else None)"

datatype config_value = ConfigValue string

type_synonym environment = "string \<Rightarrow> string option"

fun resolve :: "environment \<Rightarrow> config_value \<Rightarrow> string result" where
  "resolve env (ConfigValue s) =
     (case strip_prefix ''env:'' s of
        Some var_name \<Rightarrow> ok_or (env var_name) (Config [Lit ''environment variable '', Str var_name, Lit '' not set''])
      | None \<Rightarrow> Inr s)"

section \<open>The configuration\<close>

record redis_config =
  rc_url :: config_value
  rc_key_prefix :: string

record limits_config =
  max_entries_per_version :: int
  max_versions_per_board :: int
  max_metadata_size_bytes :: int
  max_note_size_bytes :: int

datatype webhook_event = VersionCreated | BoardCreated | BoardUpdated | BoardDeleted

fun event_as_str :: "webhook_event \<Rightarrow> string" where
  "event_as_str VersionCreated = ''version.created''"
| "event_as_str BoardCreated = ''board.created''"
| "event_as_str BoardUpdated = ''board.updated''"
| "event_as_str BoardDeleted = ''board.deleted''"

record webhook_config =
  wh_url :: string
  wh_events :: "webhook_event list"
  wh_boards :: "string list"
  wh_secret :: "config_value option"

record auth_config =
  au_jwks_url :: "string option"
  au_required_role :: "string option"
  au_expected_issuer :: "string option"
  au_expected_audience :: "string option"
  au_admin_token :: "config_value option"
  au_api_token :: "config_value option"
  au_read_tokens :: "config_value list"
  au_require_read_auth :: bool

record sync_config =
  sy_repo_path :: "string option"
  sy_webhook_secret :: "config_value option"
  sy_sync_branch :: "string option"

record server_config =
  sv_host :: string
  sv_port :: int
  sv_cors_origins :: "string list"
  sv_behind_proxy :: bool
  sv_rate_limit_per_second :: int
  sv_rate_limit_burst :: int
  sv_sse_enabled :: bool
  sv_sse_max_connections :: int
  sv_sse_score_debounce_ms :: int
  sv_sse_timeout_secs :: int
  sv_sse_broadcast_buffer :: int
  sv_ws_enabled :: bool
  sv_ws_timeout_secs :: int
  sv_shutdown_timeout_secs :: int
  sv_metrics_enabled :: bool
  sv_docs_enabled :: bool
  sv_max_request_body_bytes :: int

record database_config =
  dc_url :: config_value
  dc_max_connections :: int
  dc_schema :: "string option"

record config =
  cfg_server :: "server_config option"
  cfg_database :: database_config
  cfg_redis :: "redis_config option"
  cfg_auth :: "auth_config option"
  cfg_sync :: "sync_config option"
  cfg_limits :: "limits_config option"
  cfg_webhooks :: "webhook_config list"

section \<open>Defaults\<close>

definition default_redis_key_prefix :: string where "default_redis_key_prefix = ''rl''"

definition default_limits :: limits_config where
  "default_limits =
     \<lparr>max_entries_per_version = 10000, max_versions_per_board = 1000,
      max_metadata_size_bytes = 1048576, max_note_size_bytes = 10240\<rparr>"

definition default_server :: server_config where
  "default_server =
     \<lparr>sv_host = ''0.0.0.0'', sv_port = 8082, sv_cors_origins = [], sv_behind_proxy = False,
      sv_rate_limit_per_second = 0, sv_rate_limit_burst = 50, sv_sse_enabled = False,
      sv_sse_max_connections = 1000, sv_sse_score_debounce_ms = 1000, sv_sse_timeout_secs = 1800,
      sv_sse_broadcast_buffer = 256, sv_ws_enabled = False, sv_ws_timeout_secs = 1800,
      sv_shutdown_timeout_secs = 30, sv_metrics_enabled = False, sv_docs_enabled = True,
      sv_max_request_body_bytes = 10 * 1024 * 1024\<rparr>"

definition default_max_connections :: int where "default_max_connections = 10"

definition redis_key_prefix :: "config \<Rightarrow> string" where
  "redis_key_prefix c = unwrap_or (map_option rc_key_prefix (cfg_redis c)) ''rl''"

definition effective_limits :: "config \<Rightarrow> limits_config" where
  "effective_limits c = unwrap_or (cfg_limits c) default_limits"

section \<open>Reading the tables\<close>

text \<open>A number of an unsigned type is refused when it is negative or too large.\<close>

fun toml_uint :: "int \<Rightarrow> toml \<Rightarrow> int option" where
  "toml_uint bound (TInteger i) = (if 0 \<le> i \<and> i < bound then Some i else None)"
| "toml_uint bound _ = None"

fun toml_i64 :: "toml \<Rightarrow> int option" where
  "toml_i64 (TInteger i) = Some i"
| "toml_i64 _ = None"

fun toml_table :: "((string \<times> toml) list \<Rightarrow> 'a option) \<Rightarrow> toml \<Rightarrow> 'a option" where
  "toml_table f (TTable t) = f t"
| "toml_table f _ = None"

fun toml_array :: "(toml \<Rightarrow> 'a option) \<Rightarrow> toml \<Rightarrow> 'a list option" where
  "toml_array f (TArray vs) = those (map f vs)"
| "toml_array f _ = None"

definition toml_value :: "toml \<Rightarrow> config_value option" where
  "toml_value v = map_option ConfigValue (toml_string v)"

definition usize :: "toml \<Rightarrow> int option" where "usize = toml_uint (2 ^ 64)"

definition redis_config_of :: "(string \<times> toml) list \<Rightarrow> redis_config option" where
  "redis_config_of t =
     Option.bind (req toml_value ''url'' t) (\<lambda>u.
     Option.bind (or_default default_redis_key_prefix toml_string ''key_prefix'' t) (\<lambda>p.
     Some \<lparr>rc_url = u, rc_key_prefix = p\<rparr>))"

definition limits_config_of :: "(string \<times> toml) list \<Rightarrow> limits_config option" where
  "limits_config_of t =
     Option.bind (or_default (max_entries_per_version default_limits) usize ''max_entries_per_version'' t) (\<lambda>a.
     Option.bind (or_default (max_versions_per_board default_limits) toml_i64 ''max_versions_per_board'' t) (\<lambda>b.
     Option.bind (or_default (max_metadata_size_bytes default_limits) usize ''max_metadata_size_bytes'' t) (\<lambda>c.
     Option.bind (or_default (max_note_size_bytes default_limits) usize ''max_note_size_bytes'' t) (\<lambda>d.
     Some \<lparr>max_entries_per_version = a, max_versions_per_board = b, max_metadata_size_bytes = c,
           max_note_size_bytes = d\<rparr>))))"

definition webhook_event_of :: "toml \<Rightarrow> webhook_event option" where
  "webhook_event_of v =
     Option.bind (toml_string v) (\<lambda>s.
     find (\<lambda>e. event_as_str e = s) [VersionCreated, BoardCreated, BoardUpdated, BoardDeleted])"

definition webhook_config_of :: "(string \<times> toml) list \<Rightarrow> webhook_config option" where
  "webhook_config_of t =
     Option.bind (req toml_string ''url'' t) (\<lambda>u.
     Option.bind (req (toml_array webhook_event_of) ''events'' t) (\<lambda>e.
     Option.bind (or_default [] (toml_array toml_string) ''boards'' t) (\<lambda>b.
     Option.bind (opt toml_value ''secret'' t) (\<lambda>s.
     Some \<lparr>wh_url = u, wh_events = e, wh_boards = b, wh_secret = s\<rparr>))))"

definition auth_config_of :: "(string \<times> toml) list \<Rightarrow> auth_config option" where
  "auth_config_of t =
     Option.bind (opt toml_string ''jwks_url'' t) (\<lambda>u.
     Option.bind (opt toml_string ''required_role'' t) (\<lambda>r.
     Option.bind (opt toml_string ''expected_issuer'' t) (\<lambda>i.
     Option.bind (opt toml_string ''expected_audience'' t) (\<lambda>a.
     Option.bind (opt toml_value ''admin_token'' t) (\<lambda>ad.
     Option.bind (opt toml_value ''api_token'' t) (\<lambda>ap.
     Option.bind (or_default [] (toml_array toml_value) ''read_tokens'' t) (\<lambda>rt.
     Option.bind (or_default False toml_bool ''require_read_auth'' t) (\<lambda>rr.
     Some \<lparr>au_jwks_url = u, au_required_role = r, au_expected_issuer = i, au_expected_audience = a,
           au_admin_token = ad, au_api_token = ap, au_read_tokens = rt, au_require_read_auth = rr\<rparr>))))))))"

definition sync_config_of :: "(string \<times> toml) list \<Rightarrow> sync_config option" where
  "sync_config_of t =
     Option.bind (opt toml_string ''repo_path'' t) (\<lambda>p.
     Option.bind (opt toml_value ''webhook_secret'' t) (\<lambda>s.
     Option.bind (opt toml_string ''sync_branch'' t) (\<lambda>b.
     Some \<lparr>sy_repo_path = p, sy_webhook_secret = s, sy_sync_branch = b\<rparr>)))"

definition server_config_of :: "(string \<times> toml) list \<Rightarrow> server_config option" where
  "server_config_of t =
     Option.bind (or_default (sv_host default_server) toml_string ''host'' t) (\<lambda>host.
     Option.bind (or_default (sv_port default_server) (toml_uint (2 ^ 16)) ''port'' t) (\<lambda>port.
     Option.bind (or_default [] (toml_array toml_string) ''cors_origins'' t) (\<lambda>cors.
     Option.bind (or_default False toml_bool ''behind_proxy'' t) (\<lambda>proxy.
     Option.bind (or_default 0 usize ''rate_limit_per_second'' t) (\<lambda>rate.
     Option.bind (or_default (sv_rate_limit_burst default_server) (toml_uint (2 ^ 32)) ''rate_limit_burst'' t) (\<lambda>burst.
     Option.bind (or_default False toml_bool ''sse_enabled'' t) (\<lambda>sse.
     Option.bind (or_default (sv_sse_max_connections default_server) usize ''sse_max_connections'' t) (\<lambda>conns.
     Option.bind (or_default (sv_sse_score_debounce_ms default_server) usize ''sse_score_debounce_ms'' t) (\<lambda>debounce.
     Option.bind (or_default (sv_sse_timeout_secs default_server) usize ''sse_timeout_secs'' t) (\<lambda>sse_timeout.
     Option.bind (or_default (sv_sse_broadcast_buffer default_server) usize ''sse_broadcast_buffer'' t) (\<lambda>buffer.
     Option.bind (or_default False toml_bool ''ws_enabled'' t) (\<lambda>ws.
     Option.bind (or_default (sv_ws_timeout_secs default_server) usize ''ws_timeout_secs'' t) (\<lambda>ws_timeout.
     Option.bind (or_default (sv_shutdown_timeout_secs default_server) usize ''shutdown_timeout_secs'' t) (\<lambda>shutdown.
     Option.bind (or_default False toml_bool ''metrics_enabled'' t) (\<lambda>metrics.
     Option.bind (or_default (sv_docs_enabled default_server) toml_bool ''docs_enabled'' t) (\<lambda>docs.
     Option.bind (or_default (sv_max_request_body_bytes default_server) usize ''max_request_body_bytes'' t) (\<lambda>body.
     Some \<lparr>sv_host = host, sv_port = port, sv_cors_origins = cors, sv_behind_proxy = proxy,
           sv_rate_limit_per_second = rate, sv_rate_limit_burst = burst, sv_sse_enabled = sse,
           sv_sse_max_connections = conns, sv_sse_score_debounce_ms = debounce, sv_sse_timeout_secs = sse_timeout,
           sv_sse_broadcast_buffer = buffer, sv_ws_enabled = ws, sv_ws_timeout_secs = ws_timeout,
           sv_shutdown_timeout_secs = shutdown, sv_metrics_enabled = metrics, sv_docs_enabled = docs,
           sv_max_request_body_bytes = body\<rparr>)))))))))))))))))"

definition database_config_of :: "(string \<times> toml) list \<Rightarrow> database_config option" where
  "database_config_of t =
     Option.bind (req toml_value ''url'' t) (\<lambda>u.
     Option.bind (or_default default_max_connections (toml_uint (2 ^ 32)) ''max_connections'' t) (\<lambda>m.
     Option.bind (opt toml_string ''schema'' t) (\<lambda>s.
     Some \<lparr>dc_url = u, dc_max_connections = m, dc_schema = s\<rparr>)))"

definition config_of :: "(string \<times> toml) list \<Rightarrow> config option" where
  "config_of t =
     Option.bind (opt (toml_table server_config_of) ''server'' t) (\<lambda>sv.
     Option.bind (req (toml_table database_config_of) ''database'' t) (\<lambda>d.
     Option.bind (opt (toml_table redis_config_of) ''redis'' t) (\<lambda>r.
     Option.bind (opt (toml_table auth_config_of) ''auth'' t) (\<lambda>a.
     Option.bind (opt (toml_table sync_config_of) ''sync'' t) (\<lambda>sy.
     Option.bind (opt (toml_table limits_config_of) ''limits'' t) (\<lambda>l.
     Option.bind (or_default [] (toml_list webhook_config_of) ''webhooks'' t) (\<lambda>w.
     Some \<lparr>cfg_server = sv, cfg_database = d, cfg_redis = r, cfg_auth = a, cfg_sync = sy, cfg_limits = l,
           cfg_webhooks = w\<rparr>)))))))"

section \<open>Board patterns\<close>

definition bad_pattern :: "nat \<Rightarrow> string \<Rightarrow> error" where
  "bad_pattern i pattern =
     Config [Lit ''webhooks['', Num (int i), Lit '']: board pattern \"'', Str pattern,
       Lit ''\" has unsupported '*' placement (only trailing '*' is supported, e.g., \"dc-*\")'']"

definition check_pattern :: "nat \<Rightarrow> string \<Rightarrow> unit result" where
  "check_pattern i pattern =
     (if pattern = ''*'' then Inr ()
      else case strip_suffix_char (CHR ''*'') pattern of
        Some prefix \<Rightarrow> reject_if (CHR ''*'' \<in> set prefix) (bad_pattern i pattern)
      | None \<Rightarrow> reject_if (CHR ''*'' \<in> set pattern) (bad_pattern i pattern))"

definition validate_webhook_board_patterns :: "config \<Rightarrow> unit result" where
  "validate_webhook_board_patterns c =
     for_each (\<lambda>(i, wh). for_each (check_pattern i) (wh_boards wh)) (enumerate 0 (cfg_webhooks c))"

section \<open>Finding the file\<close>

text \<open>
  A path is the list of its components; \<open>path_of\<close> reads one from a string. The file system says
  which files exist and what reading one gives.
\<close>

type_synonym path = "string list"

record file_system =
  fs_exists :: "path \<Rightarrow> bool"
  fs_read :: "path \<Rightarrow> string + string"
  fs_cwd :: "path option"
  fs_display :: "path \<Rightarrow> string"
  path_of :: "string \<Rightarrow> path"

definition load_from_path :: "toml_lib \<Rightarrow> file_system \<Rightarrow> path \<Rightarrow> config result" where
  "load_from_path L F path =
     rbind (map_err (\<lambda>e. Config [Lit ''failed to read config from '', Str (fs_display F path), Lit '': '', Str e])
              (fs_read F path)) (\<lambda>contents.
     rbind (map_err (\<lambda>e. Config [Lit ''failed to parse config from '', Str (fs_display F path), Lit '': '', Str e])
              (from_str L config_of contents)) (\<lambda>config.
     rbind (validate_webhook_board_patterns config) (\<lambda>_. Inr config)))"

definition parent :: "path \<Rightarrow> path option" where
  "parent p = (if p = [] then None else Some (butlast p))"

text \<open>The loop from the working directory up to the root.\<close>

function search_up :: "file_system \<Rightarrow> path \<Rightarrow> path option" where
  "search_up F dir =
     (if fs_exists F (dir @ [''riley_leaderboards.toml'']) then Some (dir @ [''riley_leaderboards.toml''])
      else case parent dir of Some p \<Rightarrow> search_up F p | None \<Rightarrow> None)"
  by pat_completeness auto

termination search_up
  by (relation "measure (\<lambda>(F, dir). length dir)") (auto simp: parent_def split: if_splits)

declare search_up.simps [simp del]

definition home_dir :: "file_system \<Rightarrow> environment \<Rightarrow> path option" where
  "home_dir F env = map_option (path_of F) (env ''HOME'')"

definition if_exists :: "file_system \<Rightarrow> path \<Rightarrow> path option" where
  "if_exists F p = (if fs_exists F p then Some p else None)"

definition no_config_file :: error where
  "no_config_file = Config [Lit ''no config file found (searched cwd, parent dirs, ~/.config, /etc)'']"

definition load_config :: "toml_lib \<Rightarrow> file_system \<Rightarrow> environment \<Rightarrow> path option \<Rightarrow> config result" where
  "load_config L F env explicit_path =
     (case explicit_path of Some path \<Rightarrow> load_from_path L F path | None \<Rightarrow>
      case env ''RILEY_LEADERBOARDS_CONFIG'' of Some s \<Rightarrow> load_from_path L F (path_of F s) | None \<Rightarrow>
      case Option.bind (fs_cwd F) (search_up F) of Some path \<Rightarrow> load_from_path L F path | None \<Rightarrow>
      case Option.bind (home_dir F env)
             (\<lambda>home. if_exists F (home @ [''.config'', ''riley_leaderboards'', ''config.toml''])) of
        Some path \<Rightarrow> load_from_path L F path | None \<Rightarrow>
      case if_exists F [''etc'', ''riley_leaderboards'', ''config.toml''] of
        Some path \<Rightarrow> load_from_path L F path | None \<Rightarrow>
      Inl no_config_file)"

section \<open>Where the file is found\<close>

text \<open>The candidates in the order of the search: the directories from \<open>dir\<close> upwards.\<close>

definition upward :: "path \<Rightarrow> path list" where
  "upward dir = map (\<lambda>k. take k dir @ [''riley_leaderboards.toml'']) (rev [0..<Suc (length dir)])"

lemma upward_step: "upward dir = (dir @ [''riley_leaderboards.toml'']) #
    (case parent dir of None \<Rightarrow> [] | Some p \<Rightarrow> upward p)"
proof (cases dir rule: rev_cases)
  case (snoc d x)
  have "map (\<lambda>k. take k (d @ [x]) @ [''riley_leaderboards.toml'']) (rev [0..<Suc (length d)]) = upward d"
    by (simp add: upward_def)
  then show ?thesis using snoc by (simp add: upward_def parent_def)
qed (simp add: upward_def parent_def)

lemma search_up_find: "search_up F dir = find (fs_exists F) (upward dir)"
proof (induction F dir rule: search_up.induct)
  case (1 F dir)
  then show ?case
    by (subst search_up.simps, subst upward_step) (auto split: option.split)
qed

definition candidates :: "file_system \<Rightarrow> environment \<Rightarrow> path list" where
  "candidates F env =
     (case fs_cwd F of None \<Rightarrow> [] | Some cwd \<Rightarrow> upward cwd) @
     (case home_dir F env of None \<Rightarrow> []
      | Some home \<Rightarrow> [home @ [''.config'', ''riley_leaderboards'', ''config.toml'']]) @
     [[''etc'', ''riley_leaderboards'', ''config.toml'']]"

lemma first_of_three:
  assumes "(case x of Some p \<Rightarrow> Some p | None \<Rightarrow> case y of Some p \<Rightarrow> Some p | None \<Rightarrow> z) = w"
  shows "(case x of Some p \<Rightarrow> f p | None \<Rightarrow> case y of Some p \<Rightarrow> f p | None \<Rightarrow> case z of Some p \<Rightarrow> f p | None \<Rightarrow> d) =
    (case w of Some p \<Rightarrow> f p | None \<Rightarrow> d)"
  using assms by (auto split: option.splits)

text \<open>
  The configuration is read from the first file of the documented order. With no path given
  by option or variable, \<open>load_config\<close> reads the first existing file among
  \<open>riley_leaderboards.toml\<close> in the working directory and its parents, nearest first, then the
  one under the home directory, then the one under /etc; when none exists it is a configuration
  error. A given path is read whatever else exists.
\<close>

theorem load_config_order:
  "load_config L F env explicit_path =
     (case explicit_path of Some path \<Rightarrow> load_from_path L F path | None \<Rightarrow>
      case env ''RILEY_LEADERBOARDS_CONFIG'' of Some s \<Rightarrow> load_from_path L F (path_of F s) | None \<Rightarrow>
      case find (fs_exists F) (candidates F env) of
        Some path \<Rightarrow> load_from_path L F path | None \<Rightarrow> Inl no_config_file)"
proof -
  have chain: "find P (xs @ ys @ [z]) =
      (case find P xs of Some p \<Rightarrow> Some p | None \<Rightarrow> case find P ys of Some p \<Rightarrow> Some p | None \<Rightarrow> if P z then Some z else None)"
    for P :: "path \<Rightarrow> bool" and xs ys z
    by (simp add: find_append split: option.split)
  have cwd: "find (fs_exists F) (case fs_cwd F of None \<Rightarrow> [] | Some cwd \<Rightarrow> upward cwd) = Option.bind (fs_cwd F) (search_up F)"
    by (cases "fs_cwd F") (simp_all add: search_up_find)
  have home: "find (fs_exists F) (case h of None \<Rightarrow> [] | Some home \<Rightarrow> [home @ rest]) =
      Option.bind h (\<lambda>home. if_exists F (home @ rest))" for h rest
    by (cases h) (simp_all add: if_exists_def)
  have located: "find (fs_exists F) (candidates F env) =
      (case Option.bind (fs_cwd F) (search_up F) of Some p \<Rightarrow> Some p | None \<Rightarrow>
       case Option.bind (home_dir F env)
             (\<lambda>home. if_exists F (home @ [''.config'', ''riley_leaderboards'', ''config.toml''])) of
         Some p \<Rightarrow> Some p | None \<Rightarrow> if_exists F [''etc'', ''riley_leaderboards'', ''config.toml''])"
    unfolding candidates_def chain cwd home if_exists_def [of F "[''etc'', ''riley_leaderboards'', ''config.toml'']"] ..
  have "(case Option.bind (fs_cwd F) (search_up F) of Some path \<Rightarrow> load_from_path L F path | None \<Rightarrow>
      case Option.bind (home_dir F env)
             (\<lambda>home. if_exists F (home @ [''.config'', ''riley_leaderboards'', ''config.toml''])) of
        Some path \<Rightarrow> load_from_path L F path | None \<Rightarrow>
      case if_exists F [''etc'', ''riley_leaderboards'', ''config.toml''] of
        Some path \<Rightarrow> load_from_path L F path | None \<Rightarrow> Inl no_config_file) =
    (case find (fs_exists F) (candidates F env) of
        Some path \<Rightarrow> load_from_path L F path | None \<Rightarrow> Inl no_config_file)"
    by (rule first_of_three) (rule located [symmetric])
  then show ?thesis by (simp only: load_config_def)
qed

section \<open>Defaults agree\<close>

text \<open>An empty table is read as the value of the \<open>Default\<close> implementation.\<close>

lemma server_defaults: "server_config_of [] = Some default_server"
  by code_simp

lemma limits_defaults: "limits_config_of [] = Some default_limits"
  by code_simp

section \<open>What the pattern check accepts\<close>

lemma strip_suffix_char_eq: "strip_suffix_char c s = Some p \<longleftrightarrow> s = p @ [c]"
  by (cases s rule: rev_cases) (auto simp: strip_suffix_char_def)

lemma strip_suffix_char_None: "strip_suffix_char c s = None \<longleftrightarrow> s = [] \<or> last s \<noteq> c"
  by (auto simp: strip_suffix_char_def)

lemma strip_prefix_eq: "strip_prefix p s = Some r \<longleftrightarrow> s = p @ r"
  by (simp add: strip_prefix_def append_eq_conv_conj [symmetric] eq_commute [of s] append_eq_conv_conj eq_commute [of r])

text \<open>A star may only be the last character.\<close>

definition pattern_ok :: "string \<Rightarrow> bool" where
  "pattern_ok p \<longleftrightarrow> CHR ''*'' \<notin> set (butlast p)"

lemma check_pattern_iff [simp]: "check_pattern i p = Inr () \<longleftrightarrow> pattern_ok p"
proof (cases "strip_suffix_char (CHR ''*'') p")
  case None
  then have "CHR ''*'' \<in> set p \<longleftrightarrow> CHR ''*'' \<in> set (butlast p)"
    by (cases p rule: rev_cases) (auto simp: strip_suffix_char_None)
  moreover have "p \<noteq> ''*''" using None by (auto simp: strip_suffix_char_None)
  ultimately show ?thesis using None by (simp add: check_pattern_def pattern_ok_def)
next
  case (Some r)
  then have "p = r @ ''*''" by (simp add: strip_suffix_char_eq)
  with Some show ?thesis by (simp add: check_pattern_def pattern_ok_def)
qed

lemma validate_patterns_iff:
  "validate_webhook_board_patterns c = Inr () \<longleftrightarrow> (\<forall>wh \<in> set (cfg_webhooks c). \<forall>p \<in> set (wh_boards wh). pattern_ok p)"
proof -
  have "snd ` set (enumerate 0 (cfg_webhooks c)) = set (cfg_webhooks c)"
    by (metis map_snd_enumerate set_map)
  then have "(\<forall>x \<in> set (enumerate 0 (cfg_webhooks c)). P (snd x)) \<longleftrightarrow> (\<forall>wh \<in> set (cfg_webhooks c). P wh)" for P
    by (metis (no_types, lifting) image_iff)
  from this [of "\<lambda>wh. \<forall>p \<in> set (wh_boards wh). pattern_ok p"] show ?thesis
    by (simp add: validate_webhook_board_patterns_def case_prod_beta)
qed

end
