(* ===== verification/Outbound.thy ===== *)
theory Outbound
  imports Config
begin

text \<open>
  \<open>outbound_webhooks.rs\<close>: which destinations an event is sent to, and how one delivery is
  retried. Printing JSON and timestamps, the clock, HMAC and the answers of the receiver are
  parameters.
\<close>

section \<open>The payload\<close>

record board_info =
  bi_slug :: string
  bi_name :: string

record version_info =
  vi_version_number :: i32
  vi_note :: "string option"

record webhook_payload =
  wp_event :: string
  wp_timestamp :: string
  wp_board :: board_info
  wp_version :: "version_info option"

record webhook_lib =
  to_vec :: "json \<Rightarrow> string option"
  to_rfc3339 :: "timestamp \<Rightarrow> string"
  utc_now :: timestamp
  hmac_hex :: "string \<Rightarrow> string \<Rightarrow> string option"

text \<open>A field that is \<open>None\<close> is skipped; the fields are written in the order of the struct.\<close>

definition some_field :: "string \<Rightarrow> ('a \<Rightarrow> json) \<Rightarrow> 'a option \<Rightarrow> (string \<times> json) list" where
  "some_field k f x = (case x of None \<Rightarrow> [] | Some v \<Rightarrow> [(k, f v)])"

definition board_info_json :: "board_info \<Rightarrow> json" where
  "board_info_json b = JObject [(''slug'', JString (bi_slug b)), (''name'', JString (bi_name b))]"

definition version_info_json :: "version_info \<Rightarrow> json" where
  "version_info_json v =
     JObject ((''version_number'', JInt (vi_version_number v)) # some_field ''note'' JString (vi_note v))"

definition payload_json :: "webhook_payload \<Rightarrow> json" where
  "payload_json p =
     JObject ([(''event'', JString (wp_event p)), (''timestamp'', JString (wp_timestamp p)),
               (''board'', board_info_json (wp_board p))] @ some_field ''version'' version_info_json (wp_version p))"

section \<open>Choosing the destinations\<close>

definition glob_match :: "string \<Rightarrow> string \<Rightarrow> bool" where
  "glob_match pattern val =
     (if pattern = ''*'' then True
      else case strip_suffix_char (CHR ''*'') pattern of
        Some p \<Rightarrow> take (length p) val = p
      | None \<Rightarrow> pattern = val)"

definition matches_board_filter :: "string list \<Rightarrow> string \<Rightarrow> bool" where
  "matches_board_filter patterns slug = (if patterns = [] then True else list_ex (\<lambda>p. glob_match p slug) patterns)"

text \<open>A task that runs \<open>deliver\<close>: the arguments it is spawned with.\<close>

record delivery =
  dl_url :: string
  dl_body :: string
  dl_secret :: "string option"

fun fire_loop :: "environment \<Rightarrow> webhook_event \<Rightarrow> string \<Rightarrow> string \<Rightarrow> webhook_config list \<Rightarrow> delivery list" where
  "fire_loop env event slug body [] = []"
| "fire_loop env event slug body (c # cs) =
     (if event \<notin> set (wh_events c) then fire_loop env event slug body cs
      else if \<not> matches_board_filter (wh_boards c) slug then fire_loop env event slug body cs
      else case wh_secret c of
        Some cv \<Rightarrow>
          (case resolve env cv of
             Inr s \<Rightarrow> \<lparr>dl_url = wh_url c, dl_body = body, dl_secret = Some s\<rparr> # fire_loop env event slug body cs
           | Inl _ \<Rightarrow> fire_loop env event slug body cs)
      | None \<Rightarrow> \<lparr>dl_url = wh_url c, dl_body = body, dl_secret = None\<rparr> # fire_loop env event slug body cs)"

definition webhook_payload_of ::
    "webhook_lib \<Rightarrow> webhook_event \<Rightarrow> string \<Rightarrow> string \<Rightarrow> version_info option \<Rightarrow> timestamp option \<Rightarrow> webhook_payload" where
  "webhook_payload_of W event slug name version ts =
     \<lparr>wp_event = event_as_str event, wp_timestamp = to_rfc3339 W (unwrap_or ts (utc_now W)),
      wp_board = \<lparr>bi_slug = slug, bi_name = name\<rparr>, wp_version = version\<rparr>"

definition fire ::
    "webhook_lib \<Rightarrow> environment \<Rightarrow> webhook_config list \<Rightarrow> webhook_event \<Rightarrow> string \<Rightarrow> string \<Rightarrow>
     version_info option \<Rightarrow> timestamp option \<Rightarrow> delivery list" where
  "fire W env configs event slug name version ts =
     (case to_vec W (payload_json (webhook_payload_of W event slug name version ts)) of
        None \<Rightarrow> []
      | Some body \<Rightarrow> fire_loop env event slug body configs)"

section \<open>Delivering\<close>

text \<open>The answer to an attempt, what a delivery does, and the request it sends each time.\<close>

datatype answer = Status nat | Failed

record http_request =
  rq_url :: string
  rq_headers :: "(string \<times> string) list"
  rq_body :: string

datatype act = Send http_request | Sleep nat | Count string

definition is_success :: "nat \<Rightarrow> bool" where "is_success s \<longleftrightarrow> 200 \<le> s \<and> s < 300"

definition is_client_error :: "nat \<Rightarrow> bool" where "is_client_error s \<longleftrightarrow> 400 \<le> s \<and> s < 500"

definition compute_signature :: "webhook_lib \<Rightarrow> string \<Rightarrow> string \<Rightarrow> string option" where
  "compute_signature W secret body = hmac_hex W secret body"

definition delivery_request :: "webhook_lib \<Rightarrow> delivery \<Rightarrow> http_request" where
  "delivery_request W d =
     \<lparr>rq_url = dl_url d,
      rq_headers = (''Content-Type'', ''application/json'') #
        (case Option.bind (dl_secret d) (\<lambda>s. compute_signature W s (dl_body d)) of
           Some sig \<Rightarrow> [(''X-Webhook-Signature-256'', ''sha256='' @ sig)]
         | None \<Rightarrow> []),
      rq_body = dl_body d\<rparr>"

fun deliver_loop :: "webhook_lib \<Rightarrow> (nat \<Rightarrow> answer) \<Rightarrow> delivery \<Rightarrow> (nat \<times> nat) list \<Rightarrow> act list" where
  "deliver_loop W net d [] = [Count ''retry_exhausted'']"
| "deliver_loop W net d ((attempt, delay_secs) # rest) =
     Send (delivery_request W d) #
     (case net attempt of
        Status s \<Rightarrow>
          if is_success s then [Count ''success'']
          else if is_client_error s then [Count ''client_error'']
          else (if 0 < delay_secs then [Sleep delay_secs] else []) @ deliver_loop W net d rest
      | Failed \<Rightarrow> (if 0 < delay_secs then [Sleep delay_secs] else []) @ deliver_loop W net d rest)"

definition delays :: "nat list" where "delays = [1, 5, 0]"

definition deliver :: "webhook_lib \<Rightarrow> (nat \<Rightarrow> answer) \<Rightarrow> delivery \<Rightarrow> act list" where
  "deliver W net d = deliver_loop W net d (enumerate 0 delays)"

section \<open>The destinations an event reaches\<close>

text \<open>The reference matcher: a star, anywhere, stands for any sequence of characters.\<close>

fun wildcard :: "string \<Rightarrow> string \<Rightarrow> bool" where
  "wildcard [] v = (v = [])"
| "wildcard (c # p) v =
     (if c = CHR ''*'' then \<exists>k \<in> set [0..<Suc (length v)]. wildcard p (drop k v)
      else case v of [] \<Rightarrow> False | x # v' \<Rightarrow> x = c \<and> wildcard p v')"

lemma wildcard_literal: "CHR ''*'' \<notin> set p \<Longrightarrow> wildcard (p @ q) v \<longleftrightarrow> (\<exists>r. v = p @ r \<and> wildcard q r)"
  by (induction p arbitrary: v) (auto split: list.split)

lemma wildcard_star [simp]: "wildcard ''*'' v"
  by (auto intro!: bexI [of _ "length v"])

lemma take_eq_prefix: "take (length p) v = p \<longleftrightarrow> (\<exists>r. v = p @ r)"
  by (metis append_take_drop_id append_eq_conv_conj)

lemma glob_match_wildcard: "pattern_ok p \<Longrightarrow> glob_match p v \<longleftrightarrow> wildcard p v"
proof (cases "strip_suffix_char (CHR ''*'') p")
  case None
  assume "pattern_ok p"
  with None have "CHR ''*'' \<notin> set p"
    by (cases p rule: rev_cases) (auto simp: strip_suffix_char_None pattern_ok_def)
  moreover from this have "p \<noteq> ''*''" by auto
  ultimately show ?thesis
    using None wildcard_literal [of p "[]" v] by (auto simp: glob_match_def)
next
  case (Some r)
  assume "pattern_ok p"
  from Some have p: "p = r @ ''*''" by (simp add: strip_suffix_char_eq)
  with \<open>pattern_ok p\<close> have "CHR ''*'' \<notin> set r" by (simp add: pattern_ok_def)
  then have "wildcard p v \<longleftrightarrow> (\<exists>s. v = r @ s)" by (simp only: p wildcard_literal wildcard_star simp_thms)
  moreover have "glob_match p v \<longleftrightarrow> take (length r) v = r"
    using Some p by (auto simp: glob_match_def)
  ultimately show ?thesis by (simp only: take_eq_prefix)
qed

text \<open>A destination of the configuration gets the event.\<close>

definition receives :: "environment \<Rightarrow> webhook_event \<Rightarrow> string \<Rightarrow> webhook_config \<Rightarrow> bool" where
  "receives env event slug c \<longleftrightarrow>
     event \<in> set (wh_events c) \<and>
     (wh_boards c = [] \<or> (\<exists>p \<in> set (wh_boards c). wildcard p slug)) \<and>
     (case wh_secret c of None \<Rightarrow> True | Some cv \<Rightarrow> is_ok (resolve env cv))"

definition delivery_to :: "environment \<Rightarrow> string \<Rightarrow> webhook_config \<Rightarrow> delivery" where
  "delivery_to env body c =
     \<lparr>dl_url = wh_url c, dl_body = body,
      dl_secret = map_option (\<lambda>cv. case resolve env cv of Inr s \<Rightarrow> s | Inl _ \<Rightarrow> []) (wh_secret c)\<rparr>"

lemma filter_matches:
  assumes "\<forall>p \<in> set patterns. pattern_ok p"
  shows "matches_board_filter patterns slug \<longleftrightarrow> patterns = [] \<or> (\<exists>p \<in> set patterns. wildcard p slug)"
  using assms by (auto simp: matches_board_filter_def list_ex_iff glob_match_wildcard)

lemma fire_loop_eq:
  assumes "\<forall>c \<in> set cs. \<forall>p \<in> set (wh_boards c). pattern_ok p"
  shows "fire_loop env event slug body cs = map (delivery_to env body) (filter (receives env event slug) cs)"
  using assms
proof (induction cs)
  case (Cons c cs)
  then have m: "matches_board_filter (wh_boards c) slug \<longleftrightarrow> wh_boards c = [] \<or> (\<exists>p \<in> set (wh_boards c). wildcard p slug)"
    by (intro filter_matches) simp
  show ?case
    using Cons by (cases "wh_secret c"; cases "resolve env (the (wh_secret c))")
      (simp_all add: m receives_def delivery_to_def)
qed simp

text \<open>
  C21: an event reaches the configured destinations and no other. For a configuration the
  loader accepts, \<open>fire\<close> spawns one delivery, in configuration order, for each destination that
  lists the event, one of whose patterns matches the board (a star standing for any characters;
  no pattern at all means every board) and whose secret, if it has one, can be resolved; all of
  them carry the same body.
\<close>

theorem fire_destinations:
  assumes "validate_webhook_board_patterns c = Inr ()"
  shows "fire W env (cfg_webhooks c) event slug name version ts =
    (case to_vec W (payload_json (webhook_payload_of W event slug name version ts)) of
       None \<Rightarrow> []
     | Some body \<Rightarrow> map (delivery_to env body) (filter (receives env event slug) (cfg_webhooks c)))"
  using assms by (simp add: fire_def validate_patterns_iff fire_loop_eq split: option.split)

definition sample_webhook_lib :: webhook_lib where
  "sample_webhook_lib =
     \<lparr>to_vec = (\<lambda>v. case v of JObject fs \<Rightarrow> Some (concat (map fst fs)) | _ \<Rightarrow> None), to_rfc3339 = (\<lambda>_. ''t''),
      utc_now = 0, hmac_hex = (\<lambda>k m. Some k)\<rparr>"

definition sample_webhooks :: "webhook_config list" where
  "sample_webhooks =
     [\<lparr>wh_url = ''a'', wh_events = [VersionCreated], wh_boards = [''dc-*''], wh_secret = Some (ConfigValue ''s'')\<rparr>,
      \<lparr>wh_url = ''b'', wh_events = [VersionCreated], wh_boards = [''nfl''], wh_secret = None\<rparr>,
      \<lparr>wh_url = ''c'', wh_events = [VersionCreated], wh_boards = [], wh_secret = Some (ConfigValue ''env:X'')\<rparr>]"

definition sample_config :: config where
  "sample_config =
     \<lparr>cfg_server = None, cfg_database = \<lparr>dc_url = ConfigValue ''u'', dc_max_connections = 10, dc_schema = None\<rparr>,
      cfg_redis = None, cfg_auth = None, cfg_sync = None, cfg_limits = None, cfg_webhooks = sample_webhooks\<rparr>"

theorem fire_destinations_witness:
  "fire sample_webhook_lib (\<lambda>_. None) (cfg_webhooks sample_config) VersionCreated ''dc-pizza'' ''Pizza'' None None =
     [\<lparr>dl_url = ''a'', dl_body = ''eventtimestampboard'', dl_secret = Some ''s''\<rparr>]"
proof -
  have ok: "validate_webhook_board_patterns sample_config = Inr ()" by code_simp
  show ?thesis unfolding fire_destinations [OF ok] by code_simp
qed

section \<open>How a delivery ends\<close>

definition settled :: "answer \<Rightarrow> bool" where
  "settled a \<longleftrightarrow> (case a of Status s \<Rightarrow> is_success s \<or> is_client_error s | Failed \<Rightarrow> False)"

definition outcome :: "answer \<Rightarrow> string" where
  "outcome a = (case a of
     Status s \<Rightarrow> if is_success s then ''success'' else if is_client_error s then ''client_error'' else ''retry_exhausted''
   | Failed \<Rightarrow> ''retry_exhausted'')"

lemma deliver_cases:
  "deliver W net d =
    (if settled (net 0) then [Send (delivery_request W d), Count (outcome (net 0))]
     else if settled (net 1) then
       [Send (delivery_request W d), Sleep 1, Send (delivery_request W d), Count (outcome (net 1))]
     else [Send (delivery_request W d), Sleep 1, Send (delivery_request W d), Sleep 5,
           Send (delivery_request W d), Count (outcome (net 2))])"
  by (auto simp: deliver_def delays_def settled_def outcome_def numeral_2_eq_2 split: answer.split)

definition sent :: "act list \<Rightarrow> http_request list" where
  "sent acts = concat (map (\<lambda>a. case a of Send r \<Rightarrow> [r] | _ \<Rightarrow> []) acts)"

definition slept :: "act list \<Rightarrow> nat" where
  "slept acts = sum_list (map (\<lambda>a. case a of Sleep n \<Rightarrow> n | _ \<Rightarrow> 0) acts)"

definition counted :: "act list \<Rightarrow> string list" where
  "counted acts = concat (map (\<lambda>a. case a of Count s \<Rightarrow> [s] | _ \<Rightarrow> []) acts)"

text \<open>
  C22: a delivery ends after at most three attempts. It sends the same signed request n times,
  where n is 1, 2 or 3; every attempt but the last was answered by neither success nor a client
  error; fewer than three attempts are made only when the last one was; the pauses add up to at
  most 6 seconds; and it counts exactly one outcome, that of the last answer.
\<close>

theorem deliver_ends:
  "\<exists>n \<in> {1, 2, 3}.
     sent (deliver W net d) = replicate n (delivery_request W d) \<and>
     (\<forall>i < n - 1. \<not> settled (net i)) \<and>
     (n = 3 \<or> settled (net (n - 1))) \<and>
     slept (deliver W net d) \<le> 6 \<and>
     counted (deliver W net d) = [outcome (net (n - 1))]"
proof (cases "settled (net 0)")
  case True
  then show ?thesis
    by (intro bexI [of _ 1]) (simp_all add: deliver_cases sent_def slept_def counted_def)
next
  case first: False
  show ?thesis
  proof (cases "settled (net 1)")
    case True
    with first show ?thesis
      by (intro bexI [of _ 2]) (simp_all add: deliver_cases sent_def slept_def counted_def numeral_2_eq_2)
  next
    case False
    with first show ?thesis
      by (intro bexI [of _ 3])
        (simp_all add: deliver_cases sent_def slept_def counted_def numeral_3_eq_3 numeral_2_eq_2 less_Suc_eq)
  qed
qed

theorem deliver_ends_witness:
  "\<exists>n \<in> {1, 2, 3}.
     length (sent (deliver sample_webhook_lib (\<lambda>i. if i = 0 then Status 503 else Status 404)
       \<lparr>dl_url = ''a'', dl_body = ''b'', dl_secret = None\<rparr>)) = n \<and> n \<le> 3"
  using deliver_ends [of sample_webhook_lib "\<lambda>i. if i = 0 then Status 503 else Status 404"
      "\<lparr>dl_url = ''a'', dl_body = ''b'', dl_secret = None\<rparr>"]
  by fastforce

end
