(* ===== verification/Auth.thy ===== *)
theory Auth
  imports Config "HOL-Library.AList"
begin

text \<open>
  \<open>auth.rs\<close>: the auth mode built from the configuration, the cache of signing keys, the
  validation of tokens, and the middleware in front of every route. HMAC, the decoding of JWTs,
  the construction of keys and the answer of the JWKS server are parameters.
\<close>

section \<open>Algorithms, keys and claims\<close>

text \<open>The algorithms of the jsonwebtoken crate.\<close>

datatype algorithm =
    HS256 | HS384 | HS512 | ES256 | ES384 | RS256 | RS384 | RS512 | PS256 | PS384 | PS512 | EdDSA

record jwk_entry =
  jwk_kid :: "string option"
  jwk_kty :: string
  jwk_alg :: "string option"
  jwk_n :: "string option"
  jwk_e :: "string option"
  jwk_crv :: "string option"
  jwk_x :: "string option"
  jwk_y :: "string option"

record claims =
  cl_sub :: "string option"
  cl_roles :: "string list option"

record jwt_header =
  jh_kid :: "string option"
  jh_alg :: algorithm

record validation =
  va_algorithm :: algorithm
  va_validate_exp :: bool
  va_validate_nbf :: bool
  va_validate_aud :: bool
  va_iss :: "string option"
  va_aud :: "string option"

text \<open>
  The libraries: HMAC-SHA256 of a token under the fixed key, the constructors of keys from the
  components of a JWK, and the decoding of a token at a time of the clock.
\<close>

record 'k jwt_lib =
  token_hmac :: "string \<Rightarrow> string"
  from_rsa_components :: "string \<Rightarrow> string \<Rightarrow> 'k option"
  from_ec_components :: "string \<Rightarrow> string \<Rightarrow> 'k option"
  from_ed_components :: "string \<Rightarrow> 'k option"
  decode_header :: "string \<Rightarrow> string + jwt_header"
  decode_token :: "nat \<Rightarrow> string \<Rightarrow> 'k \<Rightarrow> validation \<Rightarrow> string + claims"

text \<open>What starting up can fail with (\<open>anyhow::Error\<close>).\<close>

datatype anyhow = Core error | Bail message

text \<open>The UTF-8 bytes of the dash in two messages.\<close>

definition em_dash :: string where "em_dash = [CHR 0xE2, CHR 0x80, CHR 0x94]"

section \<open>Token hashes\<close>

definition hash_token :: "'k jwt_lib \<Rightarrow> string \<Rightarrow> string" where
  "hash_token J token = token_hmac J token"

definition verify_token :: "'k jwt_lib \<Rightarrow> string \<Rightarrow> string \<Rightarrow> bool" where
  "verify_token J incoming expected_hash \<longleftrightarrow> token_hmac J incoming = expected_hash"

definition is_read_token :: "'k jwt_lib \<Rightarrow> string \<Rightarrow> string list \<Rightarrow> bool" where
  "is_read_token J incoming read_token_hashes = list_ex (verify_token J incoming) read_token_hashes"

section \<open>The key cache\<close>

text \<open>Times are milliseconds of a monotonic clock.\<close>

record 'k jwks_cache =
  jc_url :: string
  jc_keys :: "(string \<times> ('k \<times> algorithm)) list"
  jc_last_refresh :: nat

definition JWKS_MAX_STALE_SECS :: nat where "JWKS_MAX_STALE_SECS = 7200"

definition parse_jwk :: "'k jwt_lib \<Rightarrow> jwk_entry \<Rightarrow> ('k \<times> algorithm) option" where
  "parse_jwk J jwk =
     (if jwk_kty jwk = ''RSA'' then
        Option.bind (jwk_n jwk) (\<lambda>n.
        Option.bind (jwk_e jwk) (\<lambda>e.
        Option.bind (from_rsa_components J n e) (\<lambda>key.
        if jwk_alg jwk \<in> {Some ''RS256'', None} then Some (key, RS256)
        else if jwk_alg jwk = Some ''RS384'' then Some (key, RS384)
        else if jwk_alg jwk = Some ''RS512'' then Some (key, RS512)
        else None)))
      else if jwk_kty jwk = ''EC'' then
        Option.bind (jwk_x jwk) (\<lambda>x.
        Option.bind (jwk_y jwk) (\<lambda>y.
        Option.bind (from_ec_components J x y) (\<lambda>key.
        if jwk_crv jwk = Some ''P-256'' then Some (key, ES256)
        else if jwk_crv jwk = Some ''P-384'' then Some (key, ES384)
        else if jwk_crv jwk = None then
          (if jwk_alg jwk = Some ''ES256'' then Some (key, ES256)
           else if jwk_alg jwk = Some ''ES384'' then Some (key, ES384)
           else None)
        else None)))
      else if jwk_kty jwk = ''OKP'' then
        Option.bind (jwk_x jwk) (\<lambda>x.
        Option.bind (from_ed_components J x) (\<lambda>key. Some (key, EdDSA)))
      else None)"

definition insert_jwk ::
    "'k jwt_lib \<Rightarrow> jwk_entry \<Rightarrow> (string \<times> ('k \<times> algorithm)) list \<Rightarrow> (string \<times> ('k \<times> algorithm)) list" where
  "insert_jwk J jwk new_keys =
     (case jwk_kid jwk of None \<Rightarrow> new_keys
      | Some kid \<Rightarrow>
          (case parse_jwk J jwk of None \<Rightarrow> new_keys
           | Some key_and_alg \<Rightarrow> AList.update kid key_and_alg new_keys))"

definition usable_keys :: "'k jwt_lib \<Rightarrow> jwk_entry list \<Rightarrow> (string \<times> ('k \<times> algorithm)) list" where
  "usable_keys J jwks = fold (insert_jwk J) jwks []"

text \<open>The answer to the GET on the JWKS url: the parsed key set, or the error of the request.\<close>

definition refresh ::
    "'k jwt_lib \<Rightarrow> nat \<Rightarrow> anyhow + jwk_entry list \<Rightarrow> 'k jwks_cache \<Rightarrow> anyhow + 'k jwks_cache" where
  "refresh J now response cache =
     rbind response (\<lambda>jwk_set.
     rbind (reject_if (usable_keys J jwk_set = [])
              (Bail [Lit ''JWKS refresh returned zero usable keys from '', Str (jc_url cache)])) (\<lambda>_.
     Inr (cache\<lparr>jc_keys := usable_keys J jwk_set, jc_last_refresh := now\<rparr>)))"

definition new_cache ::
    "'k jwt_lib \<Rightarrow> nat \<Rightarrow> anyhow + jwk_entry list \<Rightarrow> string \<Rightarrow> anyhow + 'k jwks_cache" where
  "new_cache J now response url =
     refresh J now response \<lparr>jc_url = url, jc_keys = [], jc_last_refresh = now\<rparr>"

definition get_key :: "nat \<Rightarrow> 'k jwks_cache \<Rightarrow> string \<Rightarrow> message + ('k \<times> algorithm) option" where
  "get_key now cache kid =
     (if JWKS_MAX_STALE_SECS < (now - jc_last_refresh cache) div 1000
      then Inl [Lit ''JWKS cache is stale '', Lit em_dash, Lit '' refresh has been failing'']
      else Inr (map_of (jc_keys cache) kid))"

text \<open>One turn of the background task: a refresh that fails is logged and changes nothing.\<close>

definition refresh_turn ::
    "'k jwt_lib \<Rightarrow> nat \<times> (anyhow + jwk_entry list) \<Rightarrow> 'k jwks_cache \<Rightarrow> 'k jwks_cache" where
  "refresh_turn J turn cache =
     (case refresh J (fst turn) (snd turn) cache of Inl _ \<Rightarrow> cache | Inr cache' \<Rightarrow> cache')"

definition refresh_task ::
    "'k jwt_lib \<Rightarrow> (nat \<times> (anyhow + jwk_entry list)) list \<Rightarrow> 'k jwks_cache \<Rightarrow> 'k jwks_cache" where
  "refresh_task J turns cache = fold (refresh_turn J) turns cache"

section \<open>The auth mode\<close>

datatype 'k auth_mode =
    NoAuth
  | Jwt "'k jwks_cache" "string option" "string option" "string option" "string list" bool
  | ApiToken string "string list" bool

definition effective_admin_token :: "auth_config \<Rightarrow> anyhow + config_value option" where
  "effective_admin_token auth =
     (case (au_admin_token auth, au_api_token auth) of
        (Some _, Some _) \<Rightarrow>
          Inl (Bail [Lit ''auth config: admin_token and api_token are mutually exclusive (api_token is a legacy alias for admin_token)''])
      | (Some t, None) \<Rightarrow> Inr (Some t)
      | (None, Some t) \<Rightarrow> Inr (Some t)
      | (None, None) \<Rightarrow> Inr None)"

definition resolve_token :: "'k jwt_lib \<Rightarrow> environment \<Rightarrow> config_value \<Rightarrow> anyhow + string" where
  "resolve_token J env t = rbind (map_err Core (resolve env t)) (\<lambda>resolved. Inr (hash_token J resolved))"

definition from_config ::
    "'k jwt_lib \<Rightarrow> environment \<Rightarrow> nat \<Rightarrow> (string \<Rightarrow> anyhow + jwk_entry list) \<Rightarrow> auth_config option \<Rightarrow>
     anyhow + 'k auth_mode" where
  "from_config J env now fetch config =
     (case config of None \<Rightarrow> Inr NoAuth | Some auth \<Rightarrow>
        rbind (effective_admin_token auth) (\<lambda>effective.
        rbind (map_result (resolve_token J env) (au_read_tokens auth)) (\<lambda>read_token_hashes.
        case (au_jwks_url auth, effective) of
          (Some _, Some _) \<Rightarrow>
            Inl (Bail [Lit ''auth config: jwks_url and admin_token/api_token are mutually exclusive''])
        | (Some url, None) \<Rightarrow>
            rbind (new_cache J now (fetch url) url) (\<lambda>cache.
            Inr (Jwt cache (au_required_role auth) (au_expected_issuer auth) (au_expected_audience auth)
                   read_token_hashes (au_require_read_auth auth)))
        | (None, Some token_val) \<Rightarrow>
            rbind (resolve_token J env token_val) (\<lambda>admin_hash.
            Inr (ApiToken admin_hash read_token_hashes (au_require_read_auth auth)))
        | (None, None) \<Rightarrow>
            rbind (reject_if (read_token_hashes \<noteq> [] \<or> au_require_read_auth auth \<or> au_required_role auth \<noteq> None)
              (Bail [Lit ''auth config: auth fields (read_tokens, require_read_auth, or required_role) set without admin_token or jwks_url '', Lit em_dash, Lit '' no auth mechanism is configured'']))
              (\<lambda>_. Inr NoAuth))))"

section \<open>Requests\<close>

datatype http_method = GET | HEAD | OPTIONS | POST | PUT | PATCH | DELETE | OtherMethod string

text \<open>The headers of a request, by lower-case name.\<close>

type_synonym headers = "(string \<times> string) list"

definition visible_ascii :: "char \<Rightarrow> bool" where
  "visible_ascii c \<longleftrightarrow> (32 \<le> (of_char c :: nat) \<and> (of_char c :: nat) < 127) \<or> of_char c = (9 :: nat)"

definition ascii_lower :: "char \<Rightarrow> char" where
  "ascii_lower c = (if 65 \<le> (of_char c :: nat) \<and> (of_char c :: nat) \<le> 90 then char_of (of_char c + 32 :: nat) else c)"

definition extract_bearer_from_headers :: "headers \<Rightarrow> string option" where
  "extract_bearer_from_headers hs =
     Option.bind (map_of hs ''authorization'') (\<lambda>val.
     if \<not> list_all visible_ascii val then None
     else if 7 < length val \<and> map ascii_lower (take 7 val) = ''bearer '' then Some (drop 7 val)
     else None)"

text \<open>An error response: its status and the message of its JSON body.\<close>

type_synonym error_response = "nat \<times> message"

definition auth_error :: "message \<Rightarrow> error_response" where
  "auth_error message = (401, message)"

definition validate_jwt ::
    "'k jwt_lib \<Rightarrow> nat \<Rightarrow> string \<Rightarrow> 'k jwks_cache \<Rightarrow> string option \<Rightarrow> string option \<Rightarrow> string option \<Rightarrow>
     error_response + unit" where
  "validate_jwt J now token cache role issuer audience =
     rbind (map_err (\<lambda>e. auth_error [Lit ''invalid JWT: '', Str e]) (decode_header J token)) (\<lambda>header.
     rbind (ok_or (jh_kid header) (auth_error [Lit ''JWT missing kid header''])) (\<lambda>kid.
     rbind (map_err auth_error (get_key now cache kid)) (\<lambda>found.
     rbind (ok_or found (auth_error [Lit ''unknown signing key''])) (\<lambda>(key, expected_alg).
     rbind (reject_if (jh_alg header \<noteq> expected_alg) (auth_error [Lit ''JWT algorithm mismatch''])) (\<lambda>_.
     rbind (map_err (\<lambda>e. auth_error [Lit ''JWT validation failed: '', Str e])
              (decode_token J now token key
                 \<lparr>va_algorithm = expected_alg, va_validate_exp = True, va_validate_nbf = True,
                  va_validate_aud = (audience \<noteq> None), va_iss = issuer, va_aud = audience\<rparr>)) (\<lambda>token_claims.
     case role of None \<Rightarrow> Inr ()
     | Some r \<Rightarrow>
         reject_if (\<not> (case cl_roles token_claims of None \<Rightarrow> False | Some roles \<Rightarrow> list_ex (\<lambda>x. x = r) roles))
           (auth_error [Lit ''insufficient permissions'']))))))) "

text \<open>The middleware: \<open>Inr ()\<close> is \<open>next.run(request)\<close>, the route gets the request.\<close>

definition is_read_method :: "http_method \<Rightarrow> bool" where
  "is_read_method m \<longleftrightarrow> m \<in> {GET, HEAD, OPTIONS}"

definition require_auth ::
    "'k jwt_lib \<Rightarrow> nat \<Rightarrow> 'k auth_mode \<Rightarrow> http_method \<Rightarrow> headers \<Rightarrow> error_response + unit" where
  "require_auth J now mode meth hs =
     (let is_read = is_read_method meth in
      case mode of
        NoAuth \<Rightarrow> Inr ()
      | ApiToken admin_hash read_hashes require_read \<Rightarrow>
          if is_read \<and> \<not> require_read then Inr ()
          else
            rbind (ok_or (extract_bearer_from_headers hs)
                     (auth_error [Lit ''missing or invalid Authorization header''])) (\<lambda>token.
            if verify_token J token admin_hash then Inr ()
            else if is_read \<and> is_read_token J token read_hashes then Inr ()
            else if \<not> is_read \<and> is_read_token J token read_hashes then
              Inl (auth_error [Lit ''read-only tokens cannot perform write operations''])
            else Inl (auth_error (if is_read then [Lit ''invalid API token'']
                                  else [Lit ''write operations require an admin token''])))
      | Jwt cache role issuer audience read_hashes require_read \<Rightarrow>
          if is_read \<and> \<not> require_read then Inr ()
          else
            rbind (ok_or (extract_bearer_from_headers hs)
                     (auth_error [Lit ''missing or invalid Authorization header''])) (\<lambda>token.
            if is_read \<and> is_read_token J token read_hashes then Inr ()
            else if \<not> is_read \<and> is_read_token J token read_hashes then
              Inl (auth_error [Lit ''read-only tokens cannot perform write operations''])
            else validate_jwt J now token cache (if is_read then None else role) issuer audience))"

definition has_write_auth :: "'k jwt_lib \<Rightarrow> nat \<Rightarrow> 'k auth_mode \<Rightarrow> headers \<Rightarrow> bool" where
  "has_write_auth J now mode hs =
     (case mode of
        NoAuth \<Rightarrow> True
      | ApiToken admin_hash _ _ \<Rightarrow>
          (case extract_bearer_from_headers hs of None \<Rightarrow> False | Some token \<Rightarrow> verify_token J token admin_hash)
      | Jwt cache role issuer audience _ _ \<Rightarrow>
          (case extract_bearer_from_headers hs of None \<Rightarrow> False
           | Some token \<Rightarrow> is_ok (validate_jwt J now token cache role issuer audience)))"

section \<open>What a configuration gives\<close>

lemma map_err_Inr [simp]: "map_err f m = Inr x \<longleftrightarrow> m = Inr x"
  by (auto simp: map_err_def split: sum.split)

lemma map_result_set:
  "map_result f xs = Inr ys \<Longrightarrow> x \<in> set xs \<Longrightarrow> \<exists>y \<in> set ys. f x = Inr y"
  by (induction xs arbitrary: ys) auto

lemma resolve_token_Inr: "resolve_token J env cv = Inr h \<longleftrightarrow> (\<exists>s. resolve env cv = Inr s \<and> h = token_hmac J s)"
  by (auto simp: resolve_token_def hash_token_def)

text \<open>The token with full access: \<open>admin_token\<close> or its alias \<open>api_token\<close>.\<close>

definition names_admin :: "auth_config \<Rightarrow> config_value \<Rightarrow> bool" where
  "names_admin auth cv \<longleftrightarrow> au_admin_token auth = Some cv \<or> au_api_token auth = Some cv"

lemma effective_admin: "effective_admin_token auth = Inr (Some cv) \<Longrightarrow> names_admin auth cv"
  by (auto simp: effective_admin_token_def names_admin_def split: option.splits)

lemma effective_named: "effective_admin_token auth = Inr x \<Longrightarrow> names_admin auth cv \<Longrightarrow> x = Some cv"
  by (auto simp: effective_admin_token_def names_admin_def split: option.splits)

lemma from_config_cases:
  assumes "from_config J env t0 fetch (Some auth) = Inr mode"
  obtains (jwt) url cache hashes where
      "au_jwks_url auth = Some url" "effective_admin_token auth = Inr None"
      "map_result (resolve_token J env) (au_read_tokens auth) = Inr hashes"
      "new_cache J t0 (fetch url) url = Inr cache"
      "mode = Jwt cache (au_required_role auth) (au_expected_issuer auth) (au_expected_audience auth) hashes (au_require_read_auth auth)"
  | (api) cv a hashes where
      "au_jwks_url auth = None" "effective_admin_token auth = Inr (Some cv)"
      "map_result (resolve_token J env) (au_read_tokens auth) = Inr hashes"
      "resolve env cv = Inr a" "mode = ApiToken (token_hmac J a) hashes (au_require_read_auth auth)"
  | (none) "au_jwks_url auth = None" "effective_admin_token auth = Inr None"
      "map_result (resolve_token J env) (au_read_tokens auth) = Inr []"
      "\<not> au_require_read_auth auth" "au_required_role auth = None" "mode = NoAuth"
proof -
  from assms obtain e hashes where e: "effective_admin_token auth = Inr e"
    and h: "map_result (resolve_token J env) (au_read_tokens auth) = Inr hashes"
    by (auto simp: from_config_def)
  show ?thesis
  proof (cases "au_jwks_url auth")
    case (Some url)
    with assms e h show ?thesis by (cases e) (auto simp: from_config_def intro: jwt)
  next
    case None
    with assms e h show ?thesis
      by (cases e) (auto simp: from_config_def resolve_token_Inr intro: api none)
  qed
qed

text \<open>
  C23: only the admin token writes. On a server configured with an admin token (or its alias),
  a request with a method other than GET, HEAD and OPTIONS reaches its handler exactly when its
  Authorization header carries that token; no other token has its HMAC.
\<close>

theorem admin_token_writes:
  assumes "from_config J env t0 fetch (Some auth) = Inr mode"
    and "names_admin auth cv" "resolve env cv = Inr admin"
    and "\<forall>t. token_hmac J t = token_hmac J admin \<longrightarrow> t = admin"
    and "\<not> is_read_method m"
  shows "require_auth J now mode m hs = Inr () \<longleftrightarrow> extract_bearer_from_headers hs = Some admin"
  using assms(1)
proof (cases rule: from_config_cases)
  case (api cv' a hashes)
  with effective_named [OF api(2) assms(2)] assms(3) have [simp]: "a = admin" by simp
  from api(5) assms(4,5) show ?thesis
    by (cases "extract_bearer_from_headers hs") (auto simp: require_auth_def verify_token_def Let_def)
qed (use effective_named [OF _ assms(2)] in auto)

lemma read_token_hashed:
  assumes "map_result (resolve_token J env) (au_read_tokens auth) = Inr hashes"
    and "cv \<in> set (au_read_tokens auth)" "resolve env cv = Inr r"
  shows "is_read_token J r hashes"
proof -
  obtain h where "h \<in> set hashes" "resolve_token J env cv = Inr h"
    using map_result_set [OF assms(1,2)] by blast
  with assms(3) show ?thesis
    by (auto simp: is_read_token_def list_ex_iff resolve_token_Inr verify_token_def)
qed

text \<open>
  C24: a read token reads and never writes. On a server with auth, a request that carries one of
  the configured read tokens (and not a token with the HMAC of the admin token) is let through
  when it reads and refused with the message for read-only tokens when it writes, whether the
  server checks API tokens or JWTs.
\<close>

theorem read_token_only_reads:
  assumes "from_config J env t0 fetch (Some auth) = Inr mode"
    and "cv \<in> set (au_read_tokens auth)" "resolve env cv = Inr r"
    and "extract_bearer_from_headers hs = Some r"
    and "\<forall>cv' a. names_admin auth cv' \<longrightarrow> resolve env cv' = Inr a \<longrightarrow> token_hmac J a \<noteq> token_hmac J r"
  shows "require_auth J now mode m hs =
    (if is_read_method m then Inr ()
     else Inl (auth_error [Lit ''read-only tokens cannot perform write operations'']))"
  using assms(1)
proof (cases rule: from_config_cases)
  case (jwt url cache hashes)
  with read_token_hashed [OF jwt(3) assms(2,3)] assms(4) show ?thesis
    by (simp add: require_auth_def Let_def)
next
  case (api cv' a hashes)
  from assms(5) effective_admin [OF api(2)] api(4) have "token_hmac J a \<noteq> token_hmac J r" by blast
  with api(5) read_token_hashed [OF api(3) assms(2,3)] assms(4) show ?thesis
    by (auto simp: require_auth_def verify_token_def Let_def)
next
  case none
  with assms(2) show ?thesis by (cases "au_read_tokens auth") auto
qed

section \<open>Reading a key of the cache\<close>

definition refreshes :: "'k jwt_lib \<Rightarrow> nat \<times> (anyhow + jwk_entry list) \<Rightarrow> bool" where
  "refreshes J turn = (case snd turn of Inl _ \<Rightarrow> False | Inr jwks \<Rightarrow> usable_keys J jwks \<noteq> [])"

lemma refresh_turn_eq:
  "refresh_turn J turn cache =
    (if refreshes J turn
     then cache\<lparr>jc_keys := usable_keys J (projr (snd turn)), jc_last_refresh := fst turn\<rparr> else cache)"
  by (auto simp: refresh_turn_def refresh_def refreshes_def reject_if_def split: sum.split)

text \<open>The cache is that of the last turn that refreshed it.\<close>

lemma refresh_task_last:
  assumes "refreshes J t0" "jc_keys cache = usable_keys J (projr (snd t0))" "jc_last_refresh cache = fst t0"
  shows "\<exists>pre turn post. t0 # turns = pre @ turn # post \<and> refreshes J turn \<and> list_all (\<lambda>t. \<not> refreshes J t) post \<and>
    jc_keys (refresh_task J turns cache) = usable_keys J (projr (snd turn)) \<and>
    jc_last_refresh (refresh_task J turns cache) = fst turn"
proof (induction turns rule: rev_induct)
  case Nil
  from assms show ?case
    by (intro exI [of _ "[]"] exI [of _ t0] exI [of _ "[]"]) (simp add: refresh_task_def)
next
  case (snoc x xs)
  show ?case
  proof (cases "refreshes J x")
    case True
    then show ?thesis
      by (intro exI [of _ "t0 # xs"] exI [of _ x] exI [of _ "[]"]) (simp add: refresh_task_def refresh_turn_eq)
  next
    case False
    from snoc obtain pre turn post where
      p: "t0 # xs = pre @ turn # post" "refreshes J turn" "list_all (\<lambda>t. \<not> refreshes J t) post"
        "jc_keys (refresh_task J xs cache) = usable_keys J (projr (snd turn))"
        "jc_last_refresh (refresh_task J xs cache) = fst turn" by blast
    from False p(2-5) have "refreshes J turn \<and> list_all (\<lambda>t. \<not> refreshes J t) (post @ [x]) \<and>
      jc_keys (refresh_task J (xs @ [x]) cache) = usable_keys J (projr (snd turn)) \<and>
      jc_last_refresh (refresh_task J (xs @ [x]) cache) = fst turn"
      by (simp add: refresh_task_def refresh_turn_eq)
    moreover from p(1) have "t0 # xs @ [x] = pre @ turn # post @ [x]" by simp
    ultimately show ?thesis by blast
  qed
qed

text \<open>
  The verification itself: the library's check of the signature and of the claims, for the
  algorithm of the key, the expiry and the dates, the issuer and the audience configured.
\<close>

definition expected_validation :: "algorithm \<Rightarrow> string option \<Rightarrow> string option \<Rightarrow> validation" where
  "expected_validation alg issuer audience =
     \<lparr>va_algorithm = alg, va_validate_exp = True, va_validate_nbf = True,
      va_validate_aud = (audience \<noteq> None), va_iss = issuer, va_aud = audience\<rparr>"

definition has_role :: "string option \<Rightarrow> claims \<Rightarrow> bool" where
  "has_role role cl \<longleftrightarrow> (\<forall>r. role = Some r \<longrightarrow> (\<exists>rs. cl_roles cl = Some rs \<and> r \<in> set rs))"

lemma role_checked:
  "(case role of None \<Rightarrow> Inr ()
    | Some r \<Rightarrow> reject_if (\<not> (case cl_roles cl of None \<Rightarrow> False | Some roles \<Rightarrow> list_ex (\<lambda>x. x = r) roles)) e) =
   (if has_role role cl then Inr () else Inl e)"
  by (auto simp: has_role_def reject_if_def list_ex_iff split: option.split)

lemma validate_jwt_Inr:
  "validate_jwt J now token cache role issuer audience = Inr () \<longleftrightarrow>
    (\<exists>header kid key cl.
      decode_header J token = Inr header \<and> jh_kid header = Some kid \<and>
      map_of (jc_keys cache) kid = Some (key, jh_alg header) \<and>
      (now - jc_last_refresh cache) div 1000 \<le> JWKS_MAX_STALE_SECS \<and>
      decode_token J now token key (expected_validation (jh_alg header) issuer audience) = Inr cl \<and>
      has_role role cl)"
  unfolding validate_jwt_def role_checked
  by (auto simp: get_key_def expected_validation_def split: if_splits)

lemma split_at_last:
  assumes "pre @ x # post = pre' @ y # post'" "P x" "P y"
    "list_all (\<lambda>t. \<not> P t) post" "list_all (\<lambda>t. \<not> P t) post'"
  shows "pre = pre' \<and> x = y"
proof -
  have d: "dropWhile (\<lambda>t. \<not> P t) (rev (ps @ z # qs)) = z # rev ps"
    if "P z" "list_all (\<lambda>t. \<not> P t) qs" for ps z qs
  proof -
    have "dropWhile (\<lambda>t. \<not> P t) (rev qs @ z # rev ps) = dropWhile (\<lambda>t. \<not> P t) (z # rev ps)"
      by (rule dropWhile_append2) (use that(2) in \<open>simp add: list_all_iff\<close>)
    with that(1) show ?thesis by simp
  qed
  from d [OF assms(2,4), of pre] d [OF assms(3,5), of pre'] assms(1) show ?thesis by simp
qed

lemma new_cache_Inr:
  assumes "new_cache J t0 response url = Inr cache"
  shows "refreshes J (t0, response)" "jc_keys cache = usable_keys J (projr response)" "jc_last_refresh cache = t0"
  using assms by (auto simp: new_cache_def refresh_def refreshes_def)

text \<open>
  C25: a JWT is accepted exactly when it is verified with a fresh key. However the refreshes of
  the background task went, a token is accepted if and only if its \<open>kid\<close> names a key of the last
  response that gave usable keys, the algorithm of its header is the one of that key, the token
  decodes with that very key under the algorithm, the issuer and the audience expected and with
  its dates checked, its claims hold the role asked for, if one is, and that response came less
  than 7201 seconds ago: a forged token is refused whether or not a role is asked for, and when
  the refreshes keep failing the server refuses every JWT.
\<close>

theorem jwt_needs_fresh_key:
  assumes "new_cache J t0 response url = Inr cache"
  shows "validate_jwt J now token (refresh_task J turns cache) role issuer audience = Inr () \<longleftrightarrow>
    (\<exists>pre t jwks post header kid key cl.
      (t0, response) # turns = pre @ (t, Inr jwks) # post \<and> list_all (\<lambda>turn. \<not> refreshes J turn) post \<and>
      decode_header J token = Inr header \<and> jh_kid header = Some kid \<and>
      map_of (usable_keys J jwks) kid = Some (key, jh_alg header) \<and>
      decode_token J now token key (expected_validation (jh_alg header) issuer audience) = Inr cl \<and>
      has_role role cl \<and> now < t + 7201 * 1000)"
    (is "?accepted \<longleftrightarrow> ?verified")
proof -
  from refresh_task_last [of J "(t0, response)" cache turns] new_cache_Inr [OF assms]
  obtain pre turn post where l: "(t0, response) # turns = pre @ turn # post" "refreshes J turn"
    "list_all (\<lambda>t. \<not> refreshes J t) post"
    "jc_keys (refresh_task J turns cache) = usable_keys J (projr (snd turn))"
    "jc_last_refresh (refresh_task J turns cache) = fst turn" by auto
  obtain t jwks where t: "turn = (t, Inr jwks)"
    using l(2) by (cases turn; cases "snd turn") (auto simp: refreshes_def)
  have age: "(now - t) div 1000 \<le> JWKS_MAX_STALE_SECS \<longleftrightarrow> now < t + 7201 * 1000"
    by (auto simp: JWKS_MAX_STALE_SECS_def)
  have key: "pre' = pre \<and> t' = t \<and> jwks' = jwks"
    if "(t0, response) # turns = pre' @ (t', Inr jwks') # post'" "list_all (\<lambda>turn. \<not> refreshes J turn) post'"
      "map_of (usable_keys J jwks') kid = Some k" for pre' t' jwks' post' kid k
  proof -
    from that(3) have "refreshes J (t', Inr jwks')" by (auto simp: refreshes_def)
    from split_at_last [of pre' "(t', Inr jwks')" post' pre turn post "refreshes J"] this that(1,2) l(1-3) t
    show ?thesis by simp
  qed
  show ?thesis
  proof
    assume ?accepted
    with l(1,3-5) t age show ?verified by (simp add: validate_jwt_Inr) blast
  next
    assume ?verified
    then obtain pre' t' jwks' post' header kid k cl where v:
      "(t0, response) # turns = pre' @ (t', Inr jwks') # post'" "list_all (\<lambda>turn. \<not> refreshes J turn) post'"
      "decode_header J token = Inr header" "jh_kid header = Some kid"
      "map_of (usable_keys J jwks') kid = Some (k, jh_alg header)"
      "decode_token J now token k (expected_validation (jh_alg header) issuer audience) = Inr cl"
      "has_role role cl" "now < t' + 7201 * 1000" by blast
    from key [OF v(1,2,5)] v l(4,5) t age show ?accepted by (simp add: validate_jwt_Inr)
  qed
qed

text \<open>The token of a request is a read token of a server that checks JWTs.\<close>

definition carries_read_token :: "'k jwt_lib \<Rightarrow> 'k auth_mode \<Rightarrow> headers \<Rightarrow> bool" where
  "carries_read_token J mode hs =
     (case mode of
        Jwt _ _ _ _ hashes _ \<Rightarrow>
          (case extract_bearer_from_headers hs of None \<Rightarrow> False | Some t \<Rightarrow> is_read_token J t hashes)
      | _ \<Rightarrow> False)"

text \<open>
  A WebSocket client may submit scores exactly when it may write over HTTP. The check made
  at the upgrade agrees with what the middleware decides for a write with the same headers at
  that moment, but for a read token of a JWT server, which the middleware refuses before it
  looks at it as a JWT.
\<close>

theorem websocket_writes_as_http:
  assumes "\<not> is_read_method m"
  shows "require_auth J now mode m hs = Inr () \<longleftrightarrow>
    has_write_auth J now mode hs \<and> \<not> carries_read_token J mode hs"
  using assms
  by (auto simp: require_auth_def has_write_auth_def carries_read_token_def Let_def is_ok_iff
      split: auth_mode.split option.split)

section \<open>Instances\<close>

text \<open>A server with one read token, and one that checks JWTs signed with one RSA key.\<close>

definition sample_jwt_lib :: "string jwt_lib" where
  "sample_jwt_lib =
     \<lparr>token_hmac = rev, from_rsa_components = (\<lambda>n e. Some n), from_ec_components = (\<lambda>x y. None),
      from_ed_components = (\<lambda>x. None),
      decode_header = (\<lambda>t. if t = ''jwt'' \<or> t = ''forged'' then Inr \<lparr>jh_kid = Some ''k'', jh_alg = RS256\<rparr> else Inl ''bad''),
      decode_token = (\<lambda>now t key v. if t = ''jwt'' \<and> key = ''n'' then Inr \<lparr>cl_sub = None, cl_roles = Some [''writer'']\<rparr>
        else Inl ''InvalidSignature'')\<rparr>"

definition sample_auth :: auth_config where
  "sample_auth =
     \<lparr>au_jwks_url = None, au_required_role = None, au_expected_issuer = None, au_expected_audience = None,
      au_admin_token = Some (ConfigValue ''root''), au_api_token = None,
      au_read_tokens = [ConfigValue ''reader''], au_require_read_auth = True\<rparr>"

definition sample_jwk :: jwk_entry where
  "sample_jwk =
     \<lparr>jwk_kid = Some ''k'', jwk_kty = ''RSA'', jwk_alg = None, jwk_n = Some ''n'', jwk_e = Some ''e'',
      jwk_crv = None, jwk_x = None, jwk_y = None\<rparr>"

definition sample_fetch :: "string \<Rightarrow> anyhow + jwk_entry list" where
  "sample_fetch url = Inr [sample_jwk]"

lemma sample_api_mode:
  "from_config sample_jwt_lib (\<lambda>_. None) 0 sample_fetch (Some sample_auth) = Inr (ApiToken ''toor'' [''redaer''] True)"
  by code_simp

lemma sample_bearer: "extract_bearer_from_headers [(''authorization'', ''Bearer root'')] = Some ''root''"
  "extract_bearer_from_headers [(''authorization'', ''Bearer reader'')] = Some ''reader''"
  "extract_bearer_from_headers [(''authorization'', ''bearer jwt'')] = Some ''jwt''"
  by code_simp+

lemma sample_no_collision: "\<forall>t. token_hmac sample_jwt_lib t = token_hmac sample_jwt_lib s \<longrightarrow> t = s"
  by (simp add: sample_jwt_lib_def)

theorem admin_token_writes_witness:
  "require_auth sample_jwt_lib 0 (ApiToken ''toor'' [''redaer''] True) POST [(''authorization'', ''Bearer root'')] = Inr ()"
  using admin_token_writes [OF sample_api_mode _ _ sample_no_collision,
      of "ConfigValue ''root''" "''root''" POST 0 "[(''authorization'', ''Bearer root'')]"]
  by (simp add: sample_bearer names_admin_def sample_auth_def is_read_method_def strip_prefix_def)

theorem read_token_only_reads_witness:
  "require_auth sample_jwt_lib 0 (ApiToken ''toor'' [''redaer''] True) DELETE [(''authorization'', ''Bearer reader'')] =
     Inl (auth_error [Lit ''read-only tokens cannot perform write operations''])"
  using read_token_only_reads [OF sample_api_mode, of "ConfigValue ''reader''" "''reader''"
      "[(''authorization'', ''Bearer reader'')]" 0 DELETE]
  by (simp add: sample_bearer names_admin_def sample_auth_def is_read_method_def strip_prefix_def sample_jwt_lib_def)

lemma sample_cache: "new_cache sample_jwt_lib 0 (sample_fetch ''u'') ''u'' =
    Inr \<lparr>jc_url = ''u'', jc_keys = [(''k'', (''n'', RS256))], jc_last_refresh = 0\<rparr>"
  by code_simp

lemma sample_usable: "usable_keys sample_jwt_lib [sample_jwk] = [(''k'', (''n'', RS256))]"
  by code_simp

lemma sample_token:
  "decode_header sample_jwt_lib ''jwt'' = Inr \<lparr>jh_kid = Some ''k'', jh_alg = RS256\<rparr>"
  "decode_token sample_jwt_lib now ''jwt'' ''n'' v = Inr \<lparr>cl_sub = None, cl_roles = Some [''writer'']\<rparr>"
  "decode_token sample_jwt_lib now ''forged'' key v = Inl ''InvalidSignature''"
  by (simp_all add: sample_jwt_lib_def)

text \<open>
  The key set came at the start; the refresh an hour later failed. The token signed with the key
  passes, the same token signed with another one does not, though no role is asked for, and two
  hours and a minute after the start it is refused too.
\<close>

theorem jwt_needs_fresh_key_witness:
  "let cache = refresh_task sample_jwt_lib [(3600000, Inl (Bail []))]
       \<lparr>jc_url = ''u'', jc_keys = [(''k'', (''n'', RS256))], jc_last_refresh = 0\<rparr>
   in validate_jwt sample_jwt_lib 3700000 ''jwt'' cache (Some ''writer'') None None = Inr () \<and>
      validate_jwt sample_jwt_lib 3700000 ''forged'' cache None None None \<noteq> Inr () \<and>
      validate_jwt sample_jwt_lib 7260000 ''jwt'' cache (Some ''writer'') None None \<noteq> Inr ()"
  unfolding Let_def jwt_needs_fresh_key [OF sample_cache]
  by (auto simp: Cons_eq_append_conv sample_fetch_def refreshes_def sample_usable sample_token has_role_def)

theorem websocket_writes_as_http_witness:
  "has_write_auth sample_jwt_lib 0 (ApiToken ''toor'' [''redaer''] True) [(''authorization'', ''Bearer root'')] =
   is_ok (require_auth sample_jwt_lib 0 (ApiToken ''toor'' [''redaer''] True) PUT [(''authorization'', ''Bearer root'')])"
  using websocket_writes_as_http [of PUT sample_jwt_lib 0 "ApiToken ''toor'' [''redaer''] True"
      "[(''authorization'', ''Bearer root'')]"]
  by (auto simp: is_ok_iff is_read_method_def carries_read_token_def)

end
