(* ===== verification/Event_Bus.thy ===== *)
theory Event_Bus
  imports Schema "HOL-Library.AList"
begin

text \<open>
  \<open>sse.rs\<close>: the registry of broadcast channels behind the live streams. Every operation is
  composed of the pieces the code runs atomically (one atomic counter operation, or one critical
  section of a lock), so that the same pieces give both the operations and the step relation in
  which the tasks of the server interleave.
\<close>

section \<open>Events\<close>

datatype board_event =
    VersionEvent i32 "string option"
  | ScoreEvent string string f64

fun event_type :: "board_event \<Rightarrow> string" where
  "event_type (VersionEvent _ _) = ''version.created''"
| "event_type (ScoreEvent _ _ _) = ''score.updated''"

definition float_json :: "f64 \<Rightarrow> json" where
  "float_json x = (if f64_is_finite x then JFloat x else JNull)"

definition json_opt_string :: "string option \<Rightarrow> json" where
  "json_opt_string x = (case x of None \<Rightarrow> JNull | Some s \<Rightarrow> JString s)"

definition board_event_json :: "board_event \<Rightarrow> json" where
  "board_event_json e =
     JObject ((''type'', JString (event_type e)) #
       (case e of
          VersionEvent n note \<Rightarrow> [(''version_number'', JInt n), (''note'', json_opt_string note)]
        | ScoreEvent slug name score \<Rightarrow>
            [(''entry_slug'', JString slug), (''entry_name'', JString name), (''score'', float_json score)]))"

section \<open>Broadcast channels\<close>

text \<open>
  tokio's broadcast channel is a parameter: a new channel, \<open>subscribe\<close>, \<open>send\<close>,
  \<open>receiver_count\<close>, the drop of a receiver; \<open>receivers\<close> are the receivers that exist and
  \<open>offered\<close> lists the values sent while a receiver existed, in order (one that lags behind by
  more than the buffer misses the oldest of them). The laws are those of its documentation.
\<close>

record ('c, 'r) chan_lib =
  new_channel :: "nat \<Rightarrow> 'c"
  chan_subscribe :: "'c \<Rightarrow> 'r \<times> 'c"
  chan_send :: "board_event \<Rightarrow> 'c \<Rightarrow> 'c"
  receiver_count :: "'c \<Rightarrow> nat"
  chan_drop :: "'r \<Rightarrow> 'c \<Rightarrow> 'c"
  receivers :: "'c \<Rightarrow> 'r set"
  offered :: "'c \<Rightarrow> 'r \<Rightarrow> board_event list"

definition chan_ok :: "('c, 'r) chan_lib \<Rightarrow> bool" where
  "chan_ok C \<longleftrightarrow>
     (\<forall>n. receivers C (new_channel C n) = {}) \<and>
     (\<forall>c r c'. chan_subscribe C c = (r, c') \<longrightarrow>
        r \<notin> receivers C c \<and> receivers C c' = insert r (receivers C c) \<and> offered C c' r = [] \<and>
        (\<forall>r' \<in> receivers C c. offered C c' r' = offered C c r')) \<and>
     (\<forall>e c. receivers C (chan_send C e c) = receivers C c \<and>
        (\<forall>r \<in> receivers C c. offered C (chan_send C e c) r = offered C c r @ [e])) \<and>
     (\<forall>r c. receivers C (chan_drop C r c) = receivers C c - {r} \<and>
        (\<forall>r' \<in> receivers C c - {r}. offered C (chan_drop C r c) r' = offered C c r')) \<and>
     (\<forall>c. receiver_count C c = 0 \<longleftrightarrow> receivers C c = {})"

lemma chan_laws:
  assumes "chan_ok C"
  shows "receivers C (new_channel C n) = {}"
    and "chan_subscribe C c = (r, c') \<Longrightarrow> r \<notin> receivers C c"
    and "chan_subscribe C c = (r, c') \<Longrightarrow> receivers C c' = insert r (receivers C c)"
    and "receivers C (chan_send C e c) = receivers C c"
    and "r \<in> receivers C c \<Longrightarrow> offered C (chan_send C e c) r = offered C c r @ [e]"
    and "receivers C (chan_drop C r c) = receivers C c - {r}"
    and "receiver_count C c = 0 \<longleftrightarrow> receivers C c = {}"
proof -
  note new = assms [unfolded chan_ok_def, THEN conjunct1]
    and sub = assms [unfolded chan_ok_def, THEN conjunct2, THEN conjunct1]
    and snd = assms [unfolded chan_ok_def, THEN conjunct2, THEN conjunct2, THEN conjunct1]
    and drp = assms [unfolded chan_ok_def, THEN conjunct2, THEN conjunct2, THEN conjunct2, THEN conjunct1]
    and cnt = assms [unfolded chan_ok_def, THEN conjunct2, THEN conjunct2, THEN conjunct2, THEN conjunct2]
  show "receivers C (new_channel C n) = {}" using new by (rule spec)
  show "r \<notin> receivers C c" "receivers C c' = insert r (receivers C c)" if "chan_subscribe C c = (r, c')"
    using sub [rule_format, OF that] by blast+
  show "receivers C (chan_send C e c) = receivers C c" using snd by blast
  show "offered C (chan_send C e c) r = offered C c r @ [e]" if "r \<in> receivers C c"
    using snd that by blast
  show "receivers C (chan_drop C r c) = receivers C c - {r}" using drp by blast
  show "receiver_count C c = 0 \<longleftrightarrow> receivers C c = {}" using cnt by (rule spec)
qed

section \<open>The bus\<close>

text \<open>Times are milliseconds of a monotonic clock.\<close>

record 'c event_bus =
  eb_channels :: "(string \<times> 'c) list"
  eb_active :: nat
  eb_max :: nat
  eb_buffer :: nat
  eb_debounce_ms :: nat
  eb_last_score :: "(string \<times> nat) list"

definition new_bus :: "nat \<Rightarrow> nat \<Rightarrow> nat \<Rightarrow> 'c event_bus" where
  "new_bus max_connections debounce_ms broadcast_buffer =
     \<lparr>eb_channels = [], eb_active = 0, eb_max = max_connections, eb_buffer = broadcast_buffer,
      eb_debounce_ms = debounce_ms, eb_last_score = []\<rparr>"

text \<open>\<open>fetch_add\<close> gives the value before; \<open>fetch_sub\<close> is also the drop of a guard.\<close>

definition reserve :: "'c event_bus \<Rightarrow> nat \<times> 'c event_bus" where
  "reserve b = (eb_active b, b\<lparr>eb_active := eb_active b + 1\<rparr>)"

definition release :: "'c event_bus \<Rightarrow> 'c event_bus" where
  "release b = b\<lparr>eb_active := eb_active b - 1\<rparr>"

text \<open>The critical section of \<open>subscribe\<close>.\<close>

definition attach :: "('c, 'r) chan_lib \<Rightarrow> string \<Rightarrow> 'c event_bus \<Rightarrow> 'r \<times> 'c event_bus" where
  "attach C slug b =
     (let tx = unwrap_or (map_of (eb_channels b) slug) (new_channel C (eb_buffer b));
          (rx, tx') = chan_subscribe C tx
      in (rx, b\<lparr>eb_channels := AList.update slug tx' (eb_channels b)\<rparr>))"

definition subscribe :: "('c, 'r) chan_lib \<Rightarrow> string \<Rightarrow> 'c event_bus \<Rightarrow> 'r result \<times> 'c event_bus" where
  "subscribe C slug b =
     (let (prev, b1) = reserve b in
      if eb_max b \<le> prev then (Inl (ServiceUnavailable [Lit ''streaming connection limit reached'']), release b1)
      else let (rx, b2) = attach C slug b1 in (Inr rx, b2))"

definition prune_channel :: "('c, 'r) chan_lib \<Rightarrow> string \<Rightarrow> 'c event_bus \<Rightarrow> 'c event_bus" where
  "prune_channel C slug b =
     (case map_of (eb_channels b) slug of
        Some tx \<Rightarrow>
          if receiver_count C tx = 0
          then b\<lparr>eb_channels := AList.delete slug (eb_channels b),
                 eb_last_score := AList.delete slug (eb_last_score b)\<rparr>
          else b
      | None \<Rightarrow> b)"

text \<open>The critical sections of the two publishing operations: whether to prune, and the bus.\<close>

definition send_version ::
    "('c, 'r) chan_lib \<Rightarrow> string \<Rightarrow> i32 \<Rightarrow> string option \<Rightarrow> 'c event_bus \<Rightarrow> bool \<times> 'c event_bus" where
  "send_version C slug version_number note b =
     (case map_of (eb_channels b) slug of
        Some tx \<Rightarrow>
          (let tx' = chan_send C (VersionEvent version_number note) tx in
           (receiver_count C tx' = 0, b\<lparr>eb_channels := AList.update slug tx' (eb_channels b)\<rparr>))
      | None \<Rightarrow> (False, b))"

definition publish_version ::
    "('c, 'r) chan_lib \<Rightarrow> string \<Rightarrow> i32 \<Rightarrow> string option \<Rightarrow> 'c event_bus \<Rightarrow> 'c event_bus" where
  "publish_version C slug version_number note b =
     (let (should_prune, b1) = send_version C slug version_number note b in
      if should_prune then prune_channel C slug b1 else b1)"

datatype score_sent = NoChannel | Debounced | Sent bool

definition send_score ::
    "('c, 'r) chan_lib \<Rightarrow> nat \<Rightarrow> string \<Rightarrow> string \<Rightarrow> string \<Rightarrow> f64 \<Rightarrow> 'c event_bus \<Rightarrow>
     score_sent \<times> 'c event_bus" where
  "send_score C now slug entry_slug entry_name score b =
     (case map_of (eb_channels b) slug of
        None \<Rightarrow> (NoChannel, b)
      | Some tx \<Rightarrow>
          if 0 < eb_debounce_ms b \<and>
             (case map_of (eb_last_score b) slug of None \<Rightarrow> False | Some t \<Rightarrow> now - t < eb_debounce_ms b)
          then (Debounced, b)
          else
            (let b1 = (if 0 < eb_debounce_ms b
                       then b\<lparr>eb_last_score := AList.update slug now (eb_last_score b)\<rparr> else b);
                 tx' = chan_send C (ScoreEvent entry_slug entry_name score) tx
             in (Sent (receiver_count C tx' = 0), b1\<lparr>eb_channels := AList.update slug tx' (eb_channels b1)\<rparr>)))"

definition publish_score ::
    "('c, 'r) chan_lib \<Rightarrow> nat \<Rightarrow> string \<Rightarrow> string \<Rightarrow> string \<Rightarrow> f64 \<Rightarrow> 'c event_bus \<Rightarrow>
     bool \<times> 'c event_bus" where
  "publish_score C now slug entry_slug entry_name score b =
     (let (sent, b1) = send_score C now slug entry_slug entry_name score b in
      case sent of
        NoChannel \<Rightarrow> (True, b1)
      | Debounced \<Rightarrow> (False, b1)
      | Sent should_prune \<Rightarrow> (True, if should_prune then prune_channel C slug b1 else b1))"

definition channel_count :: "'c event_bus \<Rightarrow> nat" where
  "channel_count b = length (eb_channels b)"

text \<open>The receiver of a stream is dropped: tokio removes it from its channel.\<close>

definition drop_receiver :: "('c, 'r) chan_lib \<Rightarrow> string \<Rightarrow> 'r \<Rightarrow> 'c event_bus \<Rightarrow> 'c event_bus" where
  "drop_receiver C slug rx b =
     (case map_of (eb_channels b) slug of
        None \<Rightarrow> b
      | Some tx \<Rightarrow> b\<lparr>eb_channels := AList.update slug (chan_drop C rx tx) (eb_channels b)\<rparr>)"

section \<open>The tasks of the server\<close>

text \<open>
  The bus with the tasks that use it: subscribers that found the bus full and have still to undo
  their reservation, subscribers with a slot that have no receiver yet, the open streams, streams
  that have dropped their receiver and still hold their guard, and publishers that have decided to
  prune a channel.
\<close>

record ('c, 'r) server =
  bus :: "'c event_bus"
  undoing :: nat
  waiting :: "string list"
  live :: "(string \<times> 'r) list"
  closing :: nat
  pruning :: "string list"

inductive server_step :: "('c, 'r) chan_lib \<Rightarrow> ('c, 'r) server \<Rightarrow> ('c, 'r) server \<Rightarrow> bool" for C where
  slot: "reserve (bus s) = (prev, b) \<Longrightarrow> prev < eb_max (bus s) \<Longrightarrow>
    server_step C s (s\<lparr>bus := b, waiting := slug # waiting s\<rparr>)"
| full: "reserve (bus s) = (prev, b) \<Longrightarrow> eb_max (bus s) \<le> prev \<Longrightarrow>
    server_step C s (s\<lparr>bus := b, undoing := Suc (undoing s)\<rparr>)"
| undo: "undoing s = Suc n \<Longrightarrow> server_step C s (s\<lparr>bus := release (bus s), undoing := n\<rparr>)"
| attach: "slug \<in> set (waiting s) \<Longrightarrow> attach C slug (bus s) = (rx, b) \<Longrightarrow>
    server_step C s (s\<lparr>bus := b, waiting := remove1 slug (waiting s), live := (slug, rx) # live s\<rparr>)"
| drop: "(slug, rx) \<in> set (live s) \<Longrightarrow>
    server_step C s (s\<lparr>bus := drop_receiver C slug rx (bus s), live := remove1 (slug, rx) (live s),
                      closing := Suc (closing s)\<rparr>)"
| guard: "closing s = Suc n \<Longrightarrow> server_step C s (s\<lparr>bus := release (bus s), closing := n\<rparr>)"
| version: "send_version C slug version_number note (bus s) = (should_prune, b) \<Longrightarrow>
    server_step C s (s\<lparr>bus := b, pruning := (if should_prune then [slug] else []) @ pruning s\<rparr>)"
| score: "send_score C now slug entry_slug entry_name x (bus s) = (sent, b) \<Longrightarrow>
    server_step C s (s\<lparr>bus := b, pruning := (if sent = Sent True then [slug] else []) @ pruning s\<rparr>)"
| prune: "slug \<in> set (pruning s) \<Longrightarrow>
    server_step C s (s\<lparr>bus := prune_channel C slug (bus s), pruning := remove1 slug (pruning s)\<rparr>)"

definition start_server :: "nat \<Rightarrow> nat \<Rightarrow> nat \<Rightarrow> ('c, 'r) server" where
  "start_server max_connections debounce_ms broadcast_buffer =
     \<lparr>bus = new_bus max_connections debounce_ms broadcast_buffer, undoing = 0, waiting = [], live = [],
      closing = 0, pruning = []\<rparr>"

inductive reachable :: "('c, 'r) chan_lib \<Rightarrow> nat \<Rightarrow> ('c, 'r) server \<Rightarrow> bool" for C m where
  init: "reachable C m (start_server m debounce_ms broadcast_buffer)"
| step: "reachable C m s \<Longrightarrow> server_step C s s' \<Longrightarrow> reachable C m s'"

inductive_cases server_stepE: "server_step C s s'"

section \<open>What the operations do to the receivers and the counter\<close>

definition registered :: "('c, 'r) chan_lib \<Rightarrow> 'c event_bus \<Rightarrow> string \<Rightarrow> 'r set" where
  "registered C b slug = (case map_of (eb_channels b) slug of None \<Rightarrow> {} | Some c \<Rightarrow> receivers C c)"

named_theorems bus_effects \<open>what an operation does to the counter and the receivers\<close>

lemma reserve_effects [bus_effects]:
  assumes "reserve b = (prev, b')"
  shows "prev = eb_active b" "eb_active b' = Suc (eb_active b)" "eb_max b' = eb_max b"
    "registered C b' = registered C b"
  using assms by (auto simp: reserve_def registered_def fun_eq_iff)

lemma release_effects [bus_effects]:
  "eb_active (release b) = eb_active b - 1" "eb_max (release b) = eb_max b"
  "registered C (release b) = registered C b"
  by (auto simp: release_def registered_def fun_eq_iff)

lemma attach_effects [bus_effects]:
  assumes "chan_ok C" "attach C slug b = (rx, b')"
  shows "eb_active b' = eb_active b" "eb_max b' = eb_max b" "rx \<notin> registered C b slug"
    "registered C b' = (registered C b)(slug := insert rx (registered C b slug))"
proof -
  define tx where "tx = unwrap_or (map_of (eb_channels b) slug) (new_channel C (eb_buffer b))"
  from assms(2) obtain tx' where t: "chan_subscribe C tx = (rx, tx')"
    "b' = b\<lparr>eb_channels := AList.update slug tx' (eb_channels b)\<rparr>"
    unfolding attach_def Let_def tx_def [symmetric] by (auto split: prod.splits)
  have r: "registered C b slug = receivers C tx"
    by (auto simp: registered_def tx_def unwrap_or_def chan_laws(1) [OF assms(1)] split: option.split)
  show "eb_active b' = eb_active b" "eb_max b' = eb_max b" using t(2) by simp_all
  show "rx \<notin> registered C b slug" using chan_laws(2) [OF assms(1) t(1)] r by simp
  show "registered C b' = (registered C b)(slug := insert rx (registered C b slug))"
    using chan_laws(3) [OF assms(1) t(1)] r t(2) by (auto simp: registered_def update_conv' fun_eq_iff)
qed

lemma prune_effects [bus_effects]:
  assumes "chan_ok C"
  shows "eb_active (prune_channel C slug b) = eb_active b" "eb_max (prune_channel C slug b) = eb_max b"
    "registered C (prune_channel C slug b) = registered C b"
  by (auto simp: prune_channel_def registered_def delete_conv' chan_laws(7) [OF assms] fun_eq_iff
      split: option.split)

lemma registered_update:
  assumes "eb_channels b' = AList.update slug tx (eb_channels b)"
  shows "registered C b' = (registered C b)(slug := receivers C tx)"
  using assms by (simp add: registered_def update_conv' fun_eq_iff)

lemma registered_same:
  assumes "map_of (eb_channels b) slug = Some tx" "eb_channels b' = AList.update slug tx' (eb_channels b)"
    "receivers C tx' = receivers C tx"
  shows "registered C b' = registered C b"
  using assms(1,3) registered_update [OF assms(2), of C] by (simp add: registered_def fun_eq_iff)

lemma send_version_effects [bus_effects]:
  assumes "chan_ok C" "send_version C slug n note b = (p, b')"
  shows "eb_active b' = eb_active b" "eb_max b' = eb_max b" "registered C b' = registered C b"
  using assms(2) by (auto simp: send_version_def Let_def chan_laws(4) [OF assms(1)]
      intro: registered_same split: option.splits)

lemma send_score_effects [bus_effects]:
  assumes "chan_ok C" "send_score C now slug es en x b = (p, b')"
  shows "eb_active b' = eb_active b" "eb_max b' = eb_max b" "registered C b' = registered C b"
  using assms(2) by (auto simp: send_score_def Let_def chan_laws(4) [OF assms(1)]
      intro!: registered_same split: option.splits if_splits)

lemma drop_effects [bus_effects]:
  assumes "chan_ok C"
  shows "eb_active (drop_receiver C slug rx b) = eb_active b" "eb_max (drop_receiver C slug rx b) = eb_max b"
    "registered C (drop_receiver C slug rx b) = (registered C b)(slug := registered C b slug - {rx})"
  by (auto simp: drop_receiver_def registered_def update_conv' chan_laws(6) [OF assms] fun_eq_iff
      split: option.split)

section \<open>The invariant of the server\<close>

definition server_inv :: "('c, 'r) chan_lib \<Rightarrow> nat \<Rightarrow> ('c, 'r) server \<Rightarrow> bool" where
  "server_inv C m s \<longleftrightarrow>
     eb_max (bus s) = m \<and>
     eb_active (bus s) = undoing s + length (waiting s) + length (live s) + closing s \<and>
     length (waiting s) + length (live s) + closing s \<le> m \<and>
     distinct (live s) \<and>
     (\<forall>slug. registered C (bus s) slug = {rx. (slug, rx) \<in> set (live s)})"

lemma server_inv_start: "server_inv C m (start_server m d n)"
  by (simp add: server_inv_def start_server_def new_bus_def registered_def)

lemma length_remove1_mem: "x \<in> set xs \<Longrightarrow> Suc (length (remove1 x xs)) = length xs"
  by (cases xs) (auto simp: length_remove1 dest: length_pos_if_in_set)

lemma server_inv_same:
  assumes "server_inv C m s" "eb_active b = eb_active (bus s)" "eb_max b = eb_max (bus s)"
    "registered C b = registered C (bus s)"
  shows "server_inv C m (s\<lparr>bus := b, pruning := ps\<rparr>)"
  using assms by (simp add: server_inv_def)

lemma server_inv_step:
  assumes "chan_ok C" "server_inv C m s" "server_step C s s'"
  shows "server_inv C m s'"
  using assms(3)
proof (cases rule: server_step.cases)
  case (slot prev b slug)
  with assms(2) reserve_effects(1-3) [OF slot(2)] reserve_effects(4) [OF slot(2), of C] show ?thesis
    by (simp add: server_inv_def)
next
  case (full prev b)
  with assms(2) reserve_effects(1-3) [OF full(2)] reserve_effects(4) [OF full(2), of C] show ?thesis
    by (simp add: server_inv_def)
next
  case (undo n)
  with assms(2) show ?thesis by (simp add: server_inv_def release_effects)
next
  case (attach slug rx b)
  note e = attach_effects [OF assms(1) attach(3)]
  from assms(2) have "registered C (bus s) slug = {rx. (slug, rx) \<in> set (live s)}" by (simp add: server_inv_def)
  with e(3) have "(slug, rx) \<notin> set (live s)" by simp
  with attach assms(2) e(1,2,4) length_remove1_mem [OF attach(2)] show ?thesis by (auto simp: server_inv_def)
next
  case (drop slug rx)
  with assms(2) length_remove1_mem [OF drop(2)] show ?thesis
    by (auto simp: server_inv_def drop_effects [OF assms(1)])
next
  case (guard n)
  with assms(2) show ?thesis by (simp add: server_inv_def release_effects)
next
  case (version slug vn nt p b)
  from server_inv_same [OF assms(2) send_version_effects [OF assms(1) version(2)]] version(1)
  show ?thesis by simp
next
  case (score now slug es en x p b)
  from server_inv_same [OF assms(2) send_score_effects [OF assms(1) score(2)]] score(1)
  show ?thesis by simp
next
  case (prune slug)
  from server_inv_same [OF assms(2) prune_effects [OF assms(1)]] prune(1)
  show ?thesis by simp
qed

lemma reachable_inv:
  assumes "chan_ok C" "reachable C m s"
  shows "server_inv C m s"
  using assms(2) by induction (auto intro: server_inv_start server_inv_step [OF assms(1)])

text \<open>
  C26: the connection limit holds however the tasks interleave. At every moment at most
  \<open>max_connections\<close> subscribers hold a slot (they wait for their receiver, stream, or still hold
  their guard); the counter is the number of these and of the refused subscribers that have not
  undone their reservation.
\<close>

theorem connections_bounded:
  assumes "chan_ok C" "reachable C m s"
  shows "length (waiting s) + length (live s) + closing s \<le> m \<and>
    eb_active (bus s) = undoing s + length (waiting s) + length (live s) + closing s"
  using reachable_inv [OF assms] by (simp_all add: server_inv_def)

section \<open>Publishing reaches the open streams\<close>

lemma publish_version_registered:
  assumes "chan_ok C" "map_of (eb_channels b) slug = Some tx"
  shows "map_of (eb_channels (publish_version C slug n nt b)) slug =
    (if receivers C tx = {} then None else Some (chan_send C (VersionEvent n nt) tx))"
  using assms(2)
  by (simp add: publish_version_def send_version_def Let_def prune_channel_def update_conv' delete_conv'
      chan_laws(4,7) [OF assms(1)])

text \<open>
  C27: an open stream is never cut off from its board. In every reachable state, a published
  version is offered to every open stream of its board, once and after the earlier events,
  although channels without receivers are removed meanwhile and by this very call: when no stream
  of the board is open, it leaves no channel of the board behind.
\<close>

theorem version_reaches_streams:
  assumes "chan_ok C" "reachable C m s"
  shows "if \<exists>rx. (slug, rx) \<in> set (live s)
    then \<exists>tx tx'. map_of (eb_channels (bus s)) slug = Some tx \<and>
      map_of (eb_channels (publish_version C slug n nt (bus s))) slug = Some tx' \<and>
      (\<forall>rx. (slug, rx) \<in> set (live s) \<longrightarrow>
         rx \<in> receivers C tx' \<and> offered C tx' rx = offered C tx rx @ [VersionEvent n nt])
    else map_of (eb_channels (publish_version C slug n nt (bus s))) slug = None"
proof -
  have r: "registered C (bus s) slug = {rx. (slug, rx) \<in> set (live s)}"
    using reachable_inv [OF assms] by (simp add: server_inv_def)
  show ?thesis
  proof (cases "map_of (eb_channels (bus s)) slug")
    case None
    with r have "\<not> (\<exists>rx. (slug, rx) \<in> set (live s))" by (simp add: registered_def)
    with None show ?thesis by (simp add: publish_version_def send_version_def)
  next
    case (Some tx)
    with r have "receivers C tx = {rx. (slug, rx) \<in> set (live s)}" by (simp add: registered_def)
    then show ?thesis
      using Some by (auto simp: publish_version_registered [OF assms(1) Some] chan_laws(4,5) [OF assms(1)])
  qed
qed

section \<open>Debouncing\<close>

text \<open>Publications of scores, and for each whether it was sent.\<close>

record publication =
  pb_slug :: string
  pb_time :: nat
  pb_entry :: string
  pb_name :: string
  pb_score :: f64

fun score_run :: "('c, 'r) chan_lib \<Rightarrow> publication list \<Rightarrow> 'c event_bus \<Rightarrow> (publication \<times> bool) list" where
  "score_run C [] b = []"
| "score_run C (p # ps) b =
     (let (sent, b') = publish_score C (pb_time p) (pb_slug p) (pb_entry p) (pb_name p) (pb_score p) b
      in (p, sent) # score_run C ps b')"

definition sent_times :: "string \<Rightarrow> (publication \<times> bool) list \<Rightarrow> nat list" where
  "sent_times slug run = map (pb_time \<circ> fst) (filter (\<lambda>(p, sent). pb_slug p = slug \<and> sent) run)"

lemma publish_score_other:
  assumes "chan_ok C" "slug' \<noteq> slug" "publish_score C now slug' es en x b = (sent, b')"
  shows "registered C b' = registered C b" "map_of (eb_last_score b') slug = map_of (eb_last_score b) slug"
    "eb_debounce_ms b' = eb_debounce_ms b"
proof -
  obtain r b1 where s: "send_score C now slug' es en x b = (r, b1)" by force
  from assms(2) s have "map_of (eb_last_score b1) slug = map_of (eb_last_score b) slug" "eb_debounce_ms b1 = eb_debounce_ms b"
    by (auto simp: send_score_def Let_def update_conv' split: option.splits if_splits)
  moreover from assms(3) s have "b' = b1 \<or> b' = prune_channel C slug' b1"
    by (auto simp: publish_score_def split: score_sent.splits if_splits)
  moreover have "map_of (eb_last_score (prune_channel C slug' b1)) slug = map_of (eb_last_score b1) slug"
    "eb_debounce_ms (prune_channel C slug' b1) = eb_debounce_ms b1"
    using assms(2) by (auto simp: prune_channel_def delete_conv' split: option.split)
  ultimately show "map_of (eb_last_score b') slug = map_of (eb_last_score b) slug" "eb_debounce_ms b' = eb_debounce_ms b"
    by auto
  from \<open>b' = b1 \<or> b' = prune_channel C slug' b1\<close> show "registered C b' = registered C b"
    using send_score_effects(3) [OF assms(1) s] prune_effects(3) [OF assms(1)] by metis
qed

lemma publish_score_same:
  assumes "chan_ok C" "registered C b slug \<noteq> {}" "0 < eb_debounce_ms b"
    "publish_score C now slug es en x b = (sent, b')"
  shows "registered C b' = registered C b" "eb_debounce_ms b' = eb_debounce_ms b"
    "sent \<longleftrightarrow> (\<forall>t. map_of (eb_last_score b) slug = Some t \<longrightarrow> eb_debounce_ms b \<le> now - t)"
    "map_of (eb_last_score b') slug = (if sent then Some now else map_of (eb_last_score b) slug)"
proof -
  obtain r b1 where s: "send_score C now slug es en x b = (r, b1)" by force
  from assms(2) obtain tx where tx: "map_of (eb_channels b) slug = Some tx" "receivers C tx \<noteq> {}"
    by (auto simp: registered_def split: option.splits)
  then have n: "receiver_count C (chan_send C e tx) \<noteq> 0" for e
    by (simp add: chan_laws(4,7) [OF assms(1)])
  from tx s assms(3) have r: "if \<exists>t. map_of (eb_last_score b) slug = Some t \<and> now - t < eb_debounce_ms b
    then r = Debounced \<and> b1 = b
    else r = Sent False \<and> eb_debounce_ms b1 = eb_debounce_ms b \<and> map_of (eb_last_score b1) slug = Some now"
    by (auto simp: send_score_def Let_def n update_conv' split: option.splits if_splits)
  with assms(4) s have b: "b' = b1" "sent \<longleftrightarrow> r = Sent False"
    by (auto simp: publish_score_def split: if_splits)
  from b(1) send_score_effects(3) [OF assms(1) s] show "registered C b' = registered C b" by simp
  from r b show "eb_debounce_ms b' = eb_debounce_ms b" by (auto split: if_splits)
  from r b show "sent \<longleftrightarrow> (\<forall>t. map_of (eb_last_score b) slug = Some t \<longrightarrow> eb_debounce_ms b \<le> now - t)"
    by (auto split: if_splits)
  from r b show "map_of (eb_last_score b') slug = (if sent then Some now else map_of (eb_last_score b) slug)"
    by (auto split: if_splits)
qed

lemma score_run_gap:
  assumes "chan_ok C" "registered C b slug \<noteq> {}" "0 < eb_debounce_ms b" "sorted (map pb_time ps)"
    "\<forall>t. map_of (eb_last_score b) slug = Some t \<longrightarrow> (\<forall>p \<in> set ps. t \<le> pb_time p)"
  shows "(\<forall>t. map_of (eb_last_score b) slug = Some t \<longrightarrow>
      (\<forall>u \<in> set (sent_times slug (score_run C ps b)). t + eb_debounce_ms b \<le> u)) \<and>
    sorted_wrt (\<lambda>t u. t + eb_debounce_ms b \<le> u) (sent_times slug (score_run C ps b)) \<and>
    (\<forall>(p, sent) \<in> set (score_run C ps b). pb_slug p = slug \<and> \<not> sent \<longrightarrow>
      (\<exists>t. (map_of (eb_last_score b) slug = Some t \<or> t \<in> set (sent_times slug (score_run C ps b))) \<and>
         t \<le> pb_time p \<and> pb_time p < t + eb_debounce_ms b))"
  using assms(2-)
proof (induction ps arbitrary: b)
  case (Cons p ps)
  obtain sent b' where pub:
    "publish_score C (pb_time p) (pb_slug p) (pb_entry p) (pb_name p) (pb_score p) b = (sent, b')" by force
  show ?case
  proof (cases "pb_slug p = slug")
    case False
    note o = publish_score_other [OF assms(1) False pub]
    from Cons.IH [of b'] Cons.prems False show ?thesis
      by (simp add: o pub sent_times_def)
  next
    case True
    note q = publish_score_same [OF assms(1) Cons.prems(1,2), of "pb_time p" "pb_entry p" "pb_name p" "pb_score p" sent b']
    have q: "registered C b' = registered C b" "eb_debounce_ms b' = eb_debounce_ms b"
      "sent \<longleftrightarrow> (\<forall>t. map_of (eb_last_score b) slug = Some t \<longrightarrow> eb_debounce_ms b \<le> pb_time p - t)"
      "map_of (eb_last_score b') slug = (if sent then Some (pb_time p) else map_of (eb_last_score b) slug)"
      using q pub True by simp_all
    have IH: "(\<forall>t. map_of (eb_last_score b') slug = Some t \<longrightarrow>
        (\<forall>u \<in> set (sent_times slug (score_run C ps b')). t + eb_debounce_ms b \<le> u)) \<and>
      sorted_wrt (\<lambda>t u. t + eb_debounce_ms b \<le> u) (sent_times slug (score_run C ps b')) \<and>
      (\<forall>(p, sent) \<in> set (score_run C ps b'). pb_slug p = slug \<and> \<not> sent \<longrightarrow>
        (\<exists>t. (map_of (eb_last_score b') slug = Some t \<or> t \<in> set (sent_times slug (score_run C ps b'))) \<and>
           t \<le> pb_time p \<and> pb_time p < t + eb_debounce_ms b))"
      using Cons.IH [of b'] Cons.prems q(1,2,4) by (auto split: if_splits)
    show ?thesis
    proof (cases sent)
      case sent: True
      have l: "t + eb_debounce_ms b \<le> pb_time p" if "map_of (eb_last_score b) slug = Some t" for t
        using q(3) sent that Cons.prems(4) by fastforce
      have s: "sent_times slug (score_run C (p # ps) b) = pb_time p # sent_times slug (score_run C ps b')"
        using pub True sent by (simp add: sent_times_def)
      have m: "map_of (eb_last_score b') slug = Some (pb_time p)" using q(4) sent by simp
      have r: "score_run C (p # ps) b = (p, True) # score_run C ps b'" using pub sent by simp
      show ?thesis
        unfolding s unfolding r
      proof (intro conjI)
        show "\<forall>t. map_of (eb_last_score b) slug = Some t \<longrightarrow>
          (\<forall>u \<in> set (pb_time p # sent_times slug (score_run C ps b')). t + eb_debounce_ms b \<le> u)"
          using l IH m by fastforce
        show "sorted_wrt (\<lambda>t u. t + eb_debounce_ms b \<le> u) (pb_time p # sent_times slug (score_run C ps b'))"
          using IH m by simp
        show "\<forall>(p', sent) \<in> set ((p, True) # score_run C ps b'). pb_slug p' = slug \<and> \<not> sent \<longrightarrow>
          (\<exists>t. (map_of (eb_last_score b) slug = Some t \<or> t \<in> set (pb_time p # sent_times slug (score_run C ps b'))) \<and>
             t \<le> pb_time p' \<and> pb_time p' < t + eb_debounce_ms b)"
          using IH m by fastforce
      qed
    next
      case False
      then obtain t where t: "map_of (eb_last_score b) slug = Some t" "pb_time p - t < eb_debounce_ms b"
        using q(3) by auto
      moreover have "t \<le> pb_time p" using t(1) Cons.prems(4) by simp
      moreover have "sent_times slug (score_run C (p # ps) b) = sent_times slug (score_run C ps b')"
        using pub False by (simp add: sent_times_def)
      moreover have "map_of (eb_last_score b') slug = map_of (eb_last_score b) slug" using q(4) False by simp
      ultimately show ?thesis using IH pub False by auto
    qed
  qed
qed (simp add: sent_times_def)

text \<open>
  C28: debouncing spaces the score events of a board and drops no other. For any sequence of
  publications, of any boards, in time order: as long as the board has an open stream, two score
  events sent for it are at least \<open>debounce_ms\<close> apart, and one that is dropped comes less than
  \<open>debounce_ms\<close> after one that was sent.
\<close>

theorem score_events_debounced:
  assumes "chan_ok C" "registered C b slug \<noteq> {}" "0 < eb_debounce_ms b"
    and "sorted (map pb_time ps)" "map_of (eb_last_score b) slug = None"
  shows "sorted_wrt (\<lambda>t u. t + eb_debounce_ms b \<le> u) (sent_times slug (score_run C ps b)) \<and>
    (\<forall>(p, sent) \<in> set (score_run C ps b). pb_slug p = slug \<and> \<not> sent \<longrightarrow>
      (\<exists>t \<in> set (sent_times slug (score_run C ps b)). t \<le> pb_time p \<and> pb_time p < t + eb_debounce_ms b))"
proof -
  from score_run_gap [OF assms(1-4)] assms(5) show ?thesis by auto
qed

section \<open>Instances\<close>

text \<open>A channel as the list of its receivers with the events offered to each.\<close>

definition sample_chan :: "((nat \<times> board_event list) list, nat) chan_lib" where
  "sample_chan =
     \<lparr>new_channel = (\<lambda>n. []),
      chan_subscribe = (\<lambda>c. let r = Suc (sum_list (map fst c)) in (r, (r, []) # c)),
      chan_send = (\<lambda>e c. map (\<lambda>(r, es). (r, es @ [e])) c),
      receiver_count = length,
      chan_drop = (\<lambda>r c. filter (\<lambda>x. fst x \<noteq> r) c),
      receivers = (\<lambda>c. fst ` set c),
      offered = (\<lambda>c r. case map_of c r of None \<Rightarrow> [] | Some es \<Rightarrow> es)\<rparr>"

lemma map_of_filter_other: "map_of (filter (\<lambda>x. fst x \<noteq> r) c) r' = (if r' = r then None else map_of c r')"
  by (induction c) auto

lemma map_of_append_all: "map_of (map (\<lambda>(r, es). (r, es @ [e])) c) r = map_option (\<lambda>es. es @ [e]) (map_of c r)"
  by (induction c) auto

lemma fresh_receiver: "Suc (sum_list (map fst c)) \<notin> fst ` set (c :: (nat \<times> 'b) list)"
proof
  assume "Suc (sum_list (map fst c)) \<in> fst ` set c"
  then have "Suc (sum_list (map fst c)) \<le> sum_list (map fst c)"
    by (intro member_le_sum_list) auto
  then show False by simp
qed

lemma sample_chan_ok [simp]: "chan_ok sample_chan"
proof -
  have send: "offered sample_chan (chan_send sample_chan e c) r = offered sample_chan c r @ [e]"
    if "r \<in> receivers sample_chan c" for e c r
  proof -
    from that have "map_of c r \<noteq> None" by (simp add: sample_chan_def map_of_eq_None_iff)
    then show ?thesis by (auto simp: sample_chan_def map_of_append_all)
  qed
  have srec: "receivers sample_chan (chan_send sample_chan e c) = receivers sample_chan c" for e c
    by (force simp: sample_chan_def)
  have drec: "receivers sample_chan (chan_drop sample_chan r c) = receivers sample_chan c - {r}" for r c
    by (auto simp: sample_chan_def)
  have sub: "r \<notin> receivers sample_chan c \<and> receivers sample_chan c' = insert r (receivers sample_chan c) \<and>
      offered sample_chan c' r = [] \<and> (\<forall>r' \<in> receivers sample_chan c. offered sample_chan c' r' = offered sample_chan c r')"
    if "chan_subscribe sample_chan c = (r, c')" for c r c'
  proof -
    from that have r: "r = Suc (sum_list (map fst c))" "c' = (r, []) # c" by (auto simp: sample_chan_def Let_def)
    with fresh_receiver [of c] have f: "r \<notin> fst ` set c" by simp
    then have "r' \<noteq> r" if "r' \<in> fst ` set c" for r' using that by blast
    with r(2) f show ?thesis by (auto simp: sample_chan_def)
  qed
  have doff: "offered sample_chan (chan_drop sample_chan r c) r' = offered sample_chan c r'" if "r' \<noteq> r" for r r' c
    using that by (simp add: sample_chan_def map_of_filter_other)
  have new: "receivers sample_chan (new_channel sample_chan n) = {}" for n by (simp add: sample_chan_def)
  have cnt: "receiver_count sample_chan c = 0 \<longleftrightarrow> receivers sample_chan c = {}" for c by (simp add: sample_chan_def)
  have all_sub: "\<forall>c r c'. chan_subscribe sample_chan c = (r, c') \<longrightarrow>
      r \<notin> receivers sample_chan c \<and> receivers sample_chan c' = insert r (receivers sample_chan c) \<and>
      offered sample_chan c' r = [] \<and> (\<forall>r' \<in> receivers sample_chan c. offered sample_chan c' r' = offered sample_chan c r')"
    using sub by blast
  show ?thesis
    unfolding chan_ok_def using all_sub by (simp add: new send srec drec doff cnt)
qed

text \<open>A server with room for one stream: the second subscriber is refused.\<close>

definition sample_live :: "((nat \<times> board_event list) list, nat) server" where
  "sample_live =
     (start_server 1 1000 256)\<lparr>bus := (new_bus 1 1000 256)\<lparr>eb_channels := [(''b'', [(1, [])])], eb_active := 1\<rparr>,
       live := [(''b'', 1)]\<rparr>"

lemma sample_reachable: "reachable sample_chan 1 sample_live"
proof -
  let ?s0 = "start_server 1 1000 256 :: ((nat \<times> board_event list) list, nat) server"
  let ?s1 = "?s0\<lparr>bus := (new_bus 1 1000 256)\<lparr>eb_active := 1\<rparr>, waiting := [''b'']\<rparr>"
  have "server_step sample_chan ?s0 ?s1"
    using server_step.slot [of ?s0 0 "(new_bus 1 1000 256)\<lparr>eb_active := 1\<rparr>" sample_chan "''b''"]
    by (simp add: start_server_def new_bus_def reserve_def)
  moreover have "server_step sample_chan ?s1 sample_live"
    using server_step.attach [of "''b''" ?s1 sample_chan 1
        "(new_bus 1 1000 256)\<lparr>eb_channels := [(''b'', [(1, [])])], eb_active := 1\<rparr>"]
    by (simp add: start_server_def new_bus_def attach_def sample_chan_def sample_live_def unwrap_or_def)
  ultimately show ?thesis by (meson reachable.intros)
qed

theorem connections_bounded_witness:
  "length (live sample_live) \<le> 1 \<and> fst (subscribe sample_chan ''b'' (bus sample_live)) =
     Inl (ServiceUnavailable [Lit ''streaming connection limit reached''])"
  using connections_bounded [OF sample_chan_ok sample_reachable]
  by (simp add: subscribe_def reserve_def sample_live_def start_server_def new_bus_def)

theorem version_reaches_streams_witness:
  "\<exists>tx'. map_of (eb_channels (publish_version sample_chan ''b'' 7 None (bus sample_live))) ''b'' = Some tx' \<and>
     offered sample_chan tx' 1 = [VersionEvent 7 None]"
proof -
  have "map_of (eb_channels (bus sample_live)) ''b'' = Some [(1, [])]" "(''b'', 1) \<in> set (live sample_live)"
    "offered sample_chan [(1, [])] 1 = []"
    by (simp_all add: sample_live_def sample_chan_def)
  with version_reaches_streams [OF sample_chan_ok sample_reachable, of "''b''" 7 None]
  show ?thesis by (auto split: if_splits)
qed

definition sample_publications :: "publication list" where
  "sample_publications =
     [\<lparr>pb_slug = ''b'', pb_time = 5000, pb_entry = ''e'', pb_name = ''E'', pb_score = 0\<rparr>,
      \<lparr>pb_slug = ''b'', pb_time = 5400, pb_entry = ''e'', pb_name = ''E'', pb_score = 0\<rparr>,
      \<lparr>pb_slug = ''b'', pb_time = 6000, pb_entry = ''e'', pb_name = ''E'', pb_score = 0\<rparr>]"

theorem score_events_debounced_witness:
  "map snd (score_run sample_chan sample_publications (bus sample_live)) = [True, False, True] \<and>
   sorted_wrt (\<lambda>t u. t + 1000 \<le> u) (sent_times ''b'' (score_run sample_chan sample_publications (bus sample_live)))"
proof -
  have "registered sample_chan (bus sample_live) ''b'' \<noteq> {}" "0 < eb_debounce_ms (bus sample_live)"
    "sorted (map pb_time sample_publications)" "map_of (eb_last_score (bus sample_live)) ''b'' = None"
    "eb_debounce_ms (bus sample_live) = 1000"
    by (simp_all add: registered_def sample_live_def sample_chan_def sample_publications_def start_server_def new_bus_def)
  with score_events_debounced [OF sample_chan_ok, of "bus sample_live" "''b''" sample_publications]
  show ?thesis
    by (simp add: sample_publications_def publish_score_def send_score_def sample_live_def sample_chan_def
        start_server_def new_bus_def Let_def)
qed

end
