(* ===== verification/App.thy ===== *)
theory App
  imports Collections References Snapshots Outbound Auth Event_Bus
begin

text \<open>
  The state of the HTTP server (\<open>lib.rs\<close>), the answers it gives (\<open>error.rs\<close>), the size limits
  of \<open>routes/mod.rs\<close>, and the steps the handlers are made of: a read or a transaction of the
  database, a repository operation that also uses Redis, a notification.
\<close>

section \<open>State\<close>

text \<open>
  What a request finds and does not change: the services, the configuration, the time. A server
  without Redis has \<open>cx_redis\<close> None.
\<close>

record ('r, 'c, 'x) ctx =
  cx_svc :: svc
  cx_codec :: codec
  cx_redis :: "'r redis option"
  cx_chan :: "('c, 'x) chan_lib"
  cx_webhook :: webhook_lib
  cx_env :: environment
  cx_config :: config
  cx_clock :: nat
  cx_snap_id :: string
  cx_json_len :: "json \<Rightarrow> nat"

text \<open>What requests change: the stores, the event bus, and the deliveries spawned so far.\<close>

record ('r, 'c) app =
  ap_db :: db
  ap_redis :: 'r
  ap_bus :: "'c event_bus option"
  ap_deliveries :: "delivery list"

definition limits :: "('r, 'c, 'x) ctx \<Rightarrow> limits_config" where
  "limits X = effective_limits (cx_config X)"

definition key_prefix :: "('r, 'c, 'x) ctx \<Rightarrow> string" where
  "key_prefix X = redis_key_prefix (cx_config X)"

section \<open>Answers\<close>

datatype body =
    NoBody
  | BoardBody board
  | BoardsBody "board paginated_response"
  | SummaryBody board_summary
  | EntryBody entry
  | EntriesBody "entry paginated_response"
  | HistoryBody "entry_history_item list"
  | VersionBody version_with_placements
  | VersionsBody "version paginated_response"
  | VersionListBody "version list"
  | DiffBody version_diff
  | OkBody
  | ScoreBody accumulated_score
  | CollectionBody collection
  | CollectionsBody "collection paginated_response"
  | CollectionBoardsBody "collection \<times> collection_board_entry list"
  | ReferenceBody reference_view
  | ReferencesBody "reference_view paginated_response"

type_synonym response = "nat \<times> body"

fun into_response :: "error \<Rightarrow> error_response" where
  "into_response (NotFound msg) = (404, msg)"
| "into_response (Conflict msg) = (409, msg)"
| "into_response (Validation msg) = (400, msg)"
| "into_response (Config msg) = (500, msg)"
| "into_response (Database e) = (500, [Lit ''internal server error''])"
| "into_response Migration = (500, [Lit ''internal server error''])"
| "into_response (Internal e) = (500, [Lit ''internal server error''])"
| "into_response (ServiceUnavailable msg) = (503, [Lit ''service temporarily unavailable''])"

section \<open>Size limits\<close>

definition check_metadata_size :: "(json \<Rightarrow> nat) \<Rightarrow> json option \<Rightarrow> int \<Rightarrow> unit result" where
  "check_metadata_size json_len metadata max_bytes =
     (case metadata of
        None \<Rightarrow> Inr ()
      | Some meta \<Rightarrow>
          reject_if (max_bytes < int (json_len meta))
            (Validation [Lit ''metadata too large ('', Num (int (json_len meta)), Lit '' bytes, max '', Num max_bytes, Lit '')'']))"

definition check_note_size :: "string option \<Rightarrow> int \<Rightarrow> unit result" where
  "check_note_size nt max_bytes =
     (case nt of
        None \<Rightarrow> Inr ()
      | Some n \<Rightarrow>
          reject_if (max_bytes < int (length n))
            (Validation [Lit ''note too large ('', Num (int (length n)), Lit '' bytes, max '', Num max_bytes, Lit '')'']))"

definition metadata_fits :: "('r, 'c, 'x) ctx \<Rightarrow> json option \<Rightarrow> unit result" where
  "metadata_fits X metadata = check_metadata_size (cx_json_len X) metadata (max_metadata_size_bytes (limits X))"

definition note_fits :: "('r, 'c, 'x) ctx \<Rightarrow> string option \<Rightarrow> unit result" where
  "note_fits X nt = check_note_size nt (max_note_size_bytes (limits X))"

section \<open>Steps of a handler\<close>

type_synonym ('r, 'c, 'a) step = "('r, 'c) app \<Rightarrow> 'a result \<times> ('r, 'c) app"

definition check :: "unit result \<Rightarrow> ('r, 'c, unit) step" where
  "check m a = (m, a)"

definition read_db :: "(db \<Rightarrow> 'a result) \<Rightarrow> ('r, 'c, 'a) step" where
  "read_db f a = (f (ap_db a), a)"

definition write_db :: "(db \<Rightarrow> ('a \<times> db) result) \<Rightarrow> ('r, 'c, 'a) step" where
  "write_db f a = (case f (ap_db a) of Inl e \<Rightarrow> (Inl e, a) | Inr (x, d) \<Rightarrow> (Inr x, a\<lparr>ap_db := d\<rparr>))"

definition exec_db :: "(db \<Rightarrow> db result) \<Rightarrow> ('r, 'c, unit) step" where
  "exec_db f = write_db (\<lambda>d. rbind (f d) (\<lambda>d'. Inr ((), d')))"

definition on_world :: "('r world \<Rightarrow> 'a result \<times> 'r world) \<Rightarrow> ('r, 'c, 'a) step" where
  "on_world f a = (case f (ap_db a, ap_redis a) of (x, d, r) \<Rightarrow> (x, a\<lparr>ap_db := d, ap_redis := r\<rparr>))"

definition redis_conn :: "('r, 'c, 'x) ctx \<Rightarrow> 'r redis result" where
  "redis_conn X =
     ok_or (cx_redis X) (ServiceUnavailable [Lit ''Redis is required for realtime boards but not configured''])"

section \<open>Notifications\<close>

definition fire_app ::
    "('r, 'c, 'x) ctx \<Rightarrow> webhook_event \<Rightarrow> string \<Rightarrow> string \<Rightarrow> version_info option \<Rightarrow> timestamp option \<Rightarrow>
     ('r, 'c) app \<Rightarrow> ('r, 'c) app" where
  "fire_app X event slug name version ts a =
     a\<lparr>ap_deliveries := ap_deliveries a @
         fire (cx_webhook X) (cx_env X) (cfg_webhooks (cx_config X)) event slug name version ts\<rparr>"

definition announce_version ::
    "('r, 'c, 'x) ctx \<Rightarrow> string \<Rightarrow> i32 \<Rightarrow> string option \<Rightarrow> ('r, 'c) app \<Rightarrow> ('r, 'c) app" where
  "announce_version X slug version_number nt a =
     a\<lparr>ap_bus := map_option (publish_version (cx_chan X) slug version_number nt) (ap_bus a)\<rparr>"

definition announce_score ::
    "('r, 'c, 'x) ctx \<Rightarrow> string \<Rightarrow> submit_score \<Rightarrow> ('r, 'c) app \<Rightarrow> ('r, 'c) app" where
  "announce_score X slug inp a =
     a\<lparr>ap_bus := map_option (\<lambda>b. snd (publish_score (cx_chan X) (cx_clock X) slug (ss_entry_slug inp)
                                (ss_entry_name inp) (ss_score inp) b)) (ap_bus a)\<rparr>"

text \<open>A new version is announced to the webhooks, then on the bus.\<close>

definition notify_version ::
    "('r, 'c, 'x) ctx \<Rightarrow> board \<Rightarrow> version \<Rightarrow> ('r, 'c) app \<Rightarrow> ('r, 'c) app" where
  "notify_version X board v a =
     announce_version X (b_slug board) (v_number v) (v_note v)
       (fire_app X VersionCreated (b_slug board) (b_name board)
          (Some \<lparr>vi_version_number = v_number v, vi_note = v_note v\<rparr>) (Some (v_created_at v)) a)"

section \<open>What the steps do\<close>

lemma check_eq [simp]: "check m a = (m, a)"
  by (simp add: check_def)

lemma read_db_eq [simp]: "read_db f a = (f (ap_db a), a)"
  by (simp add: read_db_def)

lemma write_db_Inr: "write_db f a = (Inr x, a') \<longleftrightarrow> (\<exists>d. f (ap_db a) = Inr (x, d) \<and> a' = a\<lparr>ap_db := d\<rparr>)"
  by (auto simp: write_db_def split: sum.splits)

lemma write_db_Inl: "write_db f a = (Inl e, a') \<longleftrightarrow> f (ap_db a) = Inl e \<and> a' = a"
  by (auto simp: write_db_def split: sum.splits)

lemma exec_db_Inr: "exec_db f a = (Inr u, a') \<longleftrightarrow> (\<exists>d. f (ap_db a) = Inr d \<and> a' = a\<lparr>ap_db := d\<rparr>)"
  by (auto simp: exec_db_def write_db_Inr)

lemma exec_db_Inl: "exec_db f a = (Inl e, a') \<longleftrightarrow> f (ap_db a) = Inl e \<and> a' = a"
  by (auto simp: exec_db_def write_db_Inl rbind_eq_Inl)

lemma notify_fields [simp]:
  "ap_db (fire_app X ev s n v t a) = ap_db a" "ap_redis (fire_app X ev s n v t a) = ap_redis a"
  "ap_bus (fire_app X ev s n v t a) = ap_bus a"
  "ap_db (announce_version X s i nt a) = ap_db a" "ap_redis (announce_version X s i nt a) = ap_redis a"
  "ap_deliveries (announce_version X s i nt a) = ap_deliveries a"
  "ap_db (announce_score X s inp a) = ap_db a" "ap_redis (announce_score X s inp a) = ap_redis a"
  "ap_deliveries (announce_score X s inp a) = ap_deliveries a"
  "ap_db (notify_version X b w a) = ap_db a" "ap_redis (notify_version X b w a) = ap_redis a"
  by (simp_all add: fire_app_def announce_version_def announce_score_def notify_version_def)

end
