(* ===== verification/Routes.thy ===== *)
theory Routes
  imports App History
begin

text \<open>
  The handlers of \<open>routes/\<close>, each from the extracted path, query and body to the answer, and
  the dispatch of a request behind the auth middleware (\<open>lib.rs\<close>). A handler is the code's
  function of the same name, with its module as the prefix.
\<close>

section \<open>Boards\<close>

definition route_boards_create :: "('r, 'c, 'x) ctx \<Rightarrow> create_board \<Rightarrow> ('r, 'c, response) step" where
  "route_boards_create X inp a =
     and_then (check (metadata_fits X (cb_metadata inp)) a) (\<lambda>_ a.
     and_then (write_db (boards_create (cx_svc X) inp) a) (\<lambda>board a.
     (Inr (201, BoardBody board),
      fire_app X BoardCreated (b_slug board) (b_name board) None (Some (b_created_at board)) a)))"

definition route_boards_list :: "('r, 'c, 'x) ctx \<Rightarrow> pagination_params \<Rightarrow> ('r, 'c, response) step" where
  "route_boards_list X params a =
     and_then (read_db (boards_list_paginated (cx_codec X) params) a) (\<lambda>page a. (Inr (200, BoardsBody page), a))"

definition route_boards_get :: "string \<Rightarrow> ('r, 'c, response) step" where
  "route_boards_get slug a =
     and_then (read_db (boards_get_summary slug) a) (\<lambda>summary a. (Inr (200, SummaryBody summary), a))"

definition no_op_patch :: "update_board \<Rightarrow> bool" where
  "no_op_patch inp \<longleftrightarrow>
     ub_name inp = None \<and> ub_sort_direction inp = None \<and> ub_tier_config inp = Absent \<and>
     ub_metadata inp = Absent \<and> ub_realtime inp = None \<and> ub_clear_on_snapshot inp = None"

definition nullable_fits :: "('r, 'c, 'x) ctx \<Rightarrow> json nullable \<Rightarrow> unit result" where
  "nullable_fits X metadata = (case metadata of Value meta \<Rightarrow> metadata_fits X (Some meta) | _ \<Rightarrow> Inr ())"

definition route_boards_update :: "('r, 'c, 'x) ctx \<Rightarrow> string \<Rightarrow> update_board \<Rightarrow> ('r, 'c, response) step" where
  "route_boards_update X slug inp a =
     (if no_op_patch inp
      then and_then (read_db (boards_get_by_slug slug) a) (\<lambda>board a. (Inr (200, BoardBody board), a))
      else
        and_then (check (nullable_fits X (ub_metadata inp)) a) (\<lambda>_ a.
        and_then (write_db (boards_patch (cx_svc X) slug inp) a) (\<lambda>board a.
        (Inr (200, BoardBody board),
         fire_app X BoardUpdated (b_slug board) (b_name board) None (Some (b_updated_at board)) a))))"

text \<open>The Redis keys of a realtime board are cleared first, best effort.\<close>

definition clear_redis :: "('r, 'c, 'x) ctx \<Rightarrow> board \<Rightarrow> ('r, 'c) app \<Rightarrow> ('r, 'c) app" where
  "clear_redis X board a =
     (if b_realtime board
      then case cx_redis X of
          Some R \<Rightarrow> snd (on_world (realtime_clear R (b_slug board) (key_prefix X)) a)
        | None \<Rightarrow> a
      else a)"

definition route_boards_delete :: "('r, 'c, 'x) ctx \<Rightarrow> string \<Rightarrow> ('r, 'c, response) step" where
  "route_boards_delete X slug a =
     and_then (read_db (boards_get_by_slug slug) a) (\<lambda>board a.
     and_then (exec_db (boards_delete slug) (clear_redis X board a)) (\<lambda>_ a.
     (Inr (204, NoBody), fire_app X BoardDeleted (b_slug board) (b_name board) None None a)))"

section \<open>Entries\<close>

definition route_entries_create :: "('r, 'c, 'x) ctx \<Rightarrow> string \<Rightarrow> create_entry \<Rightarrow> ('r, 'c, response) step" where
  "route_entries_create X slug inp a =
     and_then (check (metadata_fits X (ce_metadata inp)) a) (\<lambda>_ a.
     and_then (read_db (boards_get_by_slug slug) a) (\<lambda>board a.
     and_then (write_db (entries_create (cx_svc X) (b_id board) inp) a) (\<lambda>entry a.
     (Inr (201, EntryBody entry), a))))"

definition route_entries_list :: "('r, 'c, 'x) ctx \<Rightarrow> string \<Rightarrow> pagination_params \<Rightarrow> ('r, 'c, response) step" where
  "route_entries_list X slug params a =
     and_then (read_db (boards_get_by_slug slug) a) (\<lambda>board a.
     and_then (read_db (entries_list_paginated (cx_codec X) (b_id board) params) a) (\<lambda>page a.
     (Inr (200, EntriesBody page), a)))"

definition route_entries_get :: "string \<Rightarrow> string \<Rightarrow> ('r, 'c, response) step" where
  "route_entries_get slug entry_slug a =
     and_then (read_db (boards_get_by_slug slug) a) (\<lambda>board a.
     and_then (read_db (entries_get_by_slug (b_id board) entry_slug) a) (\<lambda>entry a.
     (Inr (200, EntryBody entry), a)))"

definition route_entries_update ::
    "('r, 'c, 'x) ctx \<Rightarrow> string \<Rightarrow> string \<Rightarrow> update_entry \<Rightarrow> ('r, 'c, response) step" where
  "route_entries_update X slug entry_slug inp a =
     and_then (check (nullable_fits X (ue_metadata inp)) a) (\<lambda>_ a.
     and_then (read_db (boards_get_by_slug slug) a) (\<lambda>board a.
     and_then (write_db (entries_patch (cx_svc X) (b_id board) entry_slug inp) a) (\<lambda>entry a.
     (Inr (200, EntryBody entry), a))))"

definition route_entries_delete :: "string \<Rightarrow> string \<Rightarrow> ('r, 'c, response) step" where
  "route_entries_delete slug entry_slug a =
     and_then (read_db (boards_get_by_slug slug) a) (\<lambda>board a.
     and_then (exec_db (entries_delete (b_id board) entry_slug) a) (\<lambda>_ a. (Inr (204, NoBody), a)))"

definition route_entries_history :: "string \<Rightarrow> string \<Rightarrow> int option \<Rightarrow> ('r, 'c, response) step" where
  "route_entries_history slug entry_slug lim a =
     and_then (read_db (boards_get_by_slug slug) a) (\<lambda>board a.
     and_then (read_db (entries_history (b_id board) entry_slug (effective_limit lim)) a) (\<lambda>hist a.
     (Inr (200, HistoryBody hist), a)))"

section \<open>Versions\<close>

definition too_many_placements :: "int \<Rightarrow> int \<Rightarrow> error" where
  "too_many_placements n m =
     Validation [Lit ''too many placements ('', Num n, Lit '', max '', Num m, Lit '')'']"

definition version_fits :: "('r, 'c, 'x) ctx \<Rightarrow> create_version \<Rightarrow> unit result" where
  "version_fits X inp =
     rbind (reject_if (max_entries_per_version (limits X) < int (length (cv_placements inp)))
       (too_many_placements (int (length (cv_placements inp))) (max_entries_per_version (limits X)))) (\<lambda>_.
     rbind (note_fits X (cv_note inp)) (\<lambda>_.
     rbind (metadata_fits X (cv_metadata inp)) (\<lambda>_.
     for_each (\<lambda>p. metadata_fits X (cp_metadata p)) (cv_placements inp))))"

definition route_versions_create ::
    "('r, 'c, 'x) ctx \<Rightarrow> string \<Rightarrow> create_version \<Rightarrow> ('r, 'c, response) step" where
  "route_versions_create X slug inp a =
     and_then (check (version_fits X inp) a) (\<lambda>_ a.
     and_then (read_db (boards_get_by_slug slug) a) (\<lambda>board a.
     and_then (write_db (versions_create (cx_svc X) board inp (Some (max_versions_per_board (limits X)))) a)
       (\<lambda>vp a. (Inr (201, VersionBody vp), notify_version X board (vp_version vp) a))))"

definition route_versions_list :: "('r, 'c, 'x) ctx \<Rightarrow> string \<Rightarrow> pagination_params \<Rightarrow> ('r, 'c, response) step" where
  "route_versions_list X slug params a =
     and_then (read_db (boards_get_by_slug slug) a) (\<lambda>board a.
     and_then (read_db (versions_list_paginated (cx_codec X) (b_id board) params) a) (\<lambda>page a.
     (Inr (200, VersionsBody page), a)))"

definition route_versions_get :: "('r, 'c, 'x) ctx \<Rightarrow> string \<Rightarrow> i32 \<Rightarrow> ('r, 'c, response) step" where
  "route_versions_get X slug version_number a =
     and_then (read_db (boards_get_by_slug slug) a) (\<lambda>board a.
     and_then (read_db (versions_get_by_number (cx_svc X) (b_id board) version_number) a) (\<lambda>vp a.
     (Inr (200, VersionBody vp), a)))"

definition route_versions_latest :: "('r, 'c, 'x) ctx \<Rightarrow> string \<Rightarrow> ('r, 'c, response) step" where
  "route_versions_latest X slug a =
     and_then (read_db (boards_get_by_slug slug) a) (\<lambda>board a.
     if b_realtime board then
       and_then (redis_conn X, a) (\<lambda>R a.
       and_then (on_world (realtime_latest R board (key_prefix X) (utc_now (cx_webhook X))) a) (\<lambda>vp a.
       (Inr (200, VersionBody vp), a)))
     else
       and_then (read_db (versions_get_latest (cx_svc X) (b_id board)) a) (\<lambda>vp a.
       (Inr (200, VersionBody vp), a)))"

definition route_versions_diff :: "('r, 'c, 'x) ctx \<Rightarrow> string \<Rightarrow> i32 \<Rightarrow> i32 \<Rightarrow> ('r, 'c, response) step" where
  "route_versions_diff X slug fr to a =
     and_then (check (reject_if (fr < 1 \<or> to < 1) (Validation [Lit ''version numbers must be >= 1''])) a) (\<lambda>_ a.
     and_then (check (reject_if (to \<le> fr) (Validation [Quo ''from'', Lit '' must be less than '', Quo ''to''])) a) (\<lambda>_ a.
     and_then (read_db (boards_get_by_slug slug) a) (\<lambda>board a.
     and_then (read_db (versions_diff (cx_svc X) (b_id board) fr to) a) (\<lambda>d a. (Inr (200, DiffBody d), a)))))"

definition route_versions_since :: "string \<Rightarrow> i32 \<Rightarrow> int option \<Rightarrow> ('r, 'c, response) step" where
  "route_versions_since slug version_number lim a =
     and_then (read_db (boards_get_by_slug slug) a) (\<lambda>board a.
     and_then (read_db (versions_since (b_id board) version_number (effective_limit lim)) a) (\<lambda>vs a.
     (Inr (200, VersionListBody vs), a)))"

section \<open>Scores\<close>

definition route_scores_submit :: "('r, 'c, 'x) ctx \<Rightarrow> string \<Rightarrow> submit_score \<Rightarrow> ('r, 'c, response) step" where
  "route_scores_submit X slug inp a =
     and_then (read_db (boards_get_by_slug slug) a) (\<lambda>board a.
     if b_realtime board then
       and_then (redis_conn X, a) (\<lambda>R a.
       and_then (on_world (realtime_submit (cx_svc X) R board inp (key_prefix X)) a) (\<lambda>_ a.
       (Inr (200, OkBody), announce_score X (b_slug board) inp a)))
     else
       and_then (write_db (scores_submit (cx_svc X) board inp) a) (\<lambda>score a.
       (Inr (200, ScoreBody score), a)))"

definition route_scores_snapshot :: "('r, 'c, 'x) ctx \<Rightarrow> string \<Rightarrow> snapshot_input \<Rightarrow> ('r, 'c, response) step" where
  "route_scores_snapshot X slug inp a =
     and_then (check (note_fits X (si_note inp)) a) (\<lambda>_ a.
     and_then (check (metadata_fits X (si_metadata inp)) a) (\<lambda>_ a.
     and_then (read_db (boards_get_by_slug slug) a) (\<lambda>board a.
     and_then
       (if b_realtime board then
          and_then (redis_conn X, a) (\<lambda>R.
          on_world (realtime_snapshot (cx_svc X) R board (si_note inp) (si_metadata inp) (key_prefix X)
            (Some (max_versions_per_board (limits X))) (Some (max_entries_per_version (limits X))) (cx_snap_id X)))
        else
          write_db (scores_snapshot (cx_svc X) board (si_note inp) (si_metadata inp)
            (Some (max_versions_per_board (limits X))) (Some (max_entries_per_version (limits X)))) a)
       (\<lambda>vp a. (Inr (201, VersionBody vp), notify_version X board (vp_version vp) a)))))"

section \<open>Collections\<close>

definition route_collections_create :: "('r, 'c, 'x) ctx \<Rightarrow> create_collection \<Rightarrow> ('r, 'c, response) step" where
  "route_collections_create X inp a =
     and_then (check (metadata_fits X (cc_metadata inp)) a) (\<lambda>_ a.
     and_then (write_db (collections_create (cx_svc X) inp) a) (\<lambda>coll a. (Inr (201, CollectionBody coll), a)))"

definition route_collections_list :: "('r, 'c, 'x) ctx \<Rightarrow> pagination_params \<Rightarrow> ('r, 'c, response) step" where
  "route_collections_list X params a =
     and_then (read_db (collections_list_paginated (cx_codec X) params) a) (\<lambda>page a.
     (Inr (200, CollectionsBody page), a))"

definition route_collections_get :: "('r, 'c, 'x) ctx \<Rightarrow> string \<Rightarrow> ('r, 'c, response) step" where
  "route_collections_get X slug a =
     and_then (read_db (collections_get_with_boards (cx_svc X) slug) a) (\<lambda>coll a.
     (Inr (200, CollectionBoardsBody coll), a))"

definition route_collections_update ::
    "('r, 'c, 'x) ctx \<Rightarrow> string \<Rightarrow> update_collection \<Rightarrow> ('r, 'c, response) step" where
  "route_collections_update X slug inp a =
     (if uc_name inp = None \<and> uc_metadata inp = Absent
      then and_then (read_db (collections_get_by_slug slug) a) (\<lambda>coll a. (Inr (200, CollectionBody coll), a))
      else
        and_then (check (nullable_fits X (uc_metadata inp)) a) (\<lambda>_ a.
        and_then (write_db (collections_patch (cx_svc X) slug inp) a) (\<lambda>coll a.
        (Inr (200, CollectionBody coll), a))))"

definition route_collections_delete :: "string \<Rightarrow> ('r, 'c, response) step" where
  "route_collections_delete slug a =
     and_then (exec_db (collections_delete slug) a) (\<lambda>_ a. (Inr (204, NoBody), a))"

definition route_collections_add_board :: "string \<Rightarrow> add_board_to_collection \<Rightarrow> ('r, 'c, response) step" where
  "route_collections_add_board slug inp a =
     and_then (exec_db (collections_add_board slug inp) a) (\<lambda>_ a. (Inr (201, NoBody), a))"

definition route_collections_remove_board :: "string \<Rightarrow> string \<Rightarrow> ('r, 'c, response) step" where
  "route_collections_remove_board slug board_slug a =
     and_then (exec_db (collections_remove_board slug board_slug) a) (\<lambda>_ a. (Inr (204, NoBody), a))"

section \<open>References\<close>

definition route_references_create ::
    "('r, 'c, 'x) ctx \<Rightarrow> string \<Rightarrow> create_reference \<Rightarrow> ('r, 'c, response) step" where
  "route_references_create X slug inp a =
     and_then (read_db (boards_get_by_slug slug) a) (\<lambda>board a.
     and_then (write_db (references_create (cx_svc X) (b_id board) inp) a) (\<lambda>r a. (Inr (201, ReferenceBody r), a)))"

definition route_references_list ::
    "('r, 'c, 'x) ctx \<Rightarrow> string \<Rightarrow> pagination_params \<Rightarrow> ('r, 'c, response) step" where
  "route_references_list X slug params a =
     and_then (read_db (boards_get_by_slug slug) a) (\<lambda>board a.
     and_then (read_db (references_list_paginated (cx_codec X) (b_id board) params) a) (\<lambda>page a.
     (Inr (200, ReferencesBody page), a)))"

definition route_references_delete :: "string \<Rightarrow> uuid \<Rightarrow> ('r, 'c, response) step" where
  "route_references_delete slug reference_id a =
     and_then (read_db (boards_get_by_slug slug) a) (\<lambda>board a.
     and_then (exec_db (references_delete (b_id board) reference_id) a) (\<lambda>_ a. (Inr (204, NoBody), a)))"

section \<open>Requests\<close>

text \<open>The routes behind the auth middleware, each with what its extractors give.\<close>

datatype request =
    BoardsCreate create_board
  | BoardsList pagination_params
  | BoardsGet string
  | BoardsUpdate string update_board
  | BoardsDelete string
  | EntriesCreate string create_entry
  | EntriesList string pagination_params
  | EntriesGet string string
  | EntriesUpdate string string update_entry
  | EntriesDelete string string
  | EntriesHistory string string "int option"
  | VersionsCreate string create_version
  | VersionsList string pagination_params
  | VersionsGet string i32
  | VersionsLatest string
  | VersionsDiff string i32 i32
  | VersionsSince string i32 "int option"
  | ScoresSubmit string submit_score
  | ScoresSnapshot string snapshot_input
  | ReferencesCreate string create_reference
  | ReferencesList string pagination_params
  | ReferencesDelete string uuid
  | CollectionsCreate create_collection
  | CollectionsList pagination_params
  | CollectionsGet string
  | CollectionsUpdate string update_collection
  | CollectionsDelete string
  | CollectionsAddBoard string add_board_to_collection
  | CollectionsRemoveBoard string string

fun handle :: "('r, 'c, 'x) ctx \<Rightarrow> request \<Rightarrow> ('r, 'c, response) step" where
  "handle X (BoardsCreate inp) = route_boards_create X inp"
| "handle X (BoardsList params) = route_boards_list X params"
| "handle X (BoardsGet slug) = route_boards_get slug"
| "handle X (BoardsUpdate slug inp) = route_boards_update X slug inp"
| "handle X (BoardsDelete slug) = route_boards_delete X slug"
| "handle X (EntriesCreate slug inp) = route_entries_create X slug inp"
| "handle X (EntriesList slug params) = route_entries_list X slug params"
| "handle X (EntriesGet slug es) = route_entries_get slug es"
| "handle X (EntriesUpdate slug es inp) = route_entries_update X slug es inp"
| "handle X (EntriesDelete slug es) = route_entries_delete slug es"
| "handle X (EntriesHistory slug es lim) = route_entries_history slug es lim"
| "handle X (VersionsCreate slug inp) = route_versions_create X slug inp"
| "handle X (VersionsList slug params) = route_versions_list X slug params"
| "handle X (VersionsGet slug n) = route_versions_get X slug n"
| "handle X (VersionsLatest slug) = route_versions_latest X slug"
| "handle X (VersionsDiff slug fr to) = route_versions_diff X slug fr to"
| "handle X (VersionsSince slug n lim) = route_versions_since slug n lim"
| "handle X (ScoresSubmit slug inp) = route_scores_submit X slug inp"
| "handle X (ScoresSnapshot slug inp) = route_scores_snapshot X slug inp"
| "handle X (ReferencesCreate slug inp) = route_references_create X slug inp"
| "handle X (ReferencesList slug params) = route_references_list X slug params"
| "handle X (ReferencesDelete slug i) = route_references_delete slug i"
| "handle X (CollectionsCreate inp) = route_collections_create X inp"
| "handle X (CollectionsList params) = route_collections_list X params"
| "handle X (CollectionsGet slug) = route_collections_get X slug"
| "handle X (CollectionsUpdate slug inp) = route_collections_update X slug inp"
| "handle X (CollectionsDelete slug) = route_collections_delete slug"
| "handle X (CollectionsAddBoard slug inp) = route_collections_add_board slug inp"
| "handle X (CollectionsRemoveBoard slug bs) = route_collections_remove_board slug bs"

fun http_method_of :: "request \<Rightarrow> http_method" where
  "http_method_of (BoardsCreate _) = POST"
| "http_method_of (BoardsUpdate _ _) = PATCH"
| "http_method_of (BoardsDelete _) = DELETE"
| "http_method_of (EntriesCreate _ _) = POST"
| "http_method_of (EntriesUpdate _ _ _) = PATCH"
| "http_method_of (EntriesDelete _ _) = DELETE"
| "http_method_of (VersionsCreate _ _) = POST"
| "http_method_of (ScoresSubmit _ _) = POST"
| "http_method_of (ScoresSnapshot _ _) = POST"
| "http_method_of (ReferencesCreate _ _) = POST"
| "http_method_of (ReferencesDelete _ _) = DELETE"
| "http_method_of (CollectionsCreate _) = POST"
| "http_method_of (CollectionsUpdate _ _) = PATCH"
| "http_method_of (CollectionsDelete _) = DELETE"
| "http_method_of (CollectionsAddBoard _ _) = POST"
| "http_method_of (CollectionsRemoveBoard _ _) = DELETE"
| "http_method_of _ = GET"

text \<open>A request through the middleware to its handler, and the answer it gets.\<close>

definition serve ::
    "'k jwt_lib \<Rightarrow> 'k auth_mode \<Rightarrow> ('r, 'c, 'x) ctx \<Rightarrow> headers \<Rightarrow> request \<Rightarrow> ('r, 'c) app \<Rightarrow>
     (error_response + response) \<times> ('r, 'c) app" where
  "serve J mode X hs rq a =
     (case require_auth J (cx_clock X) mode (http_method_of rq) hs of
        Inl refused \<Rightarrow> (Inl refused, a)
      | Inr _ \<Rightarrow> (case handle X rq a of (m, a') \<Rightarrow> (map_err into_response m, a')))"

end
