(* ===== verification/Serving.thy ===== *)
theory Serving
  imports Routes
begin

text \<open>
  What the requests of the server do to the database: every one keeps its invariant, and the
  versions of a board are an append-only log with the numbers 1, 2, ...
\<close>

section \<open>Operations that leave the versions alone\<close>

definition quiet :: "svc \<Rightarrow> db \<Rightarrow> db \<Rightarrow> bool" where
  "quiet S db db' \<longleftrightarrow> db_inv S db' \<and> versions db' = versions db \<and> placements db' = placements db \<and>
     map b_id (boards db') = map b_id (boards db)"

lemma quiet_refl [simp]: "db_inv S db \<Longrightarrow> quiet S db db"
  by (simp add: quiet_def)

lemma quiet_boards_patch: "db_inv S db \<Longrightarrow> boards_patch S slug inp db = Inr (b, db') \<Longrightarrow> quiet S db db'"
  using boards_patch_inv [of S db slug inp b db']
  by (auto simp: quiet_def patch_result_def patched_board_def update_where_def elim!: boards_patch_Inr)

lemma quiet_entries_create: "db_inv S db \<Longrightarrow> entries_create S bid inp db = Inr (e, db') \<Longrightarrow> quiet S db db'"
  using entries_create_inv [of S db bid inp e db']
  by (auto simp: quiet_def entries_create_def on_unique_violation_def insert_entry_def
      split: sum.splits error.splits db_error.splits if_splits)

lemma quiet_entries_patch: "db_inv S db \<Longrightarrow> entries_patch S bid slug inp db = Inr (e, db') \<Longrightarrow> quiet S db db'"
  using entries_patch_inv [of S db bid slug inp e db']
  by (auto simp: quiet_def entries_patch_def Let_def)

lemma quiet_entries_delete: "db_inv S db \<Longrightarrow> entries_delete bid slug db = Inr db' \<Longrightarrow> quiet S db db'"
  using entries_delete_inv [of S db bid slug db']
  by (auto simp: quiet_def entries_delete_def Let_def delete_entry_row_def placed_versions_empty filter_id_conv)

lemma quiet_upsert_entry:
  "db_inv S db \<Longrightarrow> upsert_entry S t bid slug name db = Inr (eid, db') \<Longrightarrow> quiet S db db'"
  using upsert_entry_inv [of S db t bid slug name eid db']
  by (auto simp: quiet_def upsert_entry_def insert_entry_def split: option.splits if_splits)

lemma upsert_score_same:
  "upsert_score S t bid eid sc db = Inr (a, db') \<Longrightarrow>
   versions db' = versions db \<and> placements db' = placements db \<and> boards db' = boards db"
  by (auto simp: upsert_score_def Let_def split: option.splits if_splits)

lemma quiet_scores_submit:
  assumes "db_inv S db" "scores_submit S b inp db = Inr (x, db')"
  shows "quiet S db db'"
proof -
  from assms(2) obtain eid db1 where
      e: "upsert_entry S (tx_now S db) (b_id b) (ss_entry_slug inp) (ss_entry_name inp) db = Inr (eid, db1)"
      and a: "upsert_score S (tx_now S db) (b_id b) eid (ss_score inp) db1 = Inr (x, db')"
    by (auto simp: scores_submit_Inr)
  from quiet_upsert_entry [OF assms(1) e] upsert_score_same [OF a] scores_submit_inv [OF assms]
  show ?thesis by (simp add: quiet_def)
qed

lemma quiet_references_create: "db_inv S db \<Longrightarrow> references_create S bid inp db = Inr (r, db') \<Longrightarrow> quiet S db db'"
  using references_create_inv [of S db bid inp r db']
  by (auto simp: quiet_def references_create_eq Let_def insert_reference_def split: if_splits)

lemma quiet_references_delete: "db_inv S db \<Longrightarrow> references_delete bid rid db = Inr db' \<Longrightarrow> quiet S db db'"
  using references_delete_inv [of S db bid rid db']
  by (auto simp: quiet_def references_delete_def Let_def)

lemma quiet_collections_create: "db_inv S db \<Longrightarrow> collections_create S inp db = Inr (c, db') \<Longrightarrow> quiet S db db'"
  using collections_create_inv [of S db inp c db']
  by (auto simp: quiet_def collections_create_def on_unique_violation_def insert_collection_def
      split: sum.splits error.splits db_error.splits if_splits)

lemma quiet_collections_patch: "db_inv S db \<Longrightarrow> collections_patch S slug inp db = Inr (c, db') \<Longrightarrow> quiet S db db'"
  using collections_patch_inv [of S db slug inp c db']
  by (auto simp: quiet_def collections_patch_def Let_def)

lemma quiet_collections_delete: "db_inv S db \<Longrightarrow> collections_delete slug db = Inr db' \<Longrightarrow> quiet S db db'"
  using collections_delete_inv [of S db slug db']
  by (auto simp: quiet_def collections_delete_def Let_def delete_collection_rows_def)

lemma quiet_collections_add_board: "db_inv S db \<Longrightarrow> collections_add_board slug inp db = Inr db' \<Longrightarrow> quiet S db db'"
  using collections_add_board_inv [of S db slug inp db']
  by (auto simp: quiet_def collections_add_board_def insert_membership_Inr insert_collection_board_def split: if_splits)

lemma quiet_collections_remove_board:
  "db_inv S db \<Longrightarrow> collections_remove_board slug bslug db = Inr db' \<Longrightarrow> quiet S db db'"
  using collections_remove_board_inv [of S db slug bslug db']
  by (auto simp: quiet_def collections_remove_board_def Let_def)

lemma quiet_realtime_submit:
  assumes "db_inv S db" "realtime_submit S R b inp prefix (db, r) = (x, db', r')"
  shows "quiet S db db'"
proof -
  note u = quiet_upsert_entry [OF assms(1)]
  show ?thesis
    using assms(2) u quiet_refl [OF assms(1)]
    by (auto simp: realtime_submit_def and_then_def on_db_def on_redis_def split: prod.splits sum.splits)
qed

section \<open>Redis beside the database\<close>

lemma on_redis_db: "on_redis msg f s = (x, s') \<Longrightarrow> fst s' = fst s"
  by (auto simp: on_redis_def split: prod.splits sum.splits)

lemma and_then_fst:
  assumes "and_then m f = (x, s')" "fst (snd m) = d"
    "\<And>y s. m = (Inr y, s) \<Longrightarrow> fst s = d \<Longrightarrow> f y s = (x, s') \<Longrightarrow> fst s' = d"
  shows "fst s' = d"
  using assms by (cases m; cases "fst m") auto

lemma on_redis_snd: "fst (snd (on_redis msg f s)) = fst s"
  by (metis on_redis_db prod.collapse)

lemma realtime_latest_db:
  assumes "realtime_latest R b prefix now s = (x, s')"
  shows "fst s' = fst s"
  using assms unfolding realtime_latest_def
proof (rule and_then_fst)
  fix y s1
  assume s1: "fst s1 = fst s"
    and n: "and_then (if y = [] then (Inr [], s1) else on_redis ''Redis error: '' (rd_hget R (entries_key prefix (b_slug b)) (map fst y)) s1)
      (\<lambda>names s. (Inr \<lparr>vp_version = live_version b now, vp_placements = map2 live_placement [0..<length (zip y names)] (zip y names)\<rparr>, s)) = (x, s')"
  from n show "fst s' = fst s" by (rule and_then_fst) (use s1 in \<open>auto simp: on_redis_snd\<close>)
qed (simp add: on_redis_snd)

lemma realtime_clear_db: "realtime_clear R slug prefix s = (x, s') \<Longrightarrow> fst s' = fst s"
  by (auto simp: realtime_clear_def dest: on_redis_db)

lemma delete_snap_keys_db: "fst (delete_snap_keys R keys s) = fst s"
  by (simp add: delete_snap_keys_def split: option.split)

lemma isolate_db: "isolate R b prefix i s = (x, s') \<Longrightarrow> fst s' = fst s"
  unfolding isolate_def Let_def
  by (auto simp: and_then_def dest!: on_redis_db split: prod.splits sum.splits if_splits)

lemma publish_snapshot_db:
  assumes "svc_ok S" "db_inv S (fst s)" "publish_snapshot S R b nt mt mv me read_sk keys s = (x, s')"
  shows "case x of Inl _ \<Rightarrow> fst s' = fst s
    | Inr vp \<Rightarrow> db_inv S (fst s') \<and> published (fst s) (b_id b) (vp_version vp) (fst s')"
proof (cases "lock_board (b_id b) (fst s)")
  case (Inl e)
  with assms(3) show ?thesis by (auto simp: publish_snapshot_def)
next
  case (Inr b')
  note l = lock_board_Inr [OF this]
  show ?thesis
  proof (cases "check_max_versions mv (b_id b') (fst s)")
    case (Inl e)
    with assms(3) Inr show ?thesis by (auto simp: publish_snapshot_def delete_snap_keys_db)
  next
    case (Inr u)
    obtain q s1 where q: "on_redis ''Redis error: '' (rd_zrevrange R read_sk) s = (q, s1)" by (meson surj_pair)
    note s1 = on_redis_db [OF q]
    show ?thesis
    proof (cases q)
      case (Inl e)
      with assms(3) \<open>lock_board (b_id b) (fst s) = Inr b'\<close> Inr q s1 show ?thesis
        by (auto simp: publish_snapshot_def)
    next
      case scores: (Inr scores)
      show ?thesis
      proof (cases "scores = [] \<or> (\<exists>e. check_max_entries me scores = Inl e)")
        case True
        with assms(3) \<open>lock_board (b_id b) (fst s) = Inr b'\<close> Inr q s1 scores show ?thesis
          by (auto simp: publish_snapshot_def delete_snap_keys_db split: if_splits)
      next
        case False
        then have c: "scores \<noteq> []" "check_max_entries me scores = Inr ()" by (cases "check_max_entries me scores"; simp)+
        show ?thesis
        proof (cases "publish_live S b' nt mt scores (fst s)")
          case (Inl e)
          with assms(3) \<open>lock_board (b_id b) (fst s) = Inr b'\<close> \<open>check_max_versions mv (b_id b') (fst s) = Inr u\<close> q s1 scores c
          show ?thesis by (auto simp: publish_snapshot_def on_db_def)
        next
          case (Inr y)
          obtain vp d where y: "y = (vp, d)" by (cases y)
          have "x = Inr vp" "fst s' = d"
            using assms(3) \<open>lock_board (b_id b) (fst s) = Inr b'\<close> \<open>check_max_versions mv (b_id b') (fst s) = Inr u\<close> q s1 scores c Inr y
            by (auto simp: publish_snapshot_def on_db_def delete_snap_keys_db)
          with publish_live_standings(3,4) [OF assms(1,2), of b' nt mt scores vp d] l Inr y show ?thesis by simp
        qed
      qed
    qed
  qed
qed

lemma realtime_snapshot_db:
  assumes "svc_ok S" "db_inv S db" "realtime_snapshot S R b nt mt prefix mv me i (db, r) = (x, db', r')"
  shows "case x of Inl _ \<Rightarrow> db' = db | Inr vp \<Rightarrow> db_inv S db' \<and> published db (b_id b) (vp_version vp) db'"
proof -
  obtain q s1 where q: "isolate R b prefix i (db, r) = (q, s1)" by (meson surj_pair)
  note s1 = isolate_db [OF q]
  show ?thesis
  proof (cases q)
    case (Inl e)
    with assms(3) q s1 show ?thesis by (auto simp: realtime_snapshot_def)
  next
    case (Inr y)
    obtain sk keys where y: "y = (sk, keys)" by (cases y)
    from assms(3) q Inr y have "publish_snapshot S R b nt mt mv me sk keys s1 = (x, db', r')"
      by (simp add: realtime_snapshot_def)
    from publish_snapshot_db [OF assms(1) _ this] s1 assms(2) show ?thesis by (cases x) simp_all
  qed
qed

section \<open>The effect of a request on the database\<close>

text \<open>
  What a request does to the boards and their versions, and which request may do it: only a
  creation adds a board, only a publication or a snapshot of a board adds a version to it, and
  only the deletion of a board removes it.
\<close>

datatype board_change = Stays | Creates uuid | Publishes uuid "placement list" | Deletes uuid

definition allowed_change :: "request \<Rightarrow> db \<Rightarrow> board_change \<Rightarrow> bool" where
  "allowed_change rq d ch \<longleftrightarrow>
     (case ch of
        Stays \<Rightarrow> True
      | Creates bid \<Rightarrow> \<exists>inp. rq = BoardsCreate inp
      | Publishes bid ps \<Rightarrow>
          \<exists>slug b. boards_get_by_slug slug d = Inr b \<and> b_id b = bid \<and>
            ((\<exists>inp. rq = VersionsCreate slug inp) \<or> (\<exists>inp. rq = ScoresSnapshot slug inp))
      | Deletes bid \<Rightarrow> \<exists>slug b. boards_get_by_slug slug d = Inr b \<and> b_id b = bid \<and> rq = BoardsDelete slug)"

definition version_placements :: "db \<Rightarrow> version \<Rightarrow> placement list" where
  "version_placements db v = filter (\<lambda>p. p_version_id p = v_id v) (placements db)"

definition changed_by :: "db \<Rightarrow> board_change \<Rightarrow> db \<Rightarrow> bool" where
  "changed_by d ch d' \<longleftrightarrow>
     (case ch of
        Stays \<Rightarrow> versions d' = versions d \<and> placements d' = placements d \<and> map b_id (boards d') = map b_id (boards d)
      | Creates bid \<Rightarrow> versions d' = versions d \<and> placements d' = placements d \<and> bid \<notin> b_id ` set (boards d) \<and>
          map b_id (boards d') = map b_id (boards d) @ [bid]
      | Publishes bid ps \<Rightarrow> \<exists>v. published d bid v d' \<and> ps = version_placements d' v
      | Deletes bid \<Rightarrow> d' = delete_board_rows [bid] d)"

definition db_effect :: "svc \<Rightarrow> request \<Rightarrow> db \<Rightarrow> db \<Rightarrow> bool" where
  "db_effect S rq d d' \<longleftrightarrow> db_inv S d' \<and> (\<exists>ch. allowed_change rq d ch \<and> changed_by d ch d')"

lemma effect_quiet: "quiet S d d' \<Longrightarrow> db_effect S rq d d'"
  unfolding db_effect_def by (rule conjI, simp add: quiet_def, rule exI [of _ Stays])
    (simp add: quiet_def allowed_change_def changed_by_def)

lemma effect_published:
  assumes "db_inv S d'" "published d (b_id b) v d'" "boards_get_by_slug slug d = Inr b"
    "(\<exists>inp. rq = VersionsCreate slug inp) \<or> (\<exists>inp. rq = ScoresSnapshot slug inp)"
  shows "db_effect S rq d d'"
  unfolding db_effect_def
  by (intro conjI assms(1) exI [of _ "Publishes (b_id b) (version_placements d' v)"])
    (use assms(2-4) in \<open>auto simp: allowed_change_def changed_by_def\<close>)

definition effects :: "(db \<Rightarrow> bool) \<Rightarrow> 'a result \<times> ('r, 'c) app \<Rightarrow> bool" where
  "effects P r \<longleftrightarrow> P (ap_db (snd r))"

named_theorems effect_intros \<open>the effect of a handler, step by step\<close>

lemma effects_done [effect_intros]: "P (ap_db a) \<Longrightarrow> effects P (m, a)"
  by (simp add: effects_def)

lemma effects_check [effect_intros]:
  "P (ap_db a) \<Longrightarrow> (\<And>u. effects P (f u a)) \<Longrightarrow> effects P (and_then (check m a) f)"
  by (cases m) (simp_all add: effects_done)

lemma effects_read [effect_intros]:
  "P (ap_db a) \<Longrightarrow> (\<And>x. g (ap_db a) = Inr x \<Longrightarrow> effects P (f x a)) \<Longrightarrow> effects P (and_then (read_db g a) f)"
  by (cases "g (ap_db a)") (simp_all add: effects_done)

lemma effects_pure [effect_intros]:
  "P (ap_db a) \<Longrightarrow> (\<And>x. effects P (f x a)) \<Longrightarrow> effects P (and_then (m, a) f)"
  by (cases m) (simp_all add: effects_done)

lemma effects_if [effect_intros]:
  "(b \<Longrightarrow> effects P x) \<Longrightarrow> (\<not> b \<Longrightarrow> effects P y) \<Longrightarrow> effects P (if b then x else y)"
  by simp

lemma effects_write [effect_intros]:
  assumes "P (ap_db a)" "\<And>x d'. g (ap_db a) = Inr (x, d') \<Longrightarrow> P d'" "\<And>x s. ap_db (snd (f x s)) = ap_db s"
  shows "effects P (and_then (write_db g a) f)"
  using assms by (auto simp: effects_def and_then_def write_db_def split: sum.splits)

lemma effects_exec [effect_intros]:
  assumes "P (ap_db a)" "\<And>d'. g (ap_db a) = Inr d' \<Longrightarrow> P d'" "\<And>x s. ap_db (snd (f x s)) = ap_db s"
  shows "effects P (and_then (exec_db g a) f)"
  unfolding exec_db_def by (rule effects_write) (use assms in auto)

lemma effects_world [effect_intros]:
  assumes "P (ap_db a)" "\<And>x d' r'. g (ap_db a, ap_redis a) = (x, d', r') \<Longrightarrow> P d'"
    "\<And>x s. ap_db (snd (f x s)) = ap_db s"
  shows "effects P (and_then (on_world g a) f)"
  using assms by (auto simp: effects_def and_then_def on_world_def split: prod.splits sum.splits)

lemma effect_boards_create:
  assumes "db_inv S d" "boards_create S inp d = Inr (b, d')"
  shows "db_effect S (BoardsCreate inp) d d'"
proof -
  have n: "b_id b \<notin> b_id ` set (boards d)" "d' = d\<lparr>boards := boards d @ [b], drawn := Suc (drawn d)\<rparr>"
    using assms(2) by (auto simp: boards_create_Inr insert_new_board_def on_unique_violation_def insert_board_def
        split: sum.splits error.splits db_error.splits if_splits)
  then show ?thesis
    unfolding db_effect_def
    by (intro conjI boards_create_inv [OF assms] exI [of _ "Creates (b_id b)"])
      (simp_all add: allowed_change_def changed_by_def)
qed

lemma effect_boards_delete:
  assumes "db_inv S d" "boards_delete slug d = Inr d'"
  shows "db_effect S (BoardsDelete slug) d d'"
proof -
  obtain b where b: "find (\<lambda>b. b_slug b = slug) (boards d) = Some b" "d' = delete_board_rows [b_id b] d"
    by (rule boards_delete_Inr [OF assms])
  then show ?thesis
    unfolding db_effect_def
    by (intro conjI boards_delete_inv [OF assms] exI [of _ "Deletes (b_id b)"])
      (simp_all add: allowed_change_def changed_by_def boards_get_by_slug_def)
qed

lemma effect_versions_create:
  assumes "svc_ok S" "db_inv S d" "boards_get_by_slug slug d = Inr b" "versions_create S b inp' mx d = Inr (vp, d')"
  shows "db_effect S (VersionsCreate slug inp) d d'"
  using versions_create_contract [OF assms(1,2,4)] by (auto intro: effect_published [OF _ _ assms(3)])

lemma effect_scores_snapshot:
  assumes "svc_ok S" "db_inv S d" "boards_get_by_slug slug d = Inr b" "scores_snapshot S b nt mt mv me d = Inr (vp, d')"
  shows "db_effect S (ScoresSnapshot slug inp) d d'"
  using scores_snapshot_contract [OF assms(1,2,4)] by (auto intro: effect_published [OF _ _ assms(3)])

lemma effect_realtime_snapshot:
  assumes "svc_ok S" "db_inv S d" "boards_get_by_slug slug d = Inr b"
    "realtime_snapshot S R b nt mt prefix mv me i (d, r) = (x, d', r')"
  shows "db_effect S (ScoresSnapshot slug inp) d d'"
  using realtime_snapshot_db [OF assms(1,2,4)] effect_quiet [OF quiet_refl [OF assms(2)]]
  by (cases x) (auto intro: effect_published [OF _ _ assms(3)])

lemma effect_realtime_latest:
  "db_inv S d \<Longrightarrow> realtime_latest R b prefix now (d, r) = (x, d', r') \<Longrightarrow> db_effect S rq d d'"
  by (drule realtime_latest_db) (simp add: effect_quiet)

lemmas write_effects =
  quiet_boards_patch [THEN effect_quiet, rotated]
  quiet_entries_create [THEN effect_quiet, rotated] quiet_entries_patch [THEN effect_quiet, rotated]
  quiet_entries_delete [THEN effect_quiet, rotated] quiet_scores_submit [THEN effect_quiet, rotated]
  quiet_references_create [THEN effect_quiet, rotated] quiet_references_delete [THEN effect_quiet, rotated]
  quiet_collections_create [THEN effect_quiet, rotated] quiet_collections_patch [THEN effect_quiet, rotated]
  quiet_collections_delete [THEN effect_quiet, rotated] quiet_collections_add_board [THEN effect_quiet, rotated]
  quiet_collections_remove_board [THEN effect_quiet, rotated] quiet_realtime_submit [THEN effect_quiet, rotated]
  effect_boards_create [rotated] effect_boards_delete [rotated] effect_realtime_latest [rotated]

lemma clear_redis_db [simp]: "ap_db (clear_redis X board a) = ap_db a"
  by (auto simp: clear_redis_def on_world_def dest!: realtime_clear_db split: option.split prod.split)

lemmas route_defs =
  route_boards_create_def route_boards_list_def route_boards_get_def route_boards_update_def route_boards_delete_def
  route_entries_create_def route_entries_list_def route_entries_get_def route_entries_update_def route_entries_delete_def
  route_entries_history_def route_versions_create_def route_versions_list_def route_versions_get_def
  route_versions_latest_def route_versions_diff_def route_versions_since_def route_scores_submit_def
  route_scores_snapshot_def route_collections_create_def route_collections_list_def route_collections_get_def
  route_collections_update_def route_collections_delete_def route_collections_add_board_def
  route_collections_remove_board_def route_references_create_def route_references_list_def route_references_delete_def

text \<open>The version of a snapshot comes from Redis or from the database.\<close>

lemma effects_snapshot [effect_intros]:
  assumes "P (ap_db a)"
    "\<And>R x d' r'. g R (ap_db a, ap_redis a) = (x, d', r') \<Longrightarrow> P d'"
    "\<And>x d'. h (ap_db a) = Inr (x, d') \<Longrightarrow> P d'" "\<And>x s. ap_db (snd (f x s)) = ap_db s"
  shows "effects P (and_then ((if c then and_then (m, a) (\<lambda>R. on_world (g R)) else write_db h a)) f)"
proof (cases c)
  case False
  then show ?thesis using assms by (simp add: effects_write)
next
  case True
  show ?thesis
  proof (cases m)
    case (Inl e)
    with True assms show ?thesis by (simp add: effects_done)
  next
    case (Inr R)
    with True assms show ?thesis by (simp add: effects_world)
  qed
qed

lemma handle_effects:
  assumes "svc_ok (cx_svc X)" "db_inv (cx_svc X) (ap_db a)"
  shows "effects (db_effect (cx_svc X) rq (ap_db a)) (handle X rq a)"
proof -
  note w = write_effects [OF _ assms(2)]
  note same = effect_quiet [OF quiet_refl [OF assms(2)]]
  note pub = effect_versions_create [OF assms] effect_scores_snapshot [OF assms] effect_realtime_snapshot [OF assms]
  show ?thesis
    by (cases rq; simp only: handle.simps route_defs;
      (intro effect_intros same; (erule w | (erule pub, assumption) | (simp; (rule same | erule w)?))?))
qed

section \<open>Every request keeps the invariant\<close>

text \<open>A sequence of requests, each with its own context (the time differs, for one), mode and headers.\<close>

fun serve_run ::
    "'k jwt_lib \<Rightarrow> (('r, 'c, 'x) ctx \<times> 'k auth_mode \<times> headers \<times> request) list \<Rightarrow> ('r, 'c) app \<Rightarrow> ('r, 'c) app" where
  "serve_run J [] a = a"
| "serve_run J ((X, mode, hs, rq) # rest) a = serve_run J rest (snd (serve J mode X hs rq a))"

lemma serve_effect:
  assumes "svc_ok (cx_svc X)" "db_inv (cx_svc X) (ap_db a)"
  shows "db_effect (cx_svc X) rq (ap_db a) (ap_db (snd (serve J mode X hs rq a)))"
  using handle_effects [OF assms, of rq] effect_quiet [OF quiet_refl [OF assms(2)]]
  by (auto simp: serve_def effects_def split: sum.split prod.split)

text \<open>
  C29: the server never corrupts its database. Whatever requests arrive, of whatever clients, with
  whatever answers, every table keeps its keys, its foreign keys and its CHECK constraints, and
  no identifier is used twice.
\<close>

theorem requests_keep_invariant:
  assumes "svc_ok S" "\<forall>(X, _, _, _) \<in> set rqs. cx_svc X = S" "db_inv S (ap_db a)"
  shows "db_inv S (ap_db (serve_run J rqs a))"
  using assms(2,3)
proof (induction rqs arbitrary: a)
  case (Cons q rqs)
  obtain X mode hs rq where q: "q = (X, mode, hs, rq)" by (cases q)
  with Cons.prems serve_effect [of X a rq J mode hs] assms(1)
  have "db_inv S (ap_db (snd (serve J mode X hs rq a)))" by (simp add: db_effect_def)
  with Cons q show ?case by simp
qed simp

section \<open>The versions of a board are an append-only log\<close>

text \<open>
  The abstract state: which boards there are, and for each of them the log of its versions, a
  number and the placements each. A step leaves everything alone, adds a new board with an empty
  log, appends one version with the next number to the log of a board, or removes a board with its
  log; a board that stays never loses a version.
\<close>

type_synonym log = "(i32 \<times> placement list) list"

inductive log_step :: "(uuid \<rightharpoonup> log) \<Rightarrow> board_change \<Rightarrow> (uuid \<rightharpoonup> log) \<Rightarrow> bool" where
  stay: "log_step L Stays L"
| create: "L bid = None \<Longrightarrow> log_step L (Creates bid) (L(bid \<mapsto> []))"
| publish: "L bid = Some l \<Longrightarrow> n = 1 + int (length l) \<Longrightarrow> log_step L (Publishes bid ps) (L(bid \<mapsto> l @ [(n, ps)]))"
| delete: "L bid = Some l \<Longrightarrow> log_step L (Deletes bid) (L(bid := None))"

definition version_log :: "db \<Rightarrow> uuid \<Rightarrow> log" where
  "version_log db bid = map (\<lambda>v. (v_number v, version_placements db v)) (board_versions bid db)"

definition abs_log :: "db \<Rightarrow> uuid \<rightharpoonup> log" where
  "abs_log db bid = (if bid \<in> b_id ` set (boards db) then Some (version_log db bid) else None)"

lemma published_placements:
  assumes "published d bid v d'" "w \<in> set (versions d)"
  shows "version_placements d' w = version_placements d w"
proof -
  have "version_placements d w =
      filter (\<lambda>p. p_version_id p = v_id w) (filter (\<lambda>p. p_version_id p \<in> v_id ` set (versions d)) (placements d'))"
    using assms(1) by (simp add: published_def version_placements_def)
  also have "\<dots> = version_placements d' w"
    using assms(2) by (auto simp: version_placements_def conj_commute intro!: filter_cong)
  finally show ?thesis by simp
qed

lemma published_log:
  assumes "published d bid v d'" "contiguous bid d"
  shows "version_log d' = (version_log d)(bid := version_log d bid @ [(1 + int (length (version_log d bid)), version_placements d' v)])"
proof
  fix bid'
  have "board_versions bid' d' = board_versions bid' d @ (if bid' = bid then [v] else [])"
    using assms(1) by (auto simp: published_def board_versions_def)
  moreover have "map (\<lambda>v. (v_number v, version_placements d' v)) (board_versions bid' d) = version_log d bid'"
    using published_placements [OF assms(1)] by (auto simp: version_log_def board_versions_def)
  moreover have "v_number v = 1 + int (length (version_log d bid))"
    using assms(1) contiguous_max [OF assms(2)] by (simp add: published_def version_log_def)
  ultimately show "version_log d' bid' =
      ((version_log d)(bid := version_log d bid @ [(1 + int (length (version_log d bid)), version_placements d' v)])) bid'"
    by (simp add: version_log_def)
qed

lemma deleted_log:
  assumes "db_inv S d" "bid' \<noteq> bid"
  shows "version_log (delete_board_rows [bid] d) bid' = version_log d bid'"
proof -
  have v: "versions (delete_board_rows [bid] d) = filter (\<lambda>v. v_board_id v \<noteq> bid) (versions d)"
    by (simp add: delete_board_rows_def Let_def)
  have "version_placements (delete_board_rows [bid] d) w = version_placements d w"
    if "w \<in> set (versions d)" "v_board_id w \<noteq> bid" for w
  proof -
    have "\<not> placement_on d bid p" if "p_version_id p = v_id w" for p
    proof
      assume "placement_on d bid p"
      then have "(v_id w, bid) \<in> version_keys d" using that by (simp add: placement_on_def)
      moreover have "(v_id w, v_board_id w) \<in> version_keys d" using \<open>w \<in> set (versions d)\<close> by (auto simp: version_keys_def)
      moreover have "keys_ok d" using assms(1) by (simp add: db_inv_def)
      ultimately show False using version_key_fun \<open>v_board_id w \<noteq> bid\<close> by blast
    qed
    then show ?thesis
      by (auto simp: version_placements_def delete_board_placements [OF assms(1)] intro!: filter_cong)
  qed
  with assms(2) show ?thesis
    by (auto simp: version_log_def board_versions_def v intro!: map_cong filter_cong)
qed

text \<open>The log of a board holds the numbers 1, 2, ...\<close>

definition log_numbered :: "log \<Rightarrow> bool" where
  "log_numbered l \<longleftrightarrow> map fst l = map (\<lambda>i. 1 + int i) [0..<length l]"

definition logs_numbered :: "(uuid \<rightharpoonup> log) \<Rightarrow> bool" where
  "logs_numbered L \<longleftrightarrow> (\<forall>l \<in> ran L. log_numbered l)"

lemma contiguous_log: "contiguous bid d \<longleftrightarrow> log_numbered (version_log d bid)"
  by (simp add: contiguous_def log_numbered_def version_log_def comp_def)

lemma log_step_numbered:
  assumes "log_step L ch L'" "logs_numbered L"
  shows "logs_numbered L'"
  using assms by cases (auto simp: logs_numbered_def log_numbered_def ran_def)

lemma effect_log:
  assumes "db_inv S d" "allowed_change rq d ch" "changed_by d ch d'" "logs_numbered (abs_log d)"
  shows "log_step (abs_log d) ch (abs_log d')"
proof (cases ch)
  case Stays
  with assms(3) have d: "versions d' = versions d" "placements d' = placements d" "b_id ` set (boards d') = b_id ` set (boards d)"
    by (auto simp: changed_by_def simp flip: set_map)
  then have "abs_log d' = abs_log d"
    by (simp add: fun_eq_iff abs_log_def version_log_def board_versions_def version_placements_def)
  then show ?thesis by (simp add: Stays log_step.stay)
next
  case (Creates bid)
  with assms(3) have d: "versions d' = versions d" "placements d' = placements d" "bid \<notin> b_id ` set (boards d)"
      "b_id ` set (boards d') = insert bid (b_id ` set (boards d))"
    by (auto simp: changed_by_def simp flip: set_map)
  have "board_versions bid d = []"
    using assms(1) d(3) by (auto simp: board_versions_def filter_empty_conv db_inv_def refs_ok_def)
  with d(1,2,4) have "abs_log d' = (abs_log d)(bid \<mapsto> [])"
    by (auto simp: fun_eq_iff abs_log_def version_log_def board_versions_def version_placements_def)
  with d(3) show ?thesis by (simp add: Creates abs_log_def log_step.create)
next
  case (Publishes bid ps)
  with assms(3) obtain v where v: "published d bid v d'" "ps = version_placements d' v" by (auto simp: changed_by_def)
  have bid: "bid \<in> b_id ` set (boards d)"
    using assms(2) by (auto simp: Publishes allowed_change_def boards_get_by_slug_def dest: find_Some_in)
  then have l: "abs_log d bid = Some (version_log d bid)" by (simp add: abs_log_def)
  with assms(4) have "contiguous bid d" by (auto simp: logs_numbered_def contiguous_log intro: ranI)
  from published_log [OF v(1) this] v bid
  have "abs_log d' = (abs_log d)(bid \<mapsto> version_log d bid @ [(1 + int (length (version_log d bid)), ps)])"
    by (auto simp: fun_eq_iff abs_log_def published_def)
  with l show ?thesis by (simp add: Publishes log_step.publish)
next
  case (Deletes bid)
  with assms(3) have d': "d' = delete_board_rows [bid] d" by (simp add: changed_by_def)
  have bid: "bid \<in> b_id ` set (boards d)"
    using assms(2) by (auto simp: Deletes allowed_change_def boards_get_by_slug_def dest: find_Some_in)
  have "b_id ` set (boards d') = b_id ` set (boards d) - {bid}"
    by (auto simp: d' delete_board_rows_def Let_def)
  with deleted_log [OF assms(1)] have "abs_log d' = (abs_log d)(bid := None)"
    by (auto simp: fun_eq_iff abs_log_def d')
  moreover have "abs_log d bid = Some (version_log d bid)" using bid by (simp add: abs_log_def)
  ultimately show ?thesis by (simp add: Deletes log_step.delete)
qed

text \<open>
  C30: the server refines an append-only log. Seen through its boards and the logs of their
  versions, every request, whatever its answer, is one step of the abstract machine, and only a
  request made for it: a creation adds a board with an empty log, a publication or a snapshot
  appends one version to the log of the board it names, under the next number, the deletion of a
  board removes that board and its log, and everything else changes no log. So a published version
  keeps its number and its placements until its board is deleted, and the numbers of a board stay
  1, 2, ... without a gap.
\<close>

theorem requests_refine_log:
  assumes "svc_ok (cx_svc X)" "db_inv (cx_svc X) (ap_db a)" "logs_numbered (abs_log (ap_db a))"
    and "serve J mode X hs rq a = (m, a')"
  shows "(\<exists>ch. allowed_change rq (ap_db a) ch \<and> log_step (abs_log (ap_db a)) ch (abs_log (ap_db a'))) \<and>
    logs_numbered (abs_log (ap_db a'))"
proof -
  have "db_effect (cx_svc X) rq (ap_db a) (ap_db a')"
    using serve_effect [OF assms(1,2), of rq J mode hs] assms(4) by simp
  then obtain ch where ch: "allowed_change rq (ap_db a) ch" "changed_by (ap_db a) ch (ap_db a')"
    by (auto simp: db_effect_def)
  from effect_log [OF assms(2) ch assms(3)] log_step_numbered assms(3) ch(1) show ?thesis by blast
qed

section \<open>What a refused request leaves behind\<close>

definition unchanged :: "('r, 'c) app \<Rightarrow> ('r, 'c) app \<Rightarrow> bool" where
  "unchanged a a' \<longleftrightarrow> ap_db a' = ap_db a \<and> ap_deliveries a' = ap_deliveries a \<and> ap_bus a' = ap_bus a"

definition fails_silently :: "('r, 'c) app \<Rightarrow> 'a result \<times> ('r, 'c) app \<Rightarrow> bool" where
  "fails_silently a r \<longleftrightarrow> (\<forall>e. fst r = Inl e \<longrightarrow> unchanged a (snd r))"

lemma unchanged_refl [simp]: "unchanged a a"
  by (simp add: unchanged_def)

named_theorems fail_intros \<open>a handler fails without a trace, step by step\<close>

lemma fails_done [fail_intros]: "fails_silently a (Inr x, s)"
  by (simp add: fails_silently_def)

lemma fails_check [fail_intros]:
  "unchanged a s \<Longrightarrow> (\<And>u. fails_silently a (f u s)) \<Longrightarrow> fails_silently a (and_then (check m s) f)"
  by (cases m) (simp_all add: fails_silently_def)

lemma fails_read [fail_intros]:
  "unchanged a s \<Longrightarrow> (\<And>x. fails_silently a (f x s)) \<Longrightarrow> fails_silently a (and_then (read_db g s) f)"
  by (cases "g (ap_db s)") (simp_all add: fails_silently_def)

lemma fails_pure [fail_intros]:
  "unchanged a s \<Longrightarrow> (\<And>x. fails_silently a (f x s)) \<Longrightarrow> fails_silently a (and_then (m, s) f)"
  by (cases m) (simp_all add: fails_silently_def)

lemma fails_if [fail_intros]: "(b \<Longrightarrow> fails_silently a x) \<Longrightarrow> (\<not> b \<Longrightarrow> fails_silently a y) \<Longrightarrow> fails_silently a (if b then x else y)"
  by simp

lemma fails_write [fail_intros]:
  "unchanged a s \<Longrightarrow> (\<And>x s. \<not> (\<exists>e. fst (f x s) = Inl e)) \<Longrightarrow> fails_silently a (and_then (write_db g s) f)"
  by (auto simp: fails_silently_def and_then_def write_db_def split: sum.splits)

lemma fails_exec [fail_intros]:
  "unchanged a s \<Longrightarrow> (\<And>x s. \<not> (\<exists>e. fst (f x s) = Inl e)) \<Longrightarrow> fails_silently a (and_then (exec_db g s) f)"
  unfolding exec_db_def by (rule fails_write)

lemma fails_world:
  assumes "unchanged a s" "\<And>e d' r'. g (ap_db s, ap_redis s) = (Inl e, d', r') \<Longrightarrow> d' = ap_db s"
    "\<And>x s. \<not> (\<exists>e. fst (f x s) = Inl e)"
  shows "fails_silently a (and_then (on_world g s) f)"
  using assms by (auto simp: fails_silently_def unchanged_def and_then_def on_world_def split: prod.splits sum.splits)

lemma unchanged_clear_redis [simp]: "unchanged a (clear_redis X board a)"
  by (auto simp: unchanged_def clear_redis_def on_world_def split: option.split prod.split)
    (auto dest: realtime_clear_db)

lemma fails_snapshot [fail_intros]:
  assumes "unchanged a s" "\<And>R e d' r'. g R (ap_db s, ap_redis s) = (Inl e, d', r') \<Longrightarrow> d' = ap_db s"
    "\<And>x s. \<not> (\<exists>e. fst (f x s) = Inl e)"
  shows "fails_silently a (and_then ((if c then and_then (m, s) (\<lambda>R. on_world (g R)) else write_db h s)) f)"
proof (cases c)
  case True
  show ?thesis
  proof (cases m)
    case (Inr R)
    with True assms show ?thesis by (simp add: fails_world)
  qed (use True assms in \<open>simp add: fails_silently_def\<close>)
qed (simp add: assms fails_write)

lemma realtime_submit_fails:
  assumes "realtime_submit S R b inp prefix (db, r) = (Inl e, db', r')"
  shows "db' = db \<or> (\<exists>m. e = ServiceUnavailable m) \<and>
    (\<exists>eid. upsert_entry S (tx_now S db) (b_id b) (ss_entry_slug inp) (ss_entry_name inp) db = Inr (eid, db'))"
  using assms
  by (auto simp: realtime_submit_def and_then_def on_db_def on_redis_def split: prod.splits sum.splits)

text \<open>The one write that stays after an error: the entry of a score whose Redis commands failed.\<close>

definition entry_left :: "('r, 'c, 'x) ctx \<Rightarrow> request \<Rightarrow> db \<Rightarrow> db \<Rightarrow> bool" where
  "entry_left X rq d d' \<longleftrightarrow>
     (\<exists>slug inp b e. rq = ScoresSubmit slug inp \<and> boards_get_by_slug slug d = Inr b \<and> b_realtime b \<and>
        entry_put (tx_now (cx_svc X) d) (b_id b) (ss_entry_slug inp) (ss_entry_name inp) (entries d) e (entries d') \<and>
        d' = d\<lparr>entries := entries d', drawn := drawn d'\<rparr>)"

lemma submit_fails:
  assumes "db_inv (cx_svc X) (ap_db a)" "route_scores_submit X slug inp a = (Inl e, a')"
  shows "unchanged a (a'\<lparr>ap_db := ap_db a\<rparr>) \<and>
    (ap_db a' = ap_db a \<or> entry_left X (ScoresSubmit slug inp) (ap_db a) (ap_db a') \<and> (\<exists>m. e = ServiceUnavailable m))"
proof (cases "boards_get_by_slug slug (ap_db a)")
  case (Inl e')
  with assms(2) show ?thesis by (auto simp: route_scores_submit_def)
next
  case (Inr b)
  show ?thesis
  proof (cases "b_realtime b")
    case True
    show ?thesis
    proof (cases "redis_conn X")
      case (Inl e')
      with assms(2) Inr \<open>boards_get_by_slug slug (ap_db a) = Inr b\<close> True show ?thesis by (auto simp: route_scores_submit_def)
    next
      case R: (Inr R)
      obtain x d' r' where w: "realtime_submit (cx_svc X) R b inp (key_prefix X) (ap_db a, ap_redis a) = (x, d', r')"
        by (rule prod_cases3)
      from assms(2) Inr True R w have x: "x = Inl e" and a': "a' = a\<lparr>ap_db := d', ap_redis := r'\<rparr>"
        by (auto simp: route_scores_submit_def on_world_def and_then_def split: sum.splits)
      have k: "keys_ok (ap_db a)" using assms(1) by (simp add: db_inv_def)
      from realtime_submit_fails [OF w [unfolded x]] have "d' = ap_db a \<or>
          entry_left X (ScoresSubmit slug inp) (ap_db a) d' \<and> (\<exists>m. e = ServiceUnavailable m)"
      proof
        assume f: "(\<exists>m. e = ServiceUnavailable m) \<and> (\<exists>eid. upsert_entry (cx_svc X) (tx_now (cx_svc X) (ap_db a)) (b_id b)
            (ss_entry_slug inp) (ss_entry_name inp) (ap_db a) = Inr (eid, d'))"
        then obtain eid where "upsert_entry (cx_svc X) (tx_now (cx_svc X) (ap_db a)) (b_id b)
            (ss_entry_slug inp) (ss_entry_name inp) (ap_db a) = Inr (eid, d')" by blast
        from upsert_entry_put [OF k this] Inr True have "entry_left X (ScoresSubmit slug inp) (ap_db a) d'"
          unfolding entry_left_def by blast
        with f show ?thesis by blast
      qed simp
      with a' show ?thesis by (simp add: unchanged_def)
    qed
  next
    case False
    with assms(2) Inr show ?thesis
      by (auto simp: route_scores_submit_def and_then_def write_db_def split: sum.splits)
  qed
qed

text \<open>
  C32: a refused request leaves no trace. When a request ends with an error, nothing is announced
  to the webhooks or on the event bus and the database is as it was. The one exception is a score
  for a realtime board, answered with 503 when Redis failed: the entry named by the submission may
  then have been created on that board, or the entry it names given the submitted name and a new
  date, and nothing else of the database differs.
\<close>

theorem refused_request_silent:
  assumes "svc_ok (cx_svc X)" "db_inv (cx_svc X) (ap_db a)" "handle X rq a = (Inl e, a')"
  shows "ap_deliveries a' = ap_deliveries a \<and> ap_bus a' = ap_bus a \<and>
    (ap_db a' = ap_db a \<or> entry_left X rq (ap_db a) (ap_db a') \<and> fst (into_response e) = 503)"
proof (cases "\<exists>slug inp. rq = ScoresSubmit slug inp")
  case True
  then obtain slug inp where rq: "rq = ScoresSubmit slug inp" by blast
  with submit_fails [OF assms(2), of slug inp e a'] assms(3) show ?thesis by (auto simp: unchanged_def)
next
  case False
  have s: "d' = ap_db a" if "realtime_snapshot (cx_svc X) R b nt mt p mv me i (ap_db a, r) = (Inl e', d', r')"
    for R b nt mt p mv me i r e' d' r'
    using realtime_snapshot_db [OF assms(1,2) that] by simp
  have l: "d' = ap_db a" if "realtime_latest R b p now (ap_db a, r) = (Inl e', d', r')" for R b p now r e' d' r'
    using realtime_latest_db [OF that] by simp
  have "fails_silently a (handle X rq a)"
    using False
    by (cases rq; simp only: handle.simps route_defs;
      (intro fail_intros fails_world; (simp; fail)?; (auto dest: s l)?))
  with assms(3) show ?thesis by (auto simp: fails_silently_def unchanged_def)
qed

section \<open>Announcements\<close>

text \<open>The state after a new version of a board was announced.\<close>

definition version_notified :: "('r, 'c, 'x) ctx \<Rightarrow> board \<Rightarrow> version \<Rightarrow> ('r, 'c) app \<Rightarrow> ('r, 'c) app \<Rightarrow> bool" where
  "version_notified X b v a a' \<longleftrightarrow>
     ap_deliveries a' = ap_deliveries a @
       fire (cx_webhook X) (cx_env X) (cfg_webhooks (cx_config X)) VersionCreated (b_slug b) (b_name b)
         (Some \<lparr>vi_version_number = v_number v, vi_note = v_note v\<rparr>) (Some (v_created_at v)) \<and>
     ap_bus a' = map_option (publish_version (cx_chan X) (b_slug b) (v_number v) (v_note v)) (ap_bus a)"

definition version_answer :: "('r, 'c, 'x) ctx \<Rightarrow> string \<Rightarrow> ('r, 'c) app \<Rightarrow> response result \<times> ('r, 'c) app \<Rightarrow> bool" where
  "version_answer X slug a r \<longleftrightarrow>
     (case fst r of
        Inl e \<Rightarrow> unchanged a (snd r)
      | Inr resp \<Rightarrow>
          \<exists>b vp. boards_get_by_slug slug (ap_db a) = Inr b \<and> resp = (201, VersionBody vp) \<and>
            published (ap_db a) (b_id b) (vp_version vp) (ap_db (snd r)) \<and>
            version_notified X b (vp_version vp) a (snd r))"

lemma answer_refused: "unchanged a s \<Longrightarrow> version_answer X slug a (Inl e, s)"
  by (simp add: version_answer_def)

lemma answer_check:
  "(\<And>u. m = Inr u \<Longrightarrow> version_answer X slug a (f u a)) \<Longrightarrow> version_answer X slug a (and_then (check m a) f)"
  by (cases m) (simp_all add: answer_refused)

lemma answer_board:
  "(\<And>b. boards_get_by_slug slug (ap_db a) = Inr b \<Longrightarrow> version_answer X slug a (f b a)) \<Longrightarrow>
   version_answer X slug a (and_then (read_db (boards_get_by_slug slug) a) f)"
  by (cases "boards_get_by_slug slug (ap_db a)") (simp_all add: answer_refused)

lemma answer_publish:
  assumes "boards_get_by_slug slug (ap_db a) = Inr b"
    and "case fst r of Inl e \<Rightarrow> unchanged a (snd r)
      | Inr vp \<Rightarrow> published (ap_db a) (b_id b) (vp_version vp) (ap_db (snd r)) \<and>
          ap_deliveries (snd r) = ap_deliveries a \<and> ap_bus (snd r) = ap_bus a"
  shows "version_answer X slug a (and_then r (\<lambda>vp a. (Inr (201, VersionBody vp), notify_version X b (vp_version vp) a)))"
proof (cases "fst r")
  case (Inl e)
  with assms(2) show ?thesis by (cases r) (simp add: answer_refused)
next
  case (Inr vp)
  with assms show ?thesis
    by (cases r) (auto simp: version_answer_def version_notified_def notify_version_def fire_app_def announce_version_def)
qed

text \<open>
  C31: a version is announced exactly when it was published. Creating a version and taking a
  snapshot, of an accumulative board or of a realtime one, either answer with an error and leave
  database, webhooks and event bus as they were, or answer 201 with the version that was published
  on the board under the next number, and this number and note go to every destination of
  \<open>version.created\<close> and, once, on the event bus.
\<close>

theorem version_announced:
  assumes "svc_ok (cx_svc X)" "db_inv (cx_svc X) (ap_db a)"
    and "rq = VersionsCreate slug inp \<or> rq = ScoresSnapshot slug snap"
  shows "version_answer X slug a (handle X rq a)"
  using assms(3)
proof
  assume rq: "rq = VersionsCreate slug inp"
  have "case fst (write_db (versions_create (cx_svc X) b inp mx) a) of
      Inl e \<Rightarrow> unchanged a (snd (write_db (versions_create (cx_svc X) b inp mx) a))
    | Inr vp \<Rightarrow> published (ap_db a) (b_id b) (vp_version vp) (ap_db (snd (write_db (versions_create (cx_svc X) b inp mx) a))) \<and>
        ap_deliveries (snd (write_db (versions_create (cx_svc X) b inp mx) a)) = ap_deliveries a \<and>
        ap_bus (snd (write_db (versions_create (cx_svc X) b inp mx) a)) = ap_bus a" for b mx
    using versions_create_contract [OF assms(1,2), of b inp mx]
    by (auto simp: write_db_def split: sum.split prod.split)
  then show ?thesis
    unfolding rq handle.simps route_versions_create_def
    by (intro answer_check answer_board answer_publish) auto
next
  assume rq: "rq = ScoresSnapshot slug snap"
  define pub where "pub b = (if b_realtime b then
      and_then (redis_conn X, a) (\<lambda>R.
        on_world (realtime_snapshot (cx_svc X) R b (si_note snap) (si_metadata snap) (key_prefix X)
          (Some (max_versions_per_board (limits X))) (Some (max_entries_per_version (limits X))) (cx_snap_id X)))
      else write_db (scores_snapshot (cx_svc X) b (si_note snap) (si_metadata snap)
          (Some (max_versions_per_board (limits X))) (Some (max_entries_per_version (limits X)))) a)" for b
  have "case fst (pub b) of Inl e \<Rightarrow> unchanged a (snd (pub b))
    | Inr vp \<Rightarrow> published (ap_db a) (b_id b) (vp_version vp) (ap_db (snd (pub b))) \<and>
        ap_deliveries (snd (pub b)) = ap_deliveries a \<and> ap_bus (snd (pub b)) = ap_bus a" for b
  proof (cases "b_realtime b")
    case False
    then show ?thesis
      using scores_snapshot_contract [OF assms(1,2), of b]
      by (auto simp: pub_def write_db_def split: sum.split prod.split)
  next
    case True
    show ?thesis
    proof (cases "redis_conn X")
      case (Inl e)
      with True show ?thesis by (simp add: pub_def)
    next
      case (Inr R)
      obtain x d' r' where w: "realtime_snapshot (cx_svc X) R b (si_note snap) (si_metadata snap) (key_prefix X)
          (Some (max_versions_per_board (limits X))) (Some (max_entries_per_version (limits X))) (cx_snap_id X)
          (ap_db a, ap_redis a) = (x, d', r')"
        by (rule prod_cases3)
      with True Inr have "pub b = (x, a\<lparr>ap_db := d', ap_redis := r'\<rparr>)" by (simp add: pub_def on_world_def)
      with realtime_snapshot_db [OF assms(1,2) w] show ?thesis by (cases x) (simp_all add: unchanged_def)
    qed
  qed
  then show ?thesis
    unfolding rq handle.simps route_scores_snapshot_def pub_def [symmetric]
    by (intro answer_check answer_board) (simp only: pub_def [symmetric], rule answer_publish, auto)
qed

section \<open>Instances\<close>

text \<open>A server without auth, with Redis and one open stream, on the database with one entry.\<close>

definition sample_ctx :: "(sample_store, (nat \<times> board_event list) list, nat) ctx" where
  "sample_ctx =
     \<lparr>cx_svc = sample_svc, cx_codec = sample_codec, cx_redis = None, cx_chan = sample_chan,
      cx_webhook = sample_webhook_lib, cx_env = (\<lambda>_. None), cx_config = sample_config, cx_clock = 0,
      cx_snap_id = ''1'', cx_json_len = (\<lambda>_. 0)\<rparr>"

definition sample_app :: "(sample_store, (nat \<times> board_event list) list) app" where
  "sample_app =
     \<lparr>ap_db = ordered_db, ap_redis = live_store, ap_bus = Some (bus sample_live), ap_deliveries = []\<rparr>"

lemma sample_ctx_simps [simp]: "cx_svc sample_ctx = sample_svc" "ap_db sample_app = ordered_db"
  by (simp_all add: sample_ctx_def sample_app_def)

lemma ordered_versions: "board_versions bid ordered_db = []"
  by (simp add: ordered_db_def plain_db_def sample_entry_db_def sample_db_def empty_db_def board_versions_def)

lemma ordered_create_limited:
  "\<exists>vp d. versions_create sample_svc ordered_board sample_version_input (Some 1000) ordered_db = Inr (vp, d)"
proof -
  have f: "find (\<lambda>b. b_id b = b_id ordered_board) (boards ordered_db) = Some ordered_board"
    by (simp add: ordered_db_def)
  have "max_number (b_id sample_row) ordered_db = 0" "version_count (b_id sample_row) ordered_db = 0"
    by (simp_all add: max_number_def version_count_def ordered_versions)
  moreover have "find_entry (b_id sample_row) ''ann'' ordered_db = Some sample_entry_row"
    using plain_find_entry by (simp add: find_entry_def ordered_db_def)
  ultimately have "create_version_ok ordered_board ordered_board sample_version_input (Some 1000) ordered_db"
    by (simp add: create_version_ok_def placements_ok_def sample_version_input_def i32_max_def ordered_board_def)
  from versions_create_is_ok [OF sample_svc_ok ordered_db_inv f this] show ?thesis
    by (auto simp: ordered_board_def is_ok_iff)
qed

lemma sample_handle:
  "\<exists>vp a'. handle sample_ctx (VersionsCreate ''speed'' sample_version_input) sample_app = (Inr (201, VersionBody vp), a')"
proof -
  from ordered_create_limited obtain vp d where
    v: "versions_create sample_svc ordered_board sample_version_input (Some 1000) ordered_db = Inr (vp, d)" by blast
  have b: "boards_get_by_slug ''speed'' ordered_db = Inr ordered_board"
    by (simp add: boards_get_by_slug_def ordered_db_def ordered_board_def plain_board_def sample_row_def new_board_def
        sample_board_def)
  have l: "limits sample_ctx = default_limits"
    by (simp add: limits_def effective_limits_def sample_ctx_def sample_config_def)
  have c: "version_fits sample_ctx sample_version_input = Inr ()"
    by (simp add: version_fits_def sample_version_input_def l default_limits_def note_fits_def check_note_size_def
        metadata_fits_def check_metadata_size_def)
  have m: "max_versions_per_board (limits sample_ctx) = 1000" by (simp add: l default_limits_def)
  have "handle sample_ctx (VersionsCreate ''speed'' sample_version_input) sample_app =
      (Inr (201, VersionBody vp), notify_version sample_ctx ordered_board (vp_version vp) (sample_app\<lparr>ap_db := d\<rparr>))"
    by (simp add: route_versions_create_def c b m write_db_def v)
  then show ?thesis by blast
qed

theorem version_announced_witness:
  "\<exists>vp a'. handle sample_ctx (VersionsCreate ''speed'' sample_version_input) sample_app = (Inr (201, VersionBody vp), a') \<and>
     length (versions (ap_db a')) = 1 \<and> v_number (vp_version vp) = 1"
proof -
  from sample_handle obtain vp a' where
    h: "handle sample_ctx (VersionsCreate ''speed'' sample_version_input) sample_app = (Inr (201, VersionBody vp), a')" by blast
  have "version_answer sample_ctx ''speed'' sample_app (handle sample_ctx (VersionsCreate ''speed'' sample_version_input) sample_app)"
    by (rule version_announced) (simp_all add: ordered_db_inv)
  then obtain b :: board where "published ordered_db (b_id b) (vp_version vp) (ap_db a')"
    unfolding h by (simp add: version_answer_def) blast
  moreover have "versions ordered_db = []"
    by (simp add: ordered_db_def plain_db_def sample_entry_db_def sample_db_def empty_db_def)
  moreover have "max_number (b_id b) ordered_db = 0" by (simp add: max_number_def ordered_versions)
  ultimately show ?thesis using h by (auto simp: published_def)
qed

lemma sample_numbered: "logs_numbered (abs_log (ap_db sample_app))"
  by (auto simp: logs_numbered_def ran_def log_numbered_def abs_log_def version_log_def ordered_versions split: if_splits)

theorem requests_keep_invariant_witness:
  "db_inv sample_svc (ap_db (serve_run sample_jwt_lib
     [(sample_ctx, NoAuth, [], VersionsCreate ''speed'' sample_version_input),
      (sample_ctx, NoAuth, [], BoardsDelete ''speed'')] sample_app))"
  by (rule requests_keep_invariant) (simp_all add: ordered_db_inv)

theorem requests_refine_log_witness:
  "\<exists>vp a'. serve sample_jwt_lib NoAuth sample_ctx [] (VersionsCreate ''speed'' sample_version_input) sample_app =
      (Inr (201, VersionBody vp), a') \<and>
     (\<exists>ch. allowed_change (VersionsCreate ''speed'' sample_version_input) ordered_db ch \<and>
       log_step (abs_log ordered_db) ch (abs_log (ap_db a')))"
proof -
  from sample_handle obtain vp a' where
    h: "handle sample_ctx (VersionsCreate ''speed'' sample_version_input) sample_app = (Inr (201, VersionBody vp), a')" by blast
  have s: "serve sample_jwt_lib NoAuth sample_ctx [] (VersionsCreate ''speed'' sample_version_input) sample_app =
      (Inr (201, VersionBody vp), a')"
    by (simp add: serve_def require_auth_def h map_err_def del: handle.simps)
  with requests_refine_log [OF _ _ sample_numbered s] show ?thesis by (auto simp: ordered_db_inv)
qed

theorem refused_request_silent_witness:
  "\<exists>e a'. handle sample_ctx (BoardsDelete ''pace'') sample_app = (Inl e, a') \<and> ap_deliveries a' = [] \<and>
     ap_db a' = ordered_db"
proof -
  have "boards_get_by_slug ''pace'' ordered_db = Inl (board_not_found ''pace'')"
    by (simp add: boards_get_by_slug_def ordered_db_def ordered_board_def plain_board_def sample_row_def new_board_def
        sample_board_def)
  then have h: "handle sample_ctx (BoardsDelete ''pace'') sample_app = (Inl (board_not_found ''pace''), sample_app)"
    by (simp add: route_boards_delete_def)
  from refused_request_silent [OF _ _ h] show ?thesis
    using h by (auto simp: ordered_db_inv sample_app_def)
qed

end
