(* ===== verification/Streams.thy ===== *)
theory Streams
  imports Serving
begin

text \<open>
  The live streams: the SSE handler of \<open>sse.rs\<close>, and \<open>ws.rs\<close> with the socket loop and the scores
  a client submits through it.
\<close>

section \<open>Opening a stream\<close>

definition stream_disabled :: "string \<Rightarrow> error" where
  "stream_disabled name = ServiceUnavailable [Str name, Lit '' streaming is not enabled'']"

definition timeout_of :: "(server_config \<Rightarrow> int) \<Rightarrow> ('r, 'c, 'x) ctx \<Rightarrow> int" where
  "timeout_of field X = unwrap_or (map_option field (cfg_server (cx_config X))) 1800"

text \<open>
  What both handlers do first: the stream kind is enabled, the board exists, there is an event
  bus, and it has a slot. The receiver is the result.
\<close>

definition open_stream ::
    "string \<Rightarrow> (server_config \<Rightarrow> bool) \<Rightarrow> ('r, 'c, 'x) ctx \<Rightarrow> string \<Rightarrow> ('r, 'c, 'x) step" where
  "open_stream name enabled X slug a =
     and_then (check (reject_if (\<not> (case cfg_server (cx_config X) of None \<Rightarrow> False | Some s \<Rightarrow> enabled s))
                        (stream_disabled name)) a) (\<lambda>_ a.
     and_then (read_db (boards_get_by_slug slug) a) (\<lambda>_ a.
     and_then (ok_or (ap_bus a) (stream_disabled name), a) (\<lambda>b a.
     case subscribe (cx_chan X) slug b of
       (Inl e, b') \<Rightarrow> (Inl e, a\<lparr>ap_bus := Some b'\<rparr>)
     | (Inr rx, b') \<Rightarrow> (Inr rx, a\<lparr>ap_bus := Some b'\<rparr>))))"

text \<open>A deadline of 0 seconds stands for the longest one.\<close>

definition deadline_secs :: "int \<Rightarrow> int" where
  "deadline_secs timeout_secs = (if 0 < timeout_secs then timeout_secs else 2 ^ 32 - 1)"

record 'x sse_session =
  se_rx :: 'x
  se_deadline :: int
  se_has_deadline :: bool

definition sse_stream :: "('r, 'c, 'x) ctx \<Rightarrow> string \<Rightarrow> ('r, 'c, 'x sse_session) step" where
  "sse_stream X slug a =
     and_then (open_stream ''SSE'' sv_sse_enabled X slug a) (\<lambda>rx a.
     (Inr \<lparr>se_rx = rx, se_deadline = deadline_secs (timeout_of sv_sse_timeout_secs X),
           se_has_deadline = (0 < timeout_of sv_sse_timeout_secs X)\<rparr>, a))"

text \<open>
  The stream of an SSE response: \<open>poll_next\<close> ends it once the deadline has passed and otherwise
  passes on what the receiver gives. A lagged receiver skips the missed events.
\<close>

datatype 'a poll = Ready 'a | Pending

definition sse_event :: "board_event option \<Rightarrow> (string \<times> json) option" where
  "sse_event received = map_option (\<lambda>e. (event_type e, board_event_json e)) received"

definition poll_next :: "bool \<Rightarrow> bool \<Rightarrow> (string \<times> json) option poll \<Rightarrow> (string \<times> json) option poll" where
  "poll_next has_deadline deadline_passed inner =
     (if has_deadline \<and> deadline_passed then Ready None else inner)"

section \<open>Scores over a WebSocket\<close>

fun core_error_message :: "error \<Rightarrow> message" where
  "core_error_message (Validation msg) = msg"
| "core_error_message (NotFound msg) = msg"
| "core_error_message (ServiceUnavailable _) = [Lit ''service unavailable'']"
| "core_error_message _ = [Lit ''internal error'']"

text \<open>\<open>parse\<close> is serde's reading of a \<open>SubmitScore\<close>. An error is the message of the reply.\<close>

definition try_process_score ::
    "('r, 'c, 'x) ctx \<Rightarrow> (string \<Rightarrow> string + submit_score) \<Rightarrow> string \<Rightarrow> string \<Rightarrow> bool \<Rightarrow>
     ('r, 'c) app \<Rightarrow> (message + unit) \<times> ('r, 'c) app" where
  "try_process_score X parse slug text write_authorized a =
     (if \<not> write_authorized then (Inl [Lit ''unauthorized: score submission requires write access''], a)
      else case parse text of
        Inl e \<Rightarrow> (Inl [Lit ''invalid score payload: '', Str e], a)
      | Inr inp \<Rightarrow>
          (case boards_get_by_slug slug (ap_db a) of
             Inl e \<Rightarrow> (Inl (core_error_message e), a)
           | Inr board \<Rightarrow>
               if \<not> b_realtime board
               then (Inl [Lit ''score submission over WebSocket requires a realtime board''], a)
               else case cx_redis X of
                 None \<Rightarrow> (Inl [Lit ''service unavailable''], a)
               | Some R \<Rightarrow>
                   (case on_world (realtime_submit (cx_svc X) R board inp (key_prefix X)) a of
                      (Inl e, a') \<Rightarrow> (Inl (core_error_message e), a')
                    | (Inr _, a') \<Rightarrow> (Inr (), announce_score X (b_slug board) inp a'))))"

text \<open>What the server sends: a reply to a text, an event, or a close frame.\<close>

datatype reply = ReplyOk | ReplyError message


definition process_score ::
    "('r, 'c, 'x) ctx \<Rightarrow> (string \<Rightarrow> string + submit_score) \<Rightarrow> string \<Rightarrow> string \<Rightarrow> bool \<Rightarrow>
     ('r, 'c) app \<Rightarrow> reply \<times> ('r, 'c) app" where
  "process_score X parse slug text write_authorized a =
     (case try_process_score X parse slug text write_authorized a of
        (Inr _, a') \<Rightarrow> (ReplyOk, a')
      | (Inl msg, a') \<Rightarrow> (ReplyError msg, a'))"

section \<open>The socket loop\<close>







text \<open>The end of \<open>handle_socket\<close>: the receiver is dropped, then the guard.\<close>

definition close_stream :: "('r, 'c, 'x) ctx \<Rightarrow> string \<Rightarrow> 'x \<Rightarrow> ('r, 'c) app \<Rightarrow> ('r, 'c) app" where
  "close_stream X slug rx a = a\<lparr>ap_bus := map_option (\<lambda>b. release (drop_receiver (cx_chan X) slug rx b)) (ap_bus a)\<rparr>"

section \<open>A session without write access\<close>









section \<open>A session with write access\<close>

text \<open>
  A score submitted over a WebSocket is the score submitted over HTTP. For a readable payload
  and a realtime board, with write access, the socket leaves exactly the state the POST leaves; it
  answers ok when the POST answers 200 and with the message of the same error otherwise.
\<close>

theorem websocket_scores_as_http:
  assumes "parse text = Inr inp" "boards_get_by_slug slug (ap_db a) = Inr b" "b_realtime b"
  shows "case route_scores_submit X slug inp a of
      (Inr resp, a') \<Rightarrow> resp = (200, OkBody) \<and> process_score X parse slug text True a = (ReplyOk, a')
    | (Inl e, a') \<Rightarrow> process_score X parse slug text True a = (ReplyError (core_error_message e), a')"
proof (cases "cx_redis X")
  case None
  with assms show ?thesis
    by (simp add: route_scores_submit_def process_score_def try_process_score_def redis_conn_def)
next
  case (Some R)
  obtain x a' where w: "on_world (realtime_submit (cx_svc X) R b inp (key_prefix X)) a = (x, a')" by (meson surj_pair)
  with Some assms show ?thesis
    by (cases x) (simp_all add: route_scores_submit_def process_score_def try_process_score_def redis_conn_def)
qed

section \<open>Instances\<close>





theorem websocket_scores_as_http_witness:
  "process_score sample_ctx (\<lambda>_. Inr sample_score) ''speed'' ''{}'' True (sample_app\<lparr>ap_db := live_db\<rparr>) =
     (ReplyError [Lit ''service unavailable''], sample_app\<lparr>ap_db := live_db\<rparr>)"
proof -
  let ?a = "sample_app\<lparr>ap_db := live_db\<rparr>"
  have b: "boards_get_by_slug ''speed'' (ap_db ?a) = Inr live_board" "b_realtime live_board"
    by (simp_all add: boards_get_by_slug_def live_db_def)
  have "route_scores_submit sample_ctx ''speed'' sample_score ?a =
      (Inl (ServiceUnavailable [Lit ''Redis is required for realtime boards but not configured'']), ?a)"
    using b by (simp add: route_scores_submit_def redis_conn_def) (simp add: sample_ctx_def)
  with websocket_scores_as_http [of "\<lambda>_. Inr sample_score" "''{}''" sample_score "''speed''" ?a live_board sample_ctx] b
  show ?thesis by simp
qed

end
