(* ===== verification/Github.thy ===== *)
theory Github
  imports Routes Syncing
begin

text \<open>
  \<open>routes/webhooks.rs\<close>: the GitHub webhook, which checks a push and queues a sync, and the
  queued task. HMAC, hexadecimal decoding, JSON parsing and git are parameters.
\<close>

section \<open>The request\<close>

record github_lib =
  hex_decode :: "string \<Rightarrow> string option"
  hmac_sha256 :: "string \<Rightarrow> string \<Rightarrow> string option"
  parse_json :: "string \<Rightarrow> json option"

definition verify_signature :: "github_lib \<Rightarrow> string \<Rightarrow> string \<Rightarrow> string \<Rightarrow> bool" where
  "verify_signature G secret payload signature =
     (case strip_prefix ''sha256='' signature of
        None \<Rightarrow> False
      | Some expected_hex \<Rightarrow>
          (case hex_decode G expected_hex of
             None \<Rightarrow> False
           | Some expected_bytes \<Rightarrow>
               (case hmac_sha256 G secret payload of
                  None \<Rightarrow> False
                | Some mac \<Rightarrow> mac = expected_bytes)))"

record sync_task =
  tk_repo_path :: string
  tk_branch :: string
  tk_note :: "string option"

text \<open>An answer and, for an accepted push, the task that was spawned.\<close>

type_synonym github_answer = "(nat \<times> json) \<times> sync_task option"

definition github_error :: "nat \<Rightarrow> string \<Rightarrow> github_answer" where
  "github_error status message = ((status, JObject [(''error'', JString message)]), None)"

definition ignored :: "string \<Rightarrow> github_answer" where
  "ignored reason = ((200, JObject [(''ignored'', JBool True), (''reason'', JString reason)]), None)"

definition webhook_secret :: "config \<Rightarrow> config_value option" where
  "webhook_secret c = Option.bind (cfg_sync c) sy_webhook_secret"

definition repo_path :: "config \<Rightarrow> string option" where
  "repo_path c = Option.bind (cfg_sync c) sy_repo_path"

definition expected_branch :: "config \<Rightarrow> string" where
  "expected_branch c = unwrap_or (Option.bind (cfg_sync c) sy_sync_branch) ''main''"

text \<open>A header as text: \<open>to_str\<close> refuses bytes outside visible ASCII.\<close>

definition header_str :: "headers \<Rightarrow> string \<Rightarrow> string option option" where
  "header_str hs name = map_option (\<lambda>v. if list_all visible_ascii v then Some v else None) (map_of hs name)"

definition commit_message :: "json \<Rightarrow> string option" where
  "commit_message payload =
     Option.bind (json_get ''head_commit'' payload) (\<lambda>hc. Option.bind (json_get ''message'' hc) as_str)"

definition handle_push :: "github_lib \<Rightarrow> config \<Rightarrow> string \<Rightarrow> string \<Rightarrow> github_answer" where
  "handle_push G c path payload_text =
     (case parse_json G payload_text of
        None \<Rightarrow> github_error 400 ''invalid JSON payload''
      | Some payload \<Rightarrow>
          (case Option.bind (json_get ''ref'' payload) as_str of
             None \<Rightarrow> github_error 400 (''missing '' @ [CHR 0x27] @ ''ref'' @ [CHR 0x27] @ '' field in push payload'')
           | Some push_ref \<Rightarrow>
               if push_ref \<noteq> ''refs/heads/'' @ expected_branch c then ignored ''branch mismatch''
               else ((202, JObject [(''status'', JString ''sync queued'')]),
                     Some \<lparr>tk_repo_path = path, tk_branch = expected_branch c, tk_note = commit_message payload\<rparr>)))"

definition handle_event :: "github_lib \<Rightarrow> config \<Rightarrow> string \<Rightarrow> headers \<Rightarrow> string \<Rightarrow> github_answer" where
  "handle_event G c path hs payload_text =
     (case header_str hs ''x-github-event'' of
        None \<Rightarrow> github_error 400 ''missing X-GitHub-Event header''
      | Some None \<Rightarrow> github_error 400 ''invalid X-GitHub-Event header''
      | Some (Some event) \<Rightarrow>
          if event = ''push'' then handle_push G c path payload_text
          else if event = ''ping'' then ((200, JObject [(''pong'', JBool True)]), None)
          else ignored ''event type not handled'')"

definition github :: "github_lib \<Rightarrow> environment \<Rightarrow> config \<Rightarrow> headers \<Rightarrow> string \<Rightarrow> github_answer" where
  "github G env c hs payload_text =
     (case webhook_secret c of
        None \<Rightarrow> github_error 500 ''webhook processing failed''
      | Some cv \<Rightarrow>
     (case resolve env cv of
        Inl _ \<Rightarrow> github_error 500 ''webhook processing failed''
      | Inr secret \<Rightarrow>
     (case repo_path c of
        None \<Rightarrow> github_error 500 ''webhook processing failed''
      | Some path \<Rightarrow>
     (case header_str hs ''x-hub-signature-256'' of
        None \<Rightarrow> github_error 400 ''missing X-Hub-Signature-256 header''
      | Some None \<Rightarrow> github_error 400 ''invalid signature header''
      | Some (Some signature) \<Rightarrow>
          if \<not> verify_signature G secret payload_text signature then github_error 401 ''invalid signature''
          else handle_event G c path hs payload_text))))"

section \<open>The queued task\<close>

datatype git_result = GitOk | GitFailed string | GitNotRun string | GitTimedOut

definition git_step :: "string \<Rightarrow> string \<Rightarrow> git_result \<Rightarrow> message + unit" where
  "git_step command path r =
     (case r of
        GitOk \<Rightarrow> Inr ()
      | GitFailed stderr \<Rightarrow> Inl [Lit ''git '', Str command, Lit '' failed for '', Str path, Lit '': '', Str stderr]
      | GitNotRun e \<Rightarrow> Inl [Lit ''failed to run git '', Str command, Lit '': '', Str e]
      | GitTimedOut \<Rightarrow> Inl [Lit ''git '', Str command, Lit '' timed out for '', Str path])"

text \<open>What one synced board announces; the payloads carry the note of the push.\<close>

definition announce_synced_version ::
    "('r, 'c, 'x) ctx \<Rightarrow> string option \<Rightarrow> board_sync_result \<Rightarrow> i32 \<Rightarrow> ('r, 'c) app \<Rightarrow> ('r, 'c) app" where
  "announce_synced_version X nt r n a =
     announce_version X (sr_slug r) n nt
       (fire_app X VersionCreated (sr_slug r) (sr_name r) (Some \<lparr>vi_version_number = n, vi_note = nt\<rparr>) None a)"

definition announce_result ::
    "('r, 'c, 'x) ctx \<Rightarrow> string option \<Rightarrow> board_sync_result \<Rightarrow> ('r, 'c) app \<Rightarrow> ('r, 'c) app" where
  "announce_result X nt r a =
     (case sr_action r of
        Created n \<Rightarrow> announce_synced_version X nt r n (fire_app X BoardCreated (sr_slug r) (sr_name r) None None a)
      | Updated n \<Rightarrow> announce_synced_version X nt r n a
      | _ \<Rightarrow> a)"

datatype sync_failure = GitError message | SyncError error

text \<open>
  \<open>git\<close> answers a command line; \<open>checkout\<close> is the directory it leaves. The task holds the sync
  lock, so that two tasks do not interleave.
\<close>

definition run_sync ::
    "('r, 'c, 'x) ctx \<Rightarrow> toml_lib \<Rightarrow> (string list \<Rightarrow> git_result) \<Rightarrow> directory \<Rightarrow> sync_task \<Rightarrow> ('r, 'c) app \<Rightarrow>
     (sync_failure + unit) \<times> ('r, 'c) app" where
  "run_sync X L git checkout task a =
     (case git_step ''fetch'' (tk_repo_path task)
             (git [''-C'', tk_repo_path task, ''fetch'', ''origin'', tk_branch task]) of
        Inl m \<Rightarrow> (Inl (GitError m), a)
      | Inr _ \<Rightarrow>
     (case git_step ''reset'' (tk_repo_path task)
             (git [''-C'', tk_repo_path task, ''reset'', ''--hard'', ''origin/'' @ tk_branch task]) of
        Inl m \<Rightarrow> (Inl (GitError m), a)
      | Inr _ \<Rightarrow>
     (case sync_dir (cx_svc X) L checkout (tk_note task) (ap_db a) of
        (Inl e, d) \<Rightarrow> (Inl (SyncError e), a\<lparr>ap_db := d\<rparr>)
      | (Inr results, d) \<Rightarrow> (Inr (), fold (announce_result X (tk_note task)) results (a\<lparr>ap_db := d\<rparr>)))))"

section \<open>Which pushes are synced\<close>

text \<open>
  C34: a sync is queued exactly for an authentic push to the configured branch. The endpoint spawns
  a task when, and only when, a secret and a repository are configured, the signature header holds
  \<open>sha256=\<close> and the hexadecimal HMAC of the body under that secret, the event is a push, and the
  body is JSON whose \<open>ref\<close> is the branch of the configuration; the task carries that repository,
  that branch and the message of the head commit, if it has one. The answer is 202 exactly when a
  task is spawned.
\<close>

theorem github_queues_sync:
  "(snd (github G env c hs payload_text) = Some task \<longleftrightarrow>
    (\<exists>cv secret path branch hex mac payload.
       branch = unwrap_or (Option.bind (cfg_sync c) sy_sync_branch) ''main'' \<and>
       webhook_secret c = Some cv \<and> resolve env cv = Inr secret \<and> repo_path c = Some path \<and>
       header_str hs ''x-hub-signature-256'' = Some (Some (''sha256='' @ hex)) \<and>
       hex_decode G hex = Some mac \<and> hmac_sha256 G secret payload_text = Some mac \<and>
       header_str hs ''x-github-event'' = Some (Some ''push'') \<and>
       parse_json G payload_text = Some payload \<and>
       Option.bind (json_get ''ref'' payload) as_str = Some (''refs/heads/'' @ branch) \<and>
       task = \<lparr>tk_repo_path = path, tk_branch = branch,
         tk_note = Option.bind (json_get ''head_commit'' payload) (\<lambda>hc. Option.bind (json_get ''message'' hc) as_str)\<rparr>)) \<and>
   (fst (fst (github G env c hs payload_text)) = 202 \<longleftrightarrow> snd (github G env c hs payload_text) \<noteq> None)"
proof -
  have verified: "verify_signature G secret payload_text sig \<longleftrightarrow>
      (\<exists>hex mac. sig = ''sha256='' @ hex \<and> hex_decode G hex = Some mac \<and> hmac_sha256 G secret payload_text = Some mac)"
    for secret sig
    by (auto simp: verify_signature_def strip_prefix_eq split: option.splits) (auto simp: strip_prefix_def)
  have push: "snd (handle_push G c path payload_text) = Some task \<longleftrightarrow>
      (\<exists>payload. parse_json G payload_text = Some payload \<and>
         Option.bind (json_get ''ref'' payload) as_str = Some (''refs/heads/'' @ expected_branch c) \<and>
         task = \<lparr>tk_repo_path = path, tk_branch = expected_branch c, tk_note = commit_message payload\<rparr>)" for path
    by (auto simp: handle_push_def github_error_def ignored_def split: option.splits)
  have event: "snd (handle_event G c path hs payload_text) = Some task \<longleftrightarrow>
      header_str hs ''x-github-event'' = Some (Some ''push'') \<and> snd (handle_push G c path payload_text) = Some task" for path
    by (auto simp: handle_event_def github_error_def ignored_def split: option.splits)
  have eq: "handle_event G c path hs payload_text = handle_push G c path payload_text"
    if "header_str hs ''x-github-event'' = Some (Some ''push'')" for path
    using that by (simp add: handle_event_def)
  have run: "github G env c hs payload_text = handle_event G c path hs payload_text"
    if "webhook_secret c = Some cv" "resolve env cv = Inr secret" "repo_path c = Some path"
      "header_str hs ''x-hub-signature-256'' = Some (Some sig)" "verify_signature G secret payload_text sig"
    for cv secret path sig
    using that by (simp add: github_def)
  have handler: "\<exists>cv secret path sig. webhook_secret c = Some cv \<and> resolve env cv = Inr secret \<and> repo_path c = Some path \<and>
      header_str hs ''x-hub-signature-256'' = Some (Some sig) \<and> verify_signature G secret payload_text sig"
    if "snd (github G env c hs payload_text) = Some task"
    using that by (auto simp: github_def github_error_def split: option.splits sum.splits if_splits)
  have status: "fst (fst (handle_push G c path payload_text)) = 202 \<longleftrightarrow> snd (handle_push G c path payload_text) \<noteq> None"
      "fst (fst (handle_event G c path hs payload_text)) = 202 \<longleftrightarrow> snd (handle_event G c path hs payload_text) \<noteq> None"
    for path
    by (auto simp: handle_event_def handle_push_def github_error_def ignored_def split: option.splits)
  then have "fst (fst (github G env c hs payload_text)) = 202 \<longleftrightarrow> snd (github G env c hs payload_text) \<noteq> None"
    by (auto simp: github_def github_error_def split: option.splits sum.splits)
  moreover have "snd (github G env c hs payload_text) = Some task \<longleftrightarrow> (\<exists>cv secret path hex mac payload.
       webhook_secret c = Some cv \<and> resolve env cv = Inr secret \<and> repo_path c = Some path \<and>
       header_str hs ''x-hub-signature-256'' = Some (Some (''sha256='' @ hex)) \<and>
       hex_decode G hex = Some mac \<and> hmac_sha256 G secret payload_text = Some mac \<and>
       header_str hs ''x-github-event'' = Some (Some ''push'') \<and>
       parse_json G payload_text = Some payload \<and>
       Option.bind (json_get ''ref'' payload) as_str = Some (''refs/heads/'' @ expected_branch c) \<and>
       task = \<lparr>tk_repo_path = path, tk_branch = expected_branch c, tk_note = commit_message payload\<rparr>)" (is "?L \<longleftrightarrow> ?R")
  proof
    assume L: ?L
    from handler [OF L] obtain cv secret path sig where
      h: "webhook_secret c = Some cv" "resolve env cv = Inr secret" "repo_path c = Some path"
        "header_str hs ''x-hub-signature-256'' = Some (Some sig)" "verify_signature G secret payload_text sig" by blast
    from h(5) obtain hex mac where
      v: "sig = ''sha256='' @ hex" "hex_decode G hex = Some mac" "hmac_sha256 G secret payload_text = Some mac"
      unfolding verified by blast
    from L run [OF h] have "snd (handle_event G c path hs payload_text) = Some task" by simp
    then have e: "header_str hs ''x-github-event'' = Some (Some ''push'')" "snd (handle_push G c path payload_text) = Some task"
      unfolding event by blast+
    from e(2) obtain payload where
      p: "parse_json G payload_text = Some payload"
        "Option.bind (json_get ''ref'' payload) as_str = Some (''refs/heads/'' @ expected_branch c)"
        "task = \<lparr>tk_repo_path = path, tk_branch = expected_branch c, tk_note = commit_message payload\<rparr>"
      unfolding push by blast
    with h v e(1) show ?R by blast
  next
    assume ?R
    then obtain cv secret path hex mac payload where
      h: "webhook_secret c = Some cv" "resolve env cv = Inr secret" "repo_path c = Some path"
        "header_str hs ''x-hub-signature-256'' = Some (Some (''sha256='' @ hex))"
      and v: "hex_decode G hex = Some mac" "hmac_sha256 G secret payload_text = Some mac"
      and e: "header_str hs ''x-github-event'' = Some (Some ''push'')"
      and p: "parse_json G payload_text = Some payload"
        "Option.bind (json_get ''ref'' payload) as_str = Some (''refs/heads/'' @ expected_branch c)"
        "task = \<lparr>tk_repo_path = path, tk_branch = expected_branch c, tk_note = commit_message payload\<rparr>" by blast
    have "verify_signature G secret payload_text (''sha256='' @ hex)" unfolding verified using v by blast
    note r = run [OF h this]
    from p have "snd (handle_push G c path payload_text) = Some task" unfolding push by blast
    with r eq [OF e] show ?L by simp
  qed
  ultimately show ?thesis unfolding expected_branch_def commit_message_def by simp
qed

text \<open>A signed push to the default branch, with a commit message.\<close>

definition sample_payload :: json where
  "sample_payload = JObject [(''ref'', JString ''refs/heads/main''),
     (''head_commit'', JObject [(''message'', JString ''spring'')])]"

definition sample_github :: github_lib where
  "sample_github =
     \<lparr>hex_decode = Some, hmac_sha256 = (\<lambda>secret body. Some (secret @ body)),
      parse_json = (\<lambda>body. if body = ''body'' then Some sample_payload else None)\<rparr>"

definition push_config :: config where
  "push_config = sample_config\<lparr>cfg_sync :=
     Some \<lparr>sy_repo_path = Some ''boards'', sy_webhook_secret = Some (ConfigValue ''s''), sy_sync_branch = None\<rparr>\<rparr>"

definition push_headers :: headers where
  "push_headers = [(''x-hub-signature-256'', ''sha256=sbody''), (''x-github-event'', ''push'')]"

lemma sample_push:
  "''main'' = unwrap_or (Option.bind (cfg_sync push_config) sy_sync_branch) ''main''"
  "webhook_secret push_config = Some (ConfigValue ''s'')" "resolve (\<lambda>_. None) (ConfigValue ''s'') = Inr ''s''"
  "repo_path push_config = Some ''boards''"
  "header_str push_headers ''x-hub-signature-256'' = Some (Some (''sha256='' @ ''sbody''))"
  "hex_decode sample_github ''sbody'' = Some ''sbody''" "hmac_sha256 sample_github ''s'' ''body'' = Some ''sbody''"
  "header_str push_headers ''x-github-event'' = Some (Some ''push'')"
  "parse_json sample_github ''body'' = Some sample_payload"
  "Option.bind (json_get ''ref'' sample_payload) as_str = Some (''refs/heads/'' @ ''main'')"
  "\<lparr>tk_repo_path = ''boards'', tk_branch = ''main'', tk_note = Some ''spring''\<rparr> =
     \<lparr>tk_repo_path = ''boards'', tk_branch = ''main'',
      tk_note = Option.bind (json_get ''head_commit'' sample_payload) (\<lambda>hc. Option.bind (json_get ''message'' hc) as_str)\<rparr>"
  by code_simp+

theorem github_queues_sync_witness:
  "snd (github sample_github (\<lambda>_. None) push_config push_headers ''body'') =
     Some \<lparr>tk_repo_path = ''boards'', tk_branch = ''main'', tk_note = Some ''spring''\<rparr>"
  by (rule conjunct1 [OF github_queues_sync, THEN iffD2]) (intro exI conjI; rule sample_push)

end
