(* ===== verification/Server.thy ===== *)
theory Server
  imports Streams Github
begin

text \<open>
  \<open>lib.rs\<close> and \<open>metrics.rs\<close>: the router with the layers a request passes, the health check, and
  the draining of background tasks at shutdown. What axum, tower and tokio do with a route, a
  layer or a task is what their documentation says.
\<close>

section \<open>Layers\<close>

text \<open>The arguments of the rate limiter; \<open>finish\<close> gives no configuration for a zero.\<close>

record governor_config =
  gc_per_second :: int
  gc_burst_size :: int
  gc_smart_ip :: bool

definition governor_finish :: "governor_config \<Rightarrow> governor_config option" where
  "governor_finish g = (if gc_per_second g = 0 \<or> gc_burst_size g = 0 then None else Some g)"

datatype allow_origin = AnyOrigin | OriginList "string list"

record cors_layer =
  cl_allow_origin :: allow_origin
  cl_allow_methods :: "http_method list"
  cl_allow_headers :: "string list"

text \<open>\<open>header_value\<close> parses an origin, as \<open>HeaderValue\<close> does; an invalid one is ignored.\<close>

definition build_cors_layer :: "(string \<Rightarrow> string option) \<Rightarrow> string list \<Rightarrow> cors_layer" where
  "build_cors_layer header_value origins =
     \<lparr>cl_allow_origin =
        (if list_ex (\<lambda>org. org = ''*'') origins then AnyOrigin else OriginList (List.map_filter header_value origins)),
      cl_allow_methods = [GET, POST, PATCH, DELETE, OPTIONS],
      cl_allow_headers = [''content-type'', ''authorization'']\<rparr>"

datatype layer =
    RequireAuth
  | BodyLimit int
  | Track
  | RateLimit governor_config
  | TraceRequests
  | Cors cors_layer

section \<open>Routes\<close>

text \<open>A path is the list of its segments; a pattern names the ones that vary.\<close>

datatype segment = Fix string | Par string

type_synonym pattern = "segment list"

text \<open>A route with its handlers by method and its layers, the outermost first.\<close>

record route =
  rt_pattern :: pattern
  rt_methods :: "(http_method \<times> string) list"
  rt_layers :: "layer list"

definition new_route :: "pattern \<Rightarrow> (http_method \<times> string) list \<Rightarrow> route" where
  "new_route p hs = \<lparr>rt_pattern = p, rt_methods = hs, rt_layers = []\<rparr>"

text \<open>\<open>.layer\<close> wraps the routes added so far; \<open>.nest\<close> puts a prefix in front of their paths.\<close>

definition add_layer :: "layer \<Rightarrow> route list \<Rightarrow> route list" where
  "add_layer l rs = map (\<lambda>r. r\<lparr>rt_layers := l # rt_layers r\<rparr>) rs"

definition nest_routes :: "string \<Rightarrow> route list \<Rightarrow> route list" where
  "nest_routes p rs = map (\<lambda>r. r\<lparr>rt_pattern := Fix p # rt_pattern r\<rparr>) rs"

definition board_routes :: "route list" where
  "board_routes = add_layer RequireAuth
     [new_route [] [(GET, ''boards::list''), (POST, ''boards::create'')],
      new_route [Par ''slug''] [(GET, ''boards::get''), (PATCH, ''boards::update''), (DELETE, ''boards::delete'')],
      new_route [Par ''slug'', Fix ''entries''] [(GET, ''entries::list''), (POST, ''entries::create'')],
      new_route [Par ''slug'', Fix ''entries'', Par ''entry_slug'']
        [(GET, ''entries::get''), (PATCH, ''entries::update''), (DELETE, ''entries::delete'')],
      new_route [Par ''slug'', Fix ''entries'', Par ''entry_slug'', Fix ''history''] [(GET, ''entries::history'')],
      new_route [Par ''slug'', Fix ''versions''] [(GET, ''versions::list''), (POST, ''versions::create'')],
      new_route [Par ''slug'', Fix ''versions'', Par ''version_number''] [(GET, ''versions::get'')],
      new_route [Par ''slug'', Fix ''latest''] [(GET, ''versions::latest'')],
      new_route [Par ''slug'', Fix ''diff''] [(GET, ''versions::diff'')],
      new_route [Par ''slug'', Fix ''since'', Par ''version_number''] [(GET, ''versions::since'')],
      new_route [Par ''slug'', Fix ''references''] [(GET, ''references::list''), (POST, ''references::create'')],
      new_route [Par ''slug'', Fix ''references'', Par ''reference_id''] [(DELETE, ''references::delete'')],
      new_route [Par ''slug'', Fix ''scores''] [(POST, ''scores::submit'')],
      new_route [Par ''slug'', Fix ''snapshot''] [(POST, ''scores::snapshot'')],
      new_route [Par ''slug'', Fix ''stream''] [(GET, ''sse::stream'')],
      new_route [Par ''slug'', Fix ''ws''] [(GET, ''ws::stream'')]]"

definition collection_routes :: "route list" where
  "collection_routes = add_layer RequireAuth
     [new_route [] [(GET, ''collections::list''), (POST, ''collections::create'')],
      new_route [Par ''slug'']
        [(GET, ''collections::get''), (PATCH, ''collections::update''), (DELETE, ''collections::delete'')],
      new_route [Par ''slug'', Fix ''boards''] [(POST, ''collections::add_board'')],
      new_route [Par ''slug'', Fix ''boards'', Par ''board_slug''] [(DELETE, ''collections::remove_board'')]]"

definition server_of :: "config \<Rightarrow> server_config" where
  "server_of c = unwrap_or (cfg_server c) default_server"

text \<open>
  The router. \<open>swagger\<close> holds the routes of the Swagger UI for a path and the address of the
  document. A rate limit the limiter refuses ends the program (None).
\<close>

definition build_router ::
    "(string \<Rightarrow> string option) \<Rightarrow> (string \<Rightarrow> string \<Rightarrow> route list) \<Rightarrow> config \<Rightarrow> route list option" where
  "build_router header_value swagger c =
     (let sv = server_of c;
          app = add_layer (BodyLimit (sv_max_request_body_bytes sv))
            (new_route [Fix ''health''] [(GET, ''health'')] #
             nest_routes ''boards'' board_routes @ nest_routes ''collections'' collection_routes);
          app = (if cfg_sync c \<noteq> None
                 then app @ add_layer (BodyLimit (5 * 1024 * 1024))
                        [new_route [Fix ''webhooks'', Fix ''github''] [(POST, ''webhooks::github'')]]
                 else app);
          app = (if sv_metrics_enabled sv
                 then add_layer Track (app @ [new_route [Fix ''metrics''] [(GET, ''metrics::handler'')]])
                 else app);
          app = (if sv_docs_enabled sv then app @ swagger ''/docs'' ''/api-doc/openapi.json'' else app)
      in Option.bind
           (if 0 < sv_rate_limit_per_second sv
            then map_option (\<lambda>g. add_layer (RateLimit g) app)
              (governor_finish \<lparr>gc_per_second = sv_rate_limit_per_second sv,
                 gc_burst_size = sv_rate_limit_burst sv, gc_smart_ip = sv_behind_proxy sv\<rparr>)
            else Some app)
           (\<lambda>app. let app = add_layer TraceRequests app in
              Some (if sv_cors_origins sv \<noteq> []
                    then add_layer (Cors (build_cors_layer header_value (sv_cors_origins sv))) app
                    else app)))"

section \<open>Finding the handler\<close>

fun match_path :: "pattern \<Rightarrow> string list \<Rightarrow> string list option" where
  "match_path [] [] = Some []"
| "match_path (Fix f # p) (s # ss) = (if f = s then match_path p ss else None)"
| "match_path (Par _ # p) (s # ss) = (if s = [] then None else map_option ((#) s) (match_path p ss))"
| "match_path _ _ = None"

datatype routed = Handled string "string list" "layer list" | MethodNotAllowed | NoRoute

text \<open>A route for GET also answers HEAD.\<close>

definition handler_for :: "http_method \<Rightarrow> (http_method \<times> string) list \<Rightarrow> string option" where
  "handler_for m hs =
     (case map_of hs m of Some h \<Rightarrow> Some h | None \<Rightarrow> if m = HEAD then map_of hs GET else None)"

fun route_to :: "route list \<Rightarrow> http_method \<Rightarrow> string list \<Rightarrow> routed" where
  "route_to [] m path = NoRoute"
| "route_to (r # rs) m path =
     (case match_path (rt_pattern r) path of
        None \<Rightarrow> route_to rs m path
      | Some args \<Rightarrow>
          (case handler_for m (rt_methods r) of
             Some h \<Rightarrow> Handled h args (rt_layers r)
           | None \<Rightarrow> MethodNotAllowed))"

section \<open>Health\<close>

text \<open>\<open>pg_up\<close>: the database answers the probe; \<open>ping\<close>: the server has Redis, and it answers.\<close>

definition health :: "bool \<Rightarrow> bool option \<Rightarrow> nat \<times> json" where
  "health pg_up ping =
     (if \<not> pg_up then (503, json_object [(''status'', JString ''unhealthy''), (''reason'', JString ''database unreachable'')])
      else case ping of
        Some False \<Rightarrow> (503, json_object [(''status'', JString ''unhealthy''), (''reason'', JString ''redis unreachable'')])
      | Some True \<Rightarrow> (200, json_object [(''status'', JString ''ok''), (''postgres'', JString ''ok''), (''redis'', JString ''ok'')])
      | None \<Rightarrow> (200, json_object [(''status'', JString ''ok''), (''postgres'', JString ''ok'')]))"

section \<open>Shutdown\<close>

text \<open>
  A tracked task is the number of seconds it still runs; one without an exit (None) runs for ever.
  What a spawned task does to time: ticks of an interval, and a loop, which has no \<open>break\<close> here.
\<close>

type_synonym task = "nat option"

datatype timing = End | Tick nat timing | Loop timing

fun ends :: "timing \<Rightarrow> task" where
  "ends End = Some 0"
| "ends (Tick n k) = map_option ((+) n) (ends k)"
| "ends (Loop _) = None"

text \<open>The first tick of an interval is at once; in the loop, one tick an hour and a refresh.\<close>

definition spawn_refresh_task :: "task list \<Rightarrow> task list" where
  "spawn_refresh_task tracked = tracked @ [ends (Tick 0 (Loop (Tick 3600 End)))]"

fun start_background_tasks :: "'k auth_mode \<Rightarrow> task list \<Rightarrow> task list" where
  "start_background_tasks (Jwt cache role iss aud tokens rra) tracked = spawn_refresh_task tracked"
| "start_background_tasks _ tracked = tracked"

definition wait_for_tasks :: "task list \<Rightarrow> nat option" where
  "wait_for_tasks ts = map_option (\<lambda>ends. fold max ends 0) (those ts)"

text \<open>
  Draining gives the seconds it took and the tasks still running, or None when it never returns.
  A timeout looks at the tasks before it looks at the clock.
\<close>

definition drain :: "nat \<Rightarrow> task list \<Rightarrow> (nat \<times> nat) option" where
  "drain timeout_secs ts =
     (if timeout_secs = 0 then map_option (\<lambda>t. (t, 0)) (wait_for_tasks ts)
      else case wait_for_tasks ts of
        Some t \<Rightarrow>
          if t \<le> timeout_secs then Some (t, 0)
          else Some (timeout_secs, length (filter (\<lambda>e. case e of None \<Rightarrow> True | Some s \<Rightarrow> timeout_secs < s) ts))
      | None \<Rightarrow> Some (timeout_secs, length (filter (\<lambda>e. case e of None \<Rightarrow> True | Some s \<Rightarrow> timeout_secs < s) ts)))"

text \<open>
  The responses in flight when the signal comes, each with the seconds until it is sent or its
  client has gone. An SSE stream goes on until its deadline, if it has one, or until its client
  leaves; None is one that never ends.
\<close>

definition sse_response :: "'x sse_session \<Rightarrow> nat \<Rightarrow> task \<Rightarrow> task" where
  "sse_response s age client_leaves =
     (if se_has_deadline s
      then Some (case client_leaves of
             None \<Rightarrow> nat (se_deadline s) - age
           | Some secs \<Rightarrow> min secs (nat (se_deadline s) - age))
      else client_leaves)"

text \<open>
  From the signal until \<open>serve\<close> returns. Axum's graceful shutdown comes first: it takes no new
  connection and waits for the responses in flight, with no timeout. The tracked tasks, counted
  from the signal too, run meanwhile and are drained after it.
\<close>

definition shut_down :: "nat \<Rightarrow> task list \<Rightarrow> task list \<Rightarrow> (nat \<times> nat) option" where
  "shut_down timeout_secs responses tracked =
     Option.bind (wait_for_tasks responses) (\<lambda>w.
     map_option (\<lambda>(secs, left). (w + secs, left))
       (drain timeout_secs (map (map_option (\<lambda>s. s - w)) tracked)))"

record net_lib =
  parse_addr :: "message \<Rightarrow> string option"
  bind_addr :: "string \<Rightarrow> string + unit"
  serve_http :: "string + unit"

datatype serve_failure = RateLimitPanic | BadAddress | BindFailed string | ServeFailed string

text \<open>
  The server from its start until it returns; \<open>responses\<close> and \<open>tracked\<close> are in flight when the
  shutdown signal comes. Right None is a server that never returns.
\<close>

definition run_server ::
    "net_lib \<Rightarrow> (string \<Rightarrow> string option) \<Rightarrow> (string \<Rightarrow> string \<Rightarrow> route list) \<Rightarrow> config \<Rightarrow> task list \<Rightarrow> task list \<Rightarrow>
     serve_failure + (nat \<times> nat) option" where
  "run_server N header_value swagger c responses tracked =
     (let sv = server_of c in
      rbind (ok_or (build_router header_value swagger c) RateLimitPanic) (\<lambda>app.
      rbind (ok_or (parse_addr N [Str (sv_host sv), Lit '':'', Num (sv_port sv)]) BadAddress) (\<lambda>addr.
      rbind (map_err BindFailed (bind_addr N addr)) (\<lambda>_.
      rbind (map_err ServeFailed (serve_http N)) (\<lambda>_.
      Inr (shut_down (nat (sv_shutdown_timeout_secs sv)) responses tracked))))))"

section \<open>Metrics\<close>

text \<open>The recorder, once installed, is kept; a request is counted under method, path and status.\<close>

record metrics =
  mt_installed :: bool
  mt_requests :: "((string \<times> string \<times> string) \<times> nat) list"
  mt_durations :: "((string \<times> string \<times> string) \<times> nat list) list"

definition metrics_init :: "metrics \<Rightarrow> metrics" where
  "metrics_init m = (if mt_installed m then m else \<lparr>mt_installed = True, mt_requests = [], mt_durations = []\<rparr>)"

definition metrics_track :: "string \<Rightarrow> string option \<Rightarrow> string \<Rightarrow> nat \<Rightarrow> metrics \<Rightarrow> metrics" where
  "metrics_track meth matched_path status duration m =
     (let labels = (meth, unwrap_or matched_path ''unmatched'', status) in
      m\<lparr>mt_requests := AList.update labels (Suc (unwrap_or (map_of (mt_requests m) labels) 0)) (mt_requests m),
        mt_durations := AList.update labels (unwrap_or (map_of (mt_durations m) labels) [] @ [duration]) (mt_durations m)\<rparr>)"

section \<open>The layers of a route\<close>

text \<open>What a request to a path with this first segment passes, from the outside inwards.\<close>

definition outer_layers :: "(string \<Rightarrow> string option) \<Rightarrow> config \<Rightarrow> string \<Rightarrow> layer list" where
  "outer_layers header_value c f =
     (let sv = server_of c in
      (if sv_cors_origins sv \<noteq> [] then [Cors (build_cors_layer header_value (sv_cors_origins sv))] else []) @
      [TraceRequests] @
      (if 0 < sv_rate_limit_per_second sv
       then [RateLimit \<lparr>gc_per_second = sv_rate_limit_per_second sv, gc_burst_size = sv_rate_limit_burst sv,
               gc_smart_ip = sv_behind_proxy sv\<rparr>]
       else []) @
      (if sv_metrics_enabled sv \<and> f \<notin> {''docs'', ''api-doc''} then [Track] else []))"

definition inner_layers :: "config \<Rightarrow> string \<Rightarrow> layer list" where
  "inner_layers c f =
     (if f \<in> {''boards'', ''collections''} then [BodyLimit (sv_max_request_body_bytes (server_of c)), RequireAuth]
      else if f = ''health'' then [BodyLimit (sv_max_request_body_bytes (server_of c))]
      else if f = ''webhooks'' then [BodyLimit (5 * 1024 * 1024)]
      else [])"

definition first_segment :: "route \<Rightarrow> string" where
  "first_segment r = (case rt_pattern r of Fix f # _ \<Rightarrow> f | _ \<Rightarrow> [])"

text \<open>The routes of the Swagger UI are under its two addresses and bring no layers.\<close>

definition swagger_ok :: "(string \<Rightarrow> string \<Rightarrow> route list) \<Rightarrow> bool" where
  "swagger_ok swagger \<longleftrightarrow>
     (\<forall>r \<in> set (swagger ''/docs'' ''/api-doc/openapi.json'').
        rt_layers r = [] \<and> first_segment r \<in> {''docs'', ''api-doc''})"

lemma set_add_layer: "set (add_layer l rs) = (\<lambda>r. r\<lparr>rt_layers := l # rt_layers r\<rparr>) ` set rs"
  by (simp add: add_layer_def)

lemma route_simps [simp]: "first_segment (new_route (Fix f # p) hs) = f" "rt_layers (new_route p hs) = []"
  by (simp_all add: new_route_def first_segment_def)

lemma first_segment_update [simp]: "first_segment (r\<lparr>rt_layers := ls\<rparr>) = first_segment r"
  by (simp add: first_segment_def)

lemma nested: "r \<in> set (nest_routes p rs) \<Longrightarrow> first_segment r = p \<and> rt_layers r \<in> rt_layers ` set rs"
  by (auto simp: nest_routes_def first_segment_def)

lemma nested_boards: "r \<in> set (nest_routes p board_routes) \<Longrightarrow> first_segment r = p \<and> rt_layers r = [RequireAuth]"
  by (frule nested) (auto simp: board_routes_def add_layer_def new_route_def)

lemma nested_collections:
  "r \<in> set (nest_routes p collection_routes) \<Longrightarrow> first_segment r = p \<and> rt_layers r = [RequireAuth]"
  by (frule nested) (auto simp: collection_routes_def add_layer_def new_route_def)

text \<open>All routes of a list have a first segment of \<open>F\<close> and the layers \<open>L\<close> gives for it.\<close>

definition layered :: "string set \<Rightarrow> (string \<Rightarrow> layer list) \<Rightarrow> route list \<Rightarrow> bool" where
  "layered F L rs \<longleftrightarrow> (\<forall>r \<in> set rs. first_segment r \<in> F \<and> rt_layers r = L (first_segment r))"

lemma layered_add: "layered F L rs \<Longrightarrow> layered F (\<lambda>f. l # L f) (add_layer l rs)"
  by (auto simp: layered_def set_add_layer)

lemma layered_append: "layered F L rs \<Longrightarrow> layered F L rs' \<Longrightarrow> layered F L (rs @ rs')"
  by (auto simp: layered_def)

lemma layered_weaken: "layered F L rs \<Longrightarrow> F \<subseteq> F' \<Longrightarrow> (\<And>f. f \<in> F \<Longrightarrow> L f = L' f) \<Longrightarrow> layered F' L' rs"
  by (auto simp: layered_def)

definition base_routes :: "config \<Rightarrow> route list" where
  "base_routes c =
     add_layer (BodyLimit (sv_max_request_body_bytes (server_of c)))
       (new_route [Fix ''health''] [(GET, ''health'')] #
        nest_routes ''boards'' board_routes @ nest_routes ''collections'' collection_routes)"

definition sync_routes :: "config \<Rightarrow> route list" where
  "sync_routes c =
     (if cfg_sync c \<noteq> None
      then add_layer (BodyLimit (5 * 1024 * 1024))
             [new_route [Fix ''webhooks'', Fix ''github''] [(POST, ''webhooks::github'')]]
      else [])"

definition tracked_routes :: "config \<Rightarrow> route list" where
  "tracked_routes c =
     (if sv_metrics_enabled (server_of c)
      then add_layer Track ((base_routes c @ sync_routes c) @ [new_route [Fix ''metrics''] [(GET, ''metrics::handler'')]])
      else base_routes c @ sync_routes c)"

definition own_segments :: "config \<Rightarrow> string set" where
  "own_segments c = {''boards'', ''collections'', ''health''} \<union> (if cfg_sync c \<noteq> None then {''webhooks''} else {}) \<union>
     (if sv_metrics_enabled (server_of c) then {''metrics''} else {})"

lemma layered_base: "layered (own_segments c) (inner_layers c) (base_routes c @ sync_routes c)"
  unfolding layered_def
proof
  fix r assume "r \<in> set (base_routes c @ sync_routes c)"
  then consider "r \<in> set (base_routes c)" | "r \<in> set (sync_routes c)" by auto
  then show "first_segment r \<in> own_segments c \<and> rt_layers r = inner_layers c (first_segment r)"
  proof cases
    case 1
    then obtain q where r: "r = q\<lparr>rt_layers := BodyLimit (sv_max_request_body_bytes (server_of c)) # rt_layers q\<rparr>"
      and q: "q \<in> set (new_route [Fix ''health''] [(GET, ''health'')] #
        nest_routes ''boards'' board_routes @ nest_routes ''collections'' collection_routes)"
      unfolding base_routes_def set_add_layer by (rule imageE)
    from q have "q = new_route [Fix ''health''] [(GET, ''health'')] \<or> q \<in> set (nest_routes ''boards'' board_routes) \<or>
        q \<in> set (nest_routes ''collections'' collection_routes)" by simp
    then show ?thesis
      by (elim disjE) (auto dest!: nested_boards nested_collections simp: r inner_layers_def own_segments_def)
  next
    case 2
    then show ?thesis
      by (auto simp: sync_routes_def add_layer_def new_route_def first_segment_def inner_layers_def own_segments_def
        split: if_splits)
  qed
qed

lemma layered_tracked:
  "layered (own_segments c) (\<lambda>f. (if sv_metrics_enabled (server_of c) then [Track] else []) @ inner_layers c f)
     (tracked_routes c)"
proof (cases "sv_metrics_enabled (server_of c)")
  case True
  have "layered (own_segments c) (inner_layers c) [new_route [Fix ''metrics''] [(GET, ''metrics::handler'')]]"
    using True by (simp add: layered_def own_segments_def new_route_def first_segment_def inner_layers_def)
  from layered_add [OF layered_append [OF layered_base this], of Track] True
  show ?thesis by (simp add: tracked_routes_def)
qed (simp add: tracked_routes_def layered_base)

lemma build_router_eq:
  "build_router header_value swagger c =
     (let sv = server_of c;
          app = tracked_routes c @ (if sv_docs_enabled sv then swagger ''/docs'' ''/api-doc/openapi.json'' else []);
          g = \<lparr>gc_per_second = sv_rate_limit_per_second sv, gc_burst_size = sv_rate_limit_burst sv,
               gc_smart_ip = sv_behind_proxy sv\<rparr>;
          cors = (\<lambda>app. if sv_cors_origins sv \<noteq> []
            then add_layer (Cors (build_cors_layer header_value (sv_cors_origins sv))) app else app)
      in if 0 < sv_rate_limit_per_second sv
         then (if sv_rate_limit_burst sv = 0 then None
               else Some (cors (add_layer TraceRequests (add_layer (RateLimit g) app))))
         else Some (cors (add_layer TraceRequests app)))"
  by (simp add: build_router_def tracked_routes_def base_routes_def sync_routes_def governor_finish_def Let_def)

lemma built_layered:
  assumes "build_router header_value swagger c = Some rs" "swagger_ok swagger"
  shows "layered (own_segments c \<union> {''docs'', ''api-doc''})
    (\<lambda>f. outer_layers header_value c f @ inner_layers c f) rs"
proof -
  define F where "F = own_segments c \<union> {''docs'', ''api-doc''}"
  define app where "app = tracked_routes c @
    (if sv_docs_enabled (server_of c) then swagger ''/docs'' ''/api-doc/openapi.json'' else [])"
  let ?L = "\<lambda>f. (if sv_metrics_enabled (server_of c) \<and> f \<notin> {''docs'', ''api-doc''} then [Track] else []) @ inner_layers c f"
  have "layered F ?L (tracked_routes c)"
    by (rule layered_weaken [OF layered_tracked]) (auto simp: F_def own_segments_def split: if_splits)
  moreover have "layered F ?L (if sv_docs_enabled (server_of c) then swagger ''/docs'' ''/api-doc/openapi.json'' else [])"
    using assms(2) by (auto simp: F_def layered_def swagger_ok_def inner_layers_def)
  ultimately have "layered F ?L app" unfolding app_def by (rule layered_append)
  note stacked = layered_add [OF layered_add [OF layered_add [OF this]]] layered_add [OF layered_add [OF this]]
    layered_add [OF this]
  from assms(1) show ?thesis
    unfolding build_router_eq Let_def outer_layers_def F_def [symmetric] app_def [symmetric]
    by (cases "0 < sv_rate_limit_per_second (server_of c)"; cases "sv_cors_origins (server_of c) = []")
      (simp_all split: if_splits, auto intro: stacked [simplified])
qed

lemma route_to_Handled:
  "route_to rs m path = Handled h args ls \<Longrightarrow>
     \<exists>r \<in> set rs. match_path (rt_pattern r) path = Some args \<and> rt_layers r = ls \<and> handler_for m (rt_methods r) = Some h"
  by (induction rs) (auto split: option.splits)

lemma match_path_first: "match_path p path = Some args \<Longrightarrow> p = Fix f # q \<Longrightarrow> path \<noteq> [] \<and> hd path = f"
  by (cases path) (auto split: if_splits)

text \<open>
  The order and the reach of the layers. In any configuration the server starts with, a
  request that reaches a handler passed, from the outside inwards, CORS (when origins are
  configured), tracing, the rate limiter (when switched on), the metrics (when switched on, except
  for the API documentation), the body limit and, last, for exactly the paths under \<open>/boards\<close> and
  \<open>/collections\<close>, the auth middleware; a path under \<open>/webhooks\<close> or \<open>/metrics\<close> has a handler only
  when it is configured.
\<close>

theorem router_layers:
  assumes "build_router header_value swagger c = Some rs" "swagger_ok swagger"
    "route_to rs m path = Handled h args ls"
  shows "ls = outer_layers header_value c (hd path) @ inner_layers c (hd path) \<and>
    (RequireAuth \<in> set ls \<longleftrightarrow> hd path \<in> {''boards'', ''collections''}) \<and>
    (hd path = ''webhooks'' \<longrightarrow> cfg_sync c \<noteq> None) \<and>
    (hd path = ''metrics'' \<longrightarrow> sv_metrics_enabled (server_of c))"
proof -
  from route_to_Handled [OF assms(3)] obtain r where
    r: "r \<in> set rs" "match_path (rt_pattern r) path = Some args" "rt_layers r = ls" by blast
  with built_layered [OF assms(1,2)] have
    l: "first_segment r \<in> own_segments c \<union> {''docs'', ''api-doc''}"
      "ls = outer_layers header_value c (first_segment r) @ inner_layers c (first_segment r)"
    by (auto simp: layered_def)
  from l(1) have "first_segment r \<noteq> []" by (auto simp: own_segments_def split: if_splits)
  then obtain q where "rt_pattern r = Fix (first_segment r) # q"
    by (auto simp: first_segment_def split: list.splits segment.splits)
  with r(2) match_path_first have f: "first_segment r = hd path" by metis
  have "RequireAuth \<notin> set (outer_layers header_value c (hd path))" by (simp add: outer_layers_def Let_def)
  with l f show ?thesis by (auto simp: inner_layers_def own_segments_def split: if_splits)
qed

definition metered_config :: config where
  "metered_config =
     \<lparr>cfg_server = Some (default_server\<lparr>sv_metrics_enabled := True, sv_cors_origins := [''*'']\<rparr>),
      cfg_database = \<lparr>dc_url = ConfigValue ''db'', dc_max_connections = 10, dc_schema = None\<rparr>,
      cfg_redis = None, cfg_auth = None, cfg_sync = None, cfg_limits = None, cfg_webhooks = []\<rparr>"

theorem router_layers_witness:
  "(case build_router Some (\<lambda>_ _. []) metered_config of
      None \<Rightarrow> False
    | Some rs \<Rightarrow> (case route_to rs GET [''boards'', ''nfl'', ''latest''] of
        Handled h args ls \<Rightarrow> h = ''versions::latest'' \<and> args = [''nfl''] \<and> RequireAuth \<in> set ls
      | _ \<Rightarrow> False))"
proof -
  obtain rs where rs: "build_router Some (\<lambda>_ _. []) metered_config = Some rs"
    by (cases "build_router Some (\<lambda>_ _. []) metered_config")
      (simp_all add: build_router_eq Let_def metered_config_def server_of_def default_server_def)
  have "(case build_router Some (\<lambda>_ _. []) metered_config of Some rs \<Rightarrow>
      (case route_to rs GET [''boards'', ''nfl'', ''latest''] of
         Handled h args ls \<Rightarrow> h = ''versions::latest'' \<and> args = [''nfl''] | _ \<Rightarrow> False) | None \<Rightarrow> False)"
    by code_simp
  with rs obtain ls where
    to: "route_to rs GET [''boards'', ''nfl'', ''latest''] = Handled ''versions::latest'' [''nfl''] ls"
    by (simp split: routed.splits)
  have "RequireAuth \<in> set ls"
    using conjunct1 [OF conjunct2 [OF router_layers [OF rs _ to]]] by (simp add: swagger_ok_def)
  with rs to show ?thesis by simp
qed

section \<open>Shutting down\<close>

definition is_jwt :: "'k auth_mode \<Rightarrow> bool" where
  "is_jwt mode = (case mode of Jwt _ _ _ _ _ _ \<Rightarrow> True | _ \<Rightarrow> False)"

definition ended_by :: "nat \<Rightarrow> task \<Rightarrow> bool" where
  "ended_by t e = (case e of None \<Rightarrow> False | Some s \<Rightarrow> s \<le> t)"

lemma wait_for_tasks_None: "wait_for_tasks ts = None \<longleftrightarrow> None \<in> set ts"
proof (induction ts)
  case (Cons e ts)
  then show ?case by (cases e) (auto simp: wait_for_tasks_def)
qed (simp add: wait_for_tasks_def)

lemma fold_max_le: "fold max es (n :: nat) \<le> t \<longleftrightarrow> n \<le> t \<and> (\<forall>e \<in> set es. e \<le> t)"
  by (induction es arbitrary: n) auto

lemma those_map: "those ts = Some es \<longleftrightarrow> ts = map Some es"
  by (induction ts arbitrary: es) (auto split: option.splits)

lemma wait_for_tasks_le: "(\<exists>s. wait_for_tasks ts = Some s \<and> s \<le> t) \<longleftrightarrow> (\<forall>e \<in> set ts. ended_by t e)"
proof
  assume "\<exists>s. wait_for_tasks ts = Some s \<and> s \<le> t"
  then show "\<forall>e \<in> set ts. ended_by t e"
    by (auto simp: wait_for_tasks_def those_map fold_max_le ended_by_def)
next
  assume e: "\<forall>e \<in> set ts. ended_by t e"
  then have "None \<notin> set ts" by (auto simp: ended_by_def)
  then obtain s where s: "wait_for_tasks ts = Some s" by (cases "wait_for_tasks ts") (auto simp: wait_for_tasks_None)
  with e show "\<exists>s. wait_for_tasks ts = Some s \<and> s \<le> t"
    by (auto simp: wait_for_tasks_def those_map fold_max_le ended_by_def)
qed

lemma drain_returns:
  "drain t ts = None \<longleftrightarrow> t = 0 \<and> None \<in> set ts"
  "0 < t \<Longrightarrow> \<exists>secs left. drain t ts = Some (secs, left) \<and> secs \<le> t \<and>
     (left = 0 \<longleftrightarrow> (\<forall>e \<in> set ts. ended_by t e)) \<and> (None \<in> set ts \<longrightarrow> secs = t)"
proof -
  let ?late = "length (filter (\<lambda>e. case e of None \<Rightarrow> True | Some s \<Rightarrow> t < s) ts)"
  have late: "?late = 0 \<longleftrightarrow> (\<forall>e \<in> set ts. ended_by t e)"
    by (auto simp: filter_empty_conv ended_by_def not_less split: option.splits)
  show "drain t ts = None \<longleftrightarrow> t = 0 \<and> None \<in> set ts"
    using wait_for_tasks_None [of ts] by (auto simp: drain_def split: option.split)
  assume t: "0 < t"
  show "\<exists>secs left. drain t ts = Some (secs, left) \<and> secs \<le> t \<and>
     (left = 0 \<longleftrightarrow> (\<forall>e \<in> set ts. ended_by t e)) \<and> (None \<in> set ts \<longrightarrow> secs = t)"
  proof (cases "\<exists>s. wait_for_tasks ts = Some s \<and> s \<le> t")
    case True
    then obtain s where s: "wait_for_tasks ts = Some s" "s \<le> t" by blast
    moreover have "\<forall>e \<in> set ts. ended_by t e" using True wait_for_tasks_le by blast
    moreover have "None \<notin> set ts" using s(1) wait_for_tasks_None [of ts] by simp
    ultimately show ?thesis using t by (intro exI [of _ s] exI [of _ 0]) (simp add: drain_def)
  next
    case False
    then have "drain t ts = Some (t, ?late)" using t by (auto simp: drain_def split: option.splits)
    moreover from False have "\<not> (\<forall>e \<in> set ts. ended_by t e)" using wait_for_tasks_le by blast
    ultimately show ?thesis using late by (intro exI [of _ t] exI [of _ ?late]) simp
  qed
qed

text \<open>
  C38: when the server returns from a shutdown. It first waits for the responses in flight, with no
  timeout: it never returns when one of them never ends, as an SSE stream does whose client stays
  while no stream timeout is set. Let them all have ended after \<open>w\<close> seconds. With a shutdown timeout
  the server then returns within that timeout, and no task is left exactly when all had ended by
  then; without one it returns exactly when every tracked task ends. With JWT auth the endless
  refresh of the JWKS is one of the tracked tasks: the draining then takes the whole timeout even
  with nothing in flight, and with no timeout the server never returns.
\<close>

theorem shutdown_returns:
  "(shut_down t responses (start_background_tasks mode tracked) = None \<longleftrightarrow>
      None \<in> set responses \<or> t = 0 \<and> (is_jwt mode \<or> None \<in> set tracked)) \<and>
   (\<forall>w. wait_for_tasks responses = Some w \<and> 0 < t \<longrightarrow>
      (\<exists>secs left. shut_down t responses (start_background_tasks mode tracked) = Some (secs, left) \<and>
         w \<le> secs \<and> secs \<le> w + t \<and>
         (left = 0 \<longleftrightarrow> \<not> is_jwt mode \<and> (\<forall>e \<in> set tracked. ended_by (w + t) e)) \<and>
         (is_jwt mode \<longrightarrow> secs = w + t))) \<and>
   (sse_stream X slug a = (Inr s, a') \<longrightarrow>
      (sse_response s age None = None \<longleftrightarrow> timeout_of sv_sse_timeout_secs X \<le> 0))"
proof (intro conjI allI impI)
  let ?ts = "start_background_tasks mode tracked"
  have mem: "set ?ts = set tracked \<union> (if is_jwt mode then {None} else {})"
    by (cases mode) (auto simp: is_jwt_def spawn_refresh_task_def)
  have none: "None \<in> set (map (map_option (\<lambda>s. s - w)) ?ts) \<longleftrightarrow> is_jwt mode \<or> None \<in> set tracked" for w :: nat
    by (auto simp: mem image_iff)
  show "shut_down t responses ?ts = None \<longleftrightarrow> None \<in> set responses \<or> t = 0 \<and> (is_jwt mode \<or> None \<in> set tracked)"
    using wait_for_tasks_None [of responses] none
    by (cases "wait_for_tasks responses") (auto simp: shut_down_def drain_returns(1))
  fix w assume w: "wait_for_tasks responses = Some w \<and> 0 < t"
  let ?us = "map (map_option (\<lambda>s. s - w)) ?ts"
  have all: "(\<forall>e \<in> set ?us. ended_by t e) \<longleftrightarrow> \<not> is_jwt mode \<and> (\<forall>e \<in> set tracked. ended_by (w + t) e)"
    by (auto simp: mem ended_by_def split: option.splits)
  from drain_returns(2) [of t ?us] w obtain secs left where
    d: "drain t ?us = Some (secs, left)" "secs \<le> t" "left = 0 \<longleftrightarrow> (\<forall>e \<in> set ?us. ended_by t e)"
      "None \<in> set ?us \<longrightarrow> secs = t" by blast
  show "\<exists>secs left. shut_down t responses ?ts = Some (secs, left) \<and> w \<le> secs \<and> secs \<le> w + t \<and>
      (left = 0 \<longleftrightarrow> \<not> is_jwt mode \<and> (\<forall>e \<in> set tracked. ended_by (w + t) e)) \<and> (is_jwt mode \<longrightarrow> secs = w + t)"
    using w d none [of w] all by (intro exI [of _ "w + secs"] exI [of _ left]) (simp add: shut_down_def)
next
  assume "sse_stream X slug a = (Inr s, a')"
  then show "sse_response s age None = None \<longleftrightarrow> timeout_of sv_sse_timeout_secs X \<le> 0"
    by (auto simp: sse_stream_def and_then_Inr sse_response_def)
qed

text \<open>
  JWT auth, the default timeout, a response that takes 5 seconds and nothing else in flight; and a
  stream that never ends.
\<close>

theorem shutdown_returns_witness:
  "let tasks = start_background_tasks
      (Jwt \<lparr>jc_url = ''u'', jc_keys = ([] :: (string \<times> string \<times> algorithm) list), jc_last_refresh = 0\<rparr> None None None [] False) []
   in (\<exists>left. shut_down 30 [Some 5] tasks = Some (35, left) \<and> 0 < left) \<and> shut_down 30 [Some 5, None] tasks = None"
proof -
  let ?mode = "Jwt \<lparr>jc_url = ''u'', jc_keys = ([] :: (string \<times> string \<times> algorithm) list), jc_last_refresh = 0\<rparr>
    None None None [] False"
  have j: "is_jwt ?mode" by (simp add: is_jwt_def)
  have w: "wait_for_tasks [Some 5] = Some 5" by (simp add: wait_for_tasks_def)
  note r = shutdown_returns [where mode = ?mode and tracked = "[]" and t = 30 and X = sample_ctx]
  from r [where responses = "[Some 5]", THEN conjunct2, THEN conjunct1, THEN spec [where x = 5]] w j
  have "\<exists>left. shut_down 30 [Some 5] (start_background_tasks ?mode []) = Some (35, left) \<and> 0 < left" by auto
  moreover from r [where responses = "[Some 5, None]", THEN conjunct1]
  have "shut_down 30 [Some 5, None] (start_background_tasks ?mode []) = None" by simp
  ultimately show ?thesis by (simp only: Let_def simp_thms)
qed

end
