(* ===== verification/Api.thy ===== *)
theory Api
  imports Server
begin

text \<open>
  The OpenAPI document (\<open>openapi.rs\<close> and the annotations of the handlers in \<open>routes/\<close>), and how
  the server keeps to it: the paths it routes, the answers it gives, who may ask. Descriptions,
  tags and the parameters of queries are left out.
\<close>

section \<open>The document\<close>

datatype schema = Model string | ArrayOf string | PageOf string

record operation =
  op_method :: http_method
  op_path :: pattern
  op_request :: "string option"
  op_status :: nat
  op_body :: "schema option"
  op_errors :: "nat list"
  op_anonymous :: bool

definition doc_boards_create :: operation where
  "doc_boards_create =
     \<lparr>op_method = POST, op_path = [Fix ''boards''],
      op_request = Some ''CreateBoard'', op_status = 201, op_body = Some (Model ''Board''),
      op_errors = [400, 409], op_anonymous = False\<rparr>"

definition doc_boards_list :: operation where
  "doc_boards_list =
     \<lparr>op_method = GET, op_path = [Fix ''boards''],
      op_request = None, op_status = 200, op_body = Some (PageOf ''Board''),
      op_errors = [], op_anonymous = True\<rparr>"

definition doc_boards_get :: operation where
  "doc_boards_get =
     \<lparr>op_method = GET, op_path = [Fix ''boards'', Par ''slug''],
      op_request = None, op_status = 200, op_body = Some (Model ''BoardSummary''),
      op_errors = [404], op_anonymous = True\<rparr>"

definition doc_boards_update :: operation where
  "doc_boards_update =
     \<lparr>op_method = PATCH, op_path = [Fix ''boards'', Par ''slug''],
      op_request = Some ''UpdateBoard'', op_status = 200, op_body = Some (Model ''Board''),
      op_errors = [404], op_anonymous = False\<rparr>"

definition doc_boards_delete :: operation where
  "doc_boards_delete =
     \<lparr>op_method = DELETE, op_path = [Fix ''boards'', Par ''slug''],
      op_request = None, op_status = 204, op_body = None,
      op_errors = [404], op_anonymous = False\<rparr>"

definition doc_entries_create :: operation where
  "doc_entries_create =
     \<lparr>op_method = POST, op_path = [Fix ''boards'', Par ''slug'', Fix ''entries''],
      op_request = Some ''CreateEntry'', op_status = 201, op_body = Some (Model ''Entry''),
      op_errors = [404], op_anonymous = False\<rparr>"

definition doc_entries_list :: operation where
  "doc_entries_list =
     \<lparr>op_method = GET, op_path = [Fix ''boards'', Par ''slug'', Fix ''entries''],
      op_request = None, op_status = 200, op_body = Some (PageOf ''Entry''),
      op_errors = [404], op_anonymous = True\<rparr>"

definition doc_entries_get :: operation where
  "doc_entries_get =
     \<lparr>op_method = GET, op_path = [Fix ''boards'', Par ''slug'', Fix ''entries'', Par ''entry_slug''],
      op_request = None, op_status = 200, op_body = Some (Model ''Entry''),
      op_errors = [404], op_anonymous = True\<rparr>"

definition doc_entries_update :: operation where
  "doc_entries_update =
     \<lparr>op_method = PATCH, op_path = [Fix ''boards'', Par ''slug'', Fix ''entries'', Par ''entry_slug''],
      op_request = Some ''UpdateEntry'', op_status = 200, op_body = Some (Model ''Entry''),
      op_errors = [404], op_anonymous = False\<rparr>"

definition doc_entries_delete :: operation where
  "doc_entries_delete =
     \<lparr>op_method = DELETE, op_path = [Fix ''boards'', Par ''slug'', Fix ''entries'', Par ''entry_slug''],
      op_request = None, op_status = 204, op_body = None,
      op_errors = [404, 409], op_anonymous = False\<rparr>"

definition doc_entries_history :: operation where
  "doc_entries_history =
     \<lparr>op_method = GET, op_path = [Fix ''boards'', Par ''slug'', Fix ''entries'', Par ''entry_slug'', Fix ''history''],
      op_request = None, op_status = 200, op_body = Some (ArrayOf ''EntryHistoryItem''),
      op_errors = [404], op_anonymous = True\<rparr>"

definition doc_versions_create :: operation where
  "doc_versions_create =
     \<lparr>op_method = POST, op_path = [Fix ''boards'', Par ''slug'', Fix ''versions''],
      op_request = Some ''CreateVersion'', op_status = 201, op_body = Some (Model ''VersionWithPlacements''),
      op_errors = [400, 404], op_anonymous = False\<rparr>"

definition doc_versions_list :: operation where
  "doc_versions_list =
     \<lparr>op_method = GET, op_path = [Fix ''boards'', Par ''slug'', Fix ''versions''],
      op_request = None, op_status = 200, op_body = Some (PageOf ''Version''),
      op_errors = [404], op_anonymous = True\<rparr>"

definition doc_versions_get :: operation where
  "doc_versions_get =
     \<lparr>op_method = GET, op_path = [Fix ''boards'', Par ''slug'', Fix ''versions'', Par ''version_number''],
      op_request = None, op_status = 200, op_body = Some (Model ''VersionWithPlacements''),
      op_errors = [404], op_anonymous = True\<rparr>"

definition doc_versions_latest :: operation where
  "doc_versions_latest =
     \<lparr>op_method = GET, op_path = [Fix ''boards'', Par ''slug'', Fix ''latest''],
      op_request = None, op_status = 200, op_body = Some (Model ''VersionWithPlacements''),
      op_errors = [404], op_anonymous = True\<rparr>"

definition doc_versions_diff :: operation where
  "doc_versions_diff =
     \<lparr>op_method = GET, op_path = [Fix ''boards'', Par ''slug'', Fix ''diff''],
      op_request = None, op_status = 200, op_body = Some (Model ''VersionDiff''),
      op_errors = [400, 404], op_anonymous = True\<rparr>"

definition doc_versions_since :: operation where
  "doc_versions_since =
     \<lparr>op_method = GET, op_path = [Fix ''boards'', Par ''slug'', Fix ''since'', Par ''version_number''],
      op_request = None, op_status = 200, op_body = Some (ArrayOf ''Version''),
      op_errors = [404], op_anonymous = True\<rparr>"

definition doc_scores_submit :: operation where
  "doc_scores_submit =
     \<lparr>op_method = POST, op_path = [Fix ''boards'', Par ''slug'', Fix ''scores''],
      op_request = Some ''SubmitScore'', op_status = 200, op_body = None,
      op_errors = [404], op_anonymous = False\<rparr>"

definition doc_scores_snapshot :: operation where
  "doc_scores_snapshot =
     \<lparr>op_method = POST, op_path = [Fix ''boards'', Par ''slug'', Fix ''snapshot''],
      op_request = Some ''SnapshotInput'', op_status = 201, op_body = Some (Model ''VersionWithPlacements''),
      op_errors = [400, 404], op_anonymous = False\<rparr>"

definition doc_references_create :: operation where
  "doc_references_create =
     \<lparr>op_method = POST, op_path = [Fix ''boards'', Par ''slug'', Fix ''references''],
      op_request = Some ''CreateReference'', op_status = 201, op_body = Some (Model ''BoardReference''),
      op_errors = [404], op_anonymous = False\<rparr>"

definition doc_references_list :: operation where
  "doc_references_list =
     \<lparr>op_method = GET, op_path = [Fix ''boards'', Par ''slug'', Fix ''references''],
      op_request = None, op_status = 200, op_body = Some (PageOf ''BoardReference''),
      op_errors = [404], op_anonymous = True\<rparr>"

definition doc_references_delete :: operation where
  "doc_references_delete =
     \<lparr>op_method = DELETE, op_path = [Fix ''boards'', Par ''slug'', Fix ''references'', Par ''reference_id''],
      op_request = None, op_status = 204, op_body = None,
      op_errors = [404], op_anonymous = False\<rparr>"

definition doc_collections_create :: operation where
  "doc_collections_create =
     \<lparr>op_method = POST, op_path = [Fix ''collections''],
      op_request = Some ''CreateCollection'', op_status = 201, op_body = Some (Model ''Collection''),
      op_errors = [400, 409], op_anonymous = False\<rparr>"

definition doc_collections_list :: operation where
  "doc_collections_list =
     \<lparr>op_method = GET, op_path = [Fix ''collections''],
      op_request = None, op_status = 200, op_body = Some (PageOf ''Collection''),
      op_errors = [], op_anonymous = True\<rparr>"

definition doc_collections_get :: operation where
  "doc_collections_get =
     \<lparr>op_method = GET, op_path = [Fix ''collections'', Par ''slug''],
      op_request = None, op_status = 200, op_body = Some (Model ''CollectionWithBoards''),
      op_errors = [404], op_anonymous = True\<rparr>"

definition doc_collections_update :: operation where
  "doc_collections_update =
     \<lparr>op_method = PATCH, op_path = [Fix ''collections'', Par ''slug''],
      op_request = Some ''UpdateCollection'', op_status = 200, op_body = Some (Model ''Collection''),
      op_errors = [404], op_anonymous = False\<rparr>"

definition doc_collections_delete :: operation where
  "doc_collections_delete =
     \<lparr>op_method = DELETE, op_path = [Fix ''collections'', Par ''slug''],
      op_request = None, op_status = 204, op_body = None,
      op_errors = [404], op_anonymous = False\<rparr>"

definition doc_collections_add_board :: operation where
  "doc_collections_add_board =
     \<lparr>op_method = POST, op_path = [Fix ''collections'', Par ''slug'', Fix ''boards''],
      op_request = Some ''AddBoardToCollection'', op_status = 201, op_body = None,
      op_errors = [404], op_anonymous = False\<rparr>"

definition doc_collections_remove_board :: operation where
  "doc_collections_remove_board =
     \<lparr>op_method = DELETE, op_path = [Fix ''collections'', Par ''slug'', Fix ''boards'', Par ''board_slug''],
      op_request = None, op_status = 204, op_body = None,
      op_errors = [404], op_anonymous = False\<rparr>"

definition openapi_operations :: "(string \<times> operation) list" where
  "openapi_operations =
     [(''boards::list'', doc_boards_list),
      (''boards::create'', doc_boards_create),
      (''boards::get'', doc_boards_get),
      (''boards::update'', doc_boards_update),
      (''boards::delete'', doc_boards_delete),
      (''entries::list'', doc_entries_list),
      (''entries::create'', doc_entries_create),
      (''entries::get'', doc_entries_get),
      (''entries::update'', doc_entries_update),
      (''entries::delete'', doc_entries_delete),
      (''entries::history'', doc_entries_history),
      (''versions::list'', doc_versions_list),
      (''versions::create'', doc_versions_create),
      (''versions::get'', doc_versions_get),
      (''versions::latest'', doc_versions_latest),
      (''versions::diff'', doc_versions_diff),
      (''versions::since'', doc_versions_since),
      (''scores::submit'', doc_scores_submit),
      (''scores::snapshot'', doc_scores_snapshot),
      (''references::list'', doc_references_list),
      (''references::create'', doc_references_create),
      (''references::delete'', doc_references_delete),
      (''collections::list'', doc_collections_list),
      (''collections::create'', doc_collections_create),
      (''collections::get'', doc_collections_get),
      (''collections::update'', doc_collections_update),
      (''collections::delete'', doc_collections_delete),
      (''collections::add_board'', doc_collections_add_board),
      (''collections::remove_board'', doc_collections_remove_board)]"

definition openapi_schemas :: "string list" where
  "openapi_schemas =
     [''Board'', ''CreateBoard'', ''UpdateBoard'', ''Entry'',
      ''CreateEntry'', ''UpdateEntry'', ''Version'', ''Placement'',
      ''CreatePlacement'', ''CreateVersion'', ''VersionWithPlacements'', ''PlacementWithEntry'',
      ''BoardSummary'', ''EntryHistoryItem'', ''VersionDiff'', ''DiffEntry'',
      ''DiffMovedEntry'', ''BoardReference'', ''CreateReference'', ''Collection'',
      ''CreateCollection'', ''UpdateCollection'', ''CollectionBoardEntry'', ''CollectionWithBoards'',
      ''AddBoardToCollection'', ''SubmitScore'', ''SnapshotInput'', ''AccumulatedScore'',
      ''ErrorResponse'']"

section \<open>What the handlers are declared as\<close>

fun handler_name :: "request \<Rightarrow> string" where
  "handler_name (BoardsCreate _) = ''boards::create''"
| "handler_name (BoardsList _) = ''boards::list''"
| "handler_name (BoardsGet _) = ''boards::get''"
| "handler_name (BoardsUpdate _ _) = ''boards::update''"
| "handler_name (BoardsDelete _) = ''boards::delete''"
| "handler_name (EntriesCreate _ _) = ''entries::create''"
| "handler_name (EntriesList _ _) = ''entries::list''"
| "handler_name (EntriesGet _ _) = ''entries::get''"
| "handler_name (EntriesUpdate _ _ _) = ''entries::update''"
| "handler_name (EntriesDelete _ _) = ''entries::delete''"
| "handler_name (EntriesHistory _ _ _) = ''entries::history''"
| "handler_name (VersionsCreate _ _) = ''versions::create''"
| "handler_name (VersionsList _ _) = ''versions::list''"
| "handler_name (VersionsGet _ _) = ''versions::get''"
| "handler_name (VersionsLatest _) = ''versions::latest''"
| "handler_name (VersionsDiff _ _ _) = ''versions::diff''"
| "handler_name (VersionsSince _ _ _) = ''versions::since''"
| "handler_name (ScoresSubmit _ _) = ''scores::submit''"
| "handler_name (ScoresSnapshot _ _) = ''scores::snapshot''"
| "handler_name (ReferencesCreate _ _) = ''references::create''"
| "handler_name (ReferencesList _ _) = ''references::list''"
| "handler_name (ReferencesDelete _ _) = ''references::delete''"
| "handler_name (CollectionsCreate _) = ''collections::create''"
| "handler_name (CollectionsList _) = ''collections::list''"
| "handler_name (CollectionsGet _) = ''collections::get''"
| "handler_name (CollectionsUpdate _ _) = ''collections::update''"
| "handler_name (CollectionsDelete _) = ''collections::delete''"
| "handler_name (CollectionsAddBoard _ _) = ''collections::add_board''"
| "handler_name (CollectionsRemoveBoard _ _) = ''collections::remove_board''"

text \<open>The type of the body a handler extracts, and of the one it answers with.\<close>

fun request_schema :: "request \<Rightarrow> string option" where
  "request_schema (BoardsCreate _) = Some ''CreateBoard''"
| "request_schema (BoardsUpdate _ _) = Some ''UpdateBoard''"
| "request_schema (EntriesCreate _ _) = Some ''CreateEntry''"
| "request_schema (EntriesUpdate _ _ _) = Some ''UpdateEntry''"
| "request_schema (VersionsCreate _ _) = Some ''CreateVersion''"
| "request_schema (ScoresSubmit _ _) = Some ''SubmitScore''"
| "request_schema (ScoresSnapshot _ _) = Some ''SnapshotInput''"
| "request_schema (ReferencesCreate _ _) = Some ''CreateReference''"
| "request_schema (CollectionsCreate _) = Some ''CreateCollection''"
| "request_schema (CollectionsUpdate _ _) = Some ''UpdateCollection''"
| "request_schema (CollectionsAddBoard _ _) = Some ''AddBoardToCollection''"
| "request_schema _ = None"

fun body_schema :: "body \<Rightarrow> schema option" where
  "body_schema NoBody = None"
| "body_schema (BoardBody _) = Some (Model ''Board'')"
| "body_schema (BoardsBody _) = Some (PageOf ''Board'')"
| "body_schema (SummaryBody _) = Some (Model ''BoardSummary'')"
| "body_schema (EntryBody _) = Some (Model ''Entry'')"
| "body_schema (EntriesBody _) = Some (PageOf ''Entry'')"
| "body_schema (HistoryBody _) = Some (ArrayOf ''EntryHistoryItem'')"
| "body_schema (VersionBody _) = Some (Model ''VersionWithPlacements'')"
| "body_schema (VersionsBody _) = Some (PageOf ''Version'')"
| "body_schema (VersionListBody _) = Some (ArrayOf ''Version'')"
| "body_schema (DiffBody _) = Some (Model ''VersionDiff'')"
| "body_schema OkBody = Some (Model ''ok'')"
| "body_schema (ScoreBody _) = Some (Model ''AccumulatedScore'')"
| "body_schema (CollectionBody _) = Some (Model ''Collection'')"
| "body_schema (CollectionsBody _) = Some (PageOf ''Collection'')"
| "body_schema (CollectionBoardsBody _) = Some (Model ''CollectionWithBoards'')"
| "body_schema (ReferenceBody _) = Some (Model ''BoardReference'')"
| "body_schema (ReferencesBody _) = Some (PageOf ''BoardReference'')"

definition operation_of :: "request \<Rightarrow> operation" where
  "operation_of rq = the (map_of openapi_operations (handler_name rq))"

lemmas doc_defs =
  doc_boards_create_def doc_boards_list_def doc_boards_get_def doc_boards_update_def
  doc_boards_delete_def doc_entries_create_def doc_entries_list_def doc_entries_get_def
  doc_entries_update_def doc_entries_delete_def doc_entries_history_def doc_versions_create_def
  doc_versions_list_def doc_versions_get_def doc_versions_latest_def doc_versions_diff_def
  doc_versions_since_def doc_scores_submit_def doc_scores_snapshot_def doc_references_create_def
  doc_references_list_def doc_references_delete_def doc_collections_create_def doc_collections_list_def
  doc_collections_get_def doc_collections_update_def doc_collections_delete_def doc_collections_add_board_def
  doc_collections_remove_board_def

lemma lookup_operation_1:
  "map_of openapi_operations ''boards::list'' = Some doc_boards_list"
  "map_of openapi_operations ''boards::create'' = Some doc_boards_create"
  "map_of openapi_operations ''boards::get'' = Some doc_boards_get"
  "map_of openapi_operations ''boards::update'' = Some doc_boards_update"
  "map_of openapi_operations ''boards::delete'' = Some doc_boards_delete"
  "map_of openapi_operations ''entries::list'' = Some doc_entries_list"
  by (simp_all add: openapi_operations_def)

lemma lookup_operation_2:
  "map_of openapi_operations ''entries::create'' = Some doc_entries_create"
  "map_of openapi_operations ''entries::get'' = Some doc_entries_get"
  "map_of openapi_operations ''entries::update'' = Some doc_entries_update"
  "map_of openapi_operations ''entries::delete'' = Some doc_entries_delete"
  "map_of openapi_operations ''entries::history'' = Some doc_entries_history"
  "map_of openapi_operations ''versions::list'' = Some doc_versions_list"
  by (simp_all add: openapi_operations_def)

lemma lookup_operation_3:
  "map_of openapi_operations ''versions::create'' = Some doc_versions_create"
  "map_of openapi_operations ''versions::get'' = Some doc_versions_get"
  "map_of openapi_operations ''versions::latest'' = Some doc_versions_latest"
  "map_of openapi_operations ''versions::diff'' = Some doc_versions_diff"
  "map_of openapi_operations ''versions::since'' = Some doc_versions_since"
  "map_of openapi_operations ''scores::submit'' = Some doc_scores_submit"
  by (simp_all add: openapi_operations_def)

lemma lookup_operation_4:
  "map_of openapi_operations ''scores::snapshot'' = Some doc_scores_snapshot"
  "map_of openapi_operations ''references::list'' = Some doc_references_list"
  "map_of openapi_operations ''references::create'' = Some doc_references_create"
  "map_of openapi_operations ''references::delete'' = Some doc_references_delete"
  "map_of openapi_operations ''collections::list'' = Some doc_collections_list"
  "map_of openapi_operations ''collections::create'' = Some doc_collections_create"
  by (simp_all add: openapi_operations_def)

lemma lookup_operation_5:
  "map_of openapi_operations ''collections::get'' = Some doc_collections_get"
  "map_of openapi_operations ''collections::update'' = Some doc_collections_update"
  "map_of openapi_operations ''collections::delete'' = Some doc_collections_delete"
  "map_of openapi_operations ''collections::add_board'' = Some doc_collections_add_board"
  "map_of openapi_operations ''collections::remove_board'' = Some doc_collections_remove_board"
  by (simp_all add: openapi_operations_def)

lemmas lookup_operation =
  lookup_operation_1 lookup_operation_2 lookup_operation_3 lookup_operation_4 lookup_operation_5

lemma documented: "map_of openapi_operations (handler_name rq) = Some (operation_of rq)"
  by (cases rq; simp only: operation_of_def handler_name.simps lookup_operation option.sel)

lemma operation_simps:
  "op_method (operation_of rq) = http_method_of rq"
  "op_request (operation_of rq) = request_schema rq"
  "op_anonymous (operation_of rq) \<longleftrightarrow> is_read_method (http_method_of rq)"
  unfolding operation_of_def
  by (cases rq; simp only: handler_name.simps lookup_operation option.sel; simp add: doc_defs is_read_method_def)+

section \<open>The answers\<close>

text \<open>A step that, when it succeeds, answers with this status and such a body.\<close>

definition answers_as :: "nat \<Rightarrow> (body \<Rightarrow> bool) \<Rightarrow> response result \<times> ('r, 'c) app \<Rightarrow> bool" where
  "answers_as st P m = (case fst m of Inr (s, b) \<Rightarrow> s = st \<and> P b | Inl _ \<Rightarrow> True)"

named_theorems answer_intros \<open>the answer of a handler, step by step\<close>

lemma answers_ret [answer_intros]: "P b \<Longrightarrow> answers_as st P (Inr (st, b), a)"
  by (simp add: answers_as_def)

lemma answers_err [answer_intros]: "answers_as st P (Inl e, a)"
  by (simp add: answers_as_def)

lemma answers_then [answer_intros]: "(\<And>x s. answers_as st P (f x s)) \<Longrightarrow> answers_as st P (and_then m f)"
  by (cases m; cases "fst m") (auto simp: answers_as_def)

lemma answers_if [answer_intros]:
  "(c \<Longrightarrow> answers_as st P m) \<Longrightarrow> (\<not> c \<Longrightarrow> answers_as st P m') \<Longrightarrow> answers_as st P (if c then m else m')"
  by simp

lemma answers_prod [answer_intros]: "(\<And>x y. answers_as st P (f x y)) \<Longrightarrow> answers_as st P (case p of (x, y) \<Rightarrow> f x y)"
  by (cases p) simp

lemma answers_option [answer_intros]:
  "answers_as st P m \<Longrightarrow> (\<And>x. answers_as st P (f x)) \<Longrightarrow> answers_as st P (case o' of None \<Rightarrow> m | Some x \<Rightarrow> f x)"
  by (cases o') simp_all

text \<open>The body is of the type the document gives, and there is none where it gives none.\<close>

definition body_documented :: "operation \<Rightarrow> body \<Rightarrow> bool" where
  "body_documented d b \<longleftrightarrow> (case op_body d of Some s \<Rightarrow> body_schema b = Some s | None \<Rightarrow> b = NoBody)"

text \<open>
  What a submitted score is answered with, which the document leaves out: \<open>ok\<close> for a realtime
  board and the stored score for another one.
\<close>

definition score_answer :: "string \<Rightarrow> db \<Rightarrow> body \<Rightarrow> bool" where
  "score_answer slug d b \<longleftrightarrow>
     (\<exists>board. boards_get_by_slug slug d = Inr board \<and>
        (if b_realtime board then b = OkBody else \<exists>score. b = ScoreBody score \<and> a_board_id score = b_id board))"

lemma handle_answers:
  assumes "\<And>slug inp. rq \<noteq> ScoresSubmit slug inp"
  shows "answers_as (op_status (operation_of rq)) (body_documented (operation_of rq)) (handle X rq a)"
  unfolding operation_of_def
  by (cases rq; (simp add: assms; fail)?; simp only: handler_name.simps lookup_operation option.sel handle.simps
      route_defs doc_defs operation.simps; (intro answer_intros; simp add: body_documented_def)?)

lemma upsert_score_board:
  assumes "upsert_score S t bid eid sc db = Inr (x, db')"
  shows "a_board_id x = bid"
proof (cases "find (\<lambda>a. a_board_id a = bid \<and> a_entry_id a = eid) (accumulated_scores db)")
  case (Some y)
  then have "a_board_id y = bid" by (auto dest: find_Some_in)
  with Some assms show ?thesis by (auto simp: upsert_score_def)
qed (use assms in \<open>auto simp: upsert_score_def Let_def split: if_splits\<close>)

lemma submit_answers:
  assumes "fst (handle X (ScoresSubmit slug inp) a) = Inr (st, b)"
  shows "st = 200 \<and> score_answer slug (ap_db a) b"
proof -
  from assms obtain board where g: "boards_get_by_slug slug (ap_db a) = Inr board"
    by (cases "boards_get_by_slug slug (ap_db a)") (simp_all add: route_scores_submit_def)
  show ?thesis
  proof (cases "b_realtime board")
    case True
    with assms g show ?thesis
      by (auto simp: route_scores_submit_def score_answer_def and_then_def split: sum.splits prod.splits)
  next
    case False
    with assms g obtain score where b: "st = 200" "b = ScoreBody score" and
        sub: "\<exists>d. scores_submit (cx_svc X) board inp (ap_db a) = Inr (score, d)"
      by (auto simp: route_scores_submit_def and_then_def write_db_def split: sum.splits)
    from sub have "a_board_id score = b_id board"
      by (auto simp: scores_submit_Inr dest: upsert_score_board)
    with b g False show ?thesis by (simp add: score_answer_def)
  qed
qed

text \<open>The types an operation names are all among the schemas of the document.\<close>

fun schema_name :: "schema \<Rightarrow> string" where
  "schema_name (Model n) = n"
| "schema_name (ArrayOf n) = n"
| "schema_name (PageOf n) = n"

definition names_of :: "operation \<Rightarrow> string list" where
  "names_of d =
     (case op_request d of None \<Rightarrow> [] | Some n \<Rightarrow> [n]) @ (case op_body d of None \<Rightarrow> [] | Some s \<Rightarrow> [schema_name s])"

lemma names_declared: "list_all (\<lambda>(h, d). list_all (\<lambda>n. n \<in> set openapi_schemas) (names_of d)) openapi_operations"
  by code_simp

text \<open>
  C39: a successful answer is the documented one. Every request belongs to an operation of the
  OpenAPI document with its method and the type of its body; when the handler succeeds, the status
  is the one the document gives, the body has exactly the documented type, with no body at all
  where none is documented, and all types named are among the schemas. There is one exception: for
  a submitted score the document gives no body, and the handler answers one, \<open>ok\<close> for a
  realtime board and the stored score of the board otherwise.
\<close>

theorem answers_documented:
  assumes "fst (handle X rq a) = Inr (st, b)"
  shows "\<exists>d. map_of openapi_operations (handler_name rq) = Some d \<and> op_method d = http_method_of rq \<and>
    op_request d = request_schema rq \<and> st = op_status d \<and> set (names_of d) \<subseteq> set openapi_schemas \<and>
    (case rq of ScoresSubmit slug inp \<Rightarrow> op_body d = None \<and> score_answer slug (ap_db a) b
     | _ \<Rightarrow> body_documented d b)"
proof -
  note d = documented [of rq]
  from map_of_SomeD [OF d] names_declared have n: "set (names_of (operation_of rq)) \<subseteq> set openapi_schemas"
    by (fastforce simp: list_all_iff)
  show ?thesis
  proof (cases "\<exists>slug inp. rq = ScoresSubmit slug inp")
    case True
    then obtain slug inp where rq: "rq = ScoresSubmit slug inp" by blast
    have "op_status (operation_of rq) = 200" "op_body (operation_of rq) = None"
      by (simp_all only: rq operation_of_def handler_name.simps lookup_operation option.sel doc_defs operation.simps)
    with d n submit_answers [OF assms [unfolded rq]] operation_simps(1,2) [of rq] show ?thesis by (simp add: rq)
  next
    case False
    then have "st = op_status (operation_of rq)" "body_documented (operation_of rq) b"
      using handle_answers [of rq X a] assms by (auto simp: answers_as_def)
    with d n operation_simps(1,2) [of rq] False show ?thesis
      by (intro exI [of _ "operation_of rq"] conjI) (auto split: request.split)
  qed
qed

theorem answers_documented_witness:
  "\<exists>d b. map_of openapi_operations ''boards::get'' = Some d \<and>
     fst (handle sample_ctx (BoardsGet ''speed'') sample_app) = Inr (op_status d, b) \<and> body_documented d b"
proof -
  have "case fst (handle sample_ctx (BoardsGet ''speed'') sample_app) of Inr _ \<Rightarrow> True | Inl _ \<Rightarrow> False"
    by code_simp
  then obtain st b where h: "fst (handle sample_ctx (BoardsGet ''speed'') sample_app) = Inr (st, b)"
    by (auto split: sum.splits)
  from answers_documented [OF h] h show ?thesis by auto
qed

section \<open>Who may ask\<close>

definition reads_restricted :: "'k auth_mode \<Rightarrow> bool" where
  "reads_restricted mode = (case mode of NoAuth \<Rightarrow> False | Jwt _ _ _ _ _ r \<Rightarrow> r | ApiToken _ _ r \<Rightarrow> r)"

text \<open>
  Who may ask without credentials. A request without an Authorization header reaches its
  handler when auth is off, or when the document declares the operation usable without a token
  and the configuration does not restrict reads; otherwise it is answered 401 and changes nothing.
\<close>

theorem anonymous_requests:
  assumes "map_of hs ''authorization'' = None"
  shows "serve J mode X hs rq a =
    (if mode = NoAuth \<or> op_anonymous (operation_of rq) \<and> \<not> reads_restricted mode
     then (map_err into_response (fst (handle X rq a)), snd (handle X rq a))
     else (Inl (401, [Lit ''missing or invalid Authorization header'']), a))"
proof -
  have "extract_bearer_from_headers hs = None" using assms by (simp add: extract_bearer_from_headers_def)
  then show ?thesis
    by (cases mode)
      (simp_all add: serve_def require_auth_def operation_simps reads_restricted_def auth_error_def Let_def split: prod.split)
qed

theorem anonymous_requests_witness:
  "serve sample_jwt_lib (ApiToken ''h'' [] False) sample_ctx [] (BoardsDelete ''speed'') sample_app =
     (Inl (401, [Lit ''missing or invalid Authorization header'']), sample_app)"
proof -
  have "\<not> op_anonymous (operation_of (BoardsDelete ''speed''))" by (simp add: operation_simps is_read_method_def)
  with anonymous_requests [of "[]" sample_jwt_lib "ApiToken ''h'' [] False" sample_ctx "BoardsDelete ''speed''" sample_app]
  show ?thesis by simp
qed

section \<open>Paths\<close>

text \<open>A path that fits a pattern, made from the values of its parameters.\<close>

fun fill :: "pattern \<Rightarrow> string list \<Rightarrow> string list" where
  "fill (Fix f # p) args = f # fill p args"
| "fill (Par _ # p) (x # args) = x # fill p args"
| "fill _ _ = []"

fun arity :: "pattern \<Rightarrow> nat" where
  "arity [] = 0"
| "arity (Fix _ # p) = arity p"
| "arity (Par _ # p) = Suc (arity p)"

lemma match_path_fill: "match_path p path = Some args \<longleftrightarrow> length args = arity p \<and> [] \<notin> set args \<and> path = fill p args"
proof (induction p arbitrary: path args)
  case Nil
  then show ?case by (cases path) auto
next
  case (Cons t p)
  then show ?case by (cases path; cases t; cases args) auto
qed

text \<open>Two patterns that no path fits both.\<close>

fun apart :: "pattern \<Rightarrow> pattern \<Rightarrow> bool" where
  "apart [] [] = False"
| "apart (Fix f # p) (Fix g # q) = (f \<noteq> g \<or> apart p q)"
| "apart (s # p) (t # q) = apart p q"
| "apart _ _ = True"

lemma apart_match: "apart p q \<Longrightarrow> match_path p path = Some args \<Longrightarrow> match_path q path = None"
proof (induction p arbitrary: q path args)
  case Nil
  then show ?case by (cases path; cases q) auto
next
  case (Cons t p)
  then show ?case by (cases path; cases t; cases q; cases "hd q") (auto split: if_splits)
qed

section \<open>The routes are the documented ones\<close>

lemma route_to_append:
  "route_to (rs @ rs') m path = (case route_to rs m path of NoRoute \<Rightarrow> route_to rs' m path | x \<Rightarrow> x)"
  by (induction rs) (simp_all split: option.split)

text \<open>Where a request goes, whatever layers it passes.\<close>

fun target :: "routed \<Rightarrow> (string \<times> string list) option" where
  "target (Handled h args _) = Some (h, args)"
| "target _ = None"

definition skeleton :: "route list \<Rightarrow> (pattern \<times> (http_method \<times> string) list) list" where
  "skeleton rs = map (\<lambda>r. (rt_pattern r, rt_methods r)) rs"

lemma skeleton_simps [simp]:
  "skeleton [] = []"
  "skeleton (add_layer l rs) = skeleton rs" "skeleton (rs @ rs') = skeleton rs @ skeleton rs'"
  by (simp_all add: skeleton_def add_layer_def)

text \<open>The routes after the first ones are elsewhere than boards and collections.\<close>

definition elsewhere :: "pattern \<Rightarrow> bool" where
  "elsewhere p = (case p of Fix f # _ \<Rightarrow> f \<notin> {''boards'', ''collections''} | _ \<Rightarrow> False)"

lemma built_skeleton:
  assumes "build_router header_value swagger c = Some rs" "swagger_ok swagger"
  shows "\<exists>rest. skeleton rs = skeleton (base_routes c) @ rest \<and> (\<forall>x \<in> set rest. elsewhere (fst x))"
proof -
  define extra where "extra = sync_routes c @
    (if sv_metrics_enabled (server_of c) then [new_route [Fix ''metrics''] [(GET, ''metrics::handler'')]] else []) @
    (if sv_docs_enabled (server_of c) then swagger ''/docs'' ''/api-doc/openapi.json'' else [])"
  have eq: "skeleton rs = skeleton (base_routes c) @ skeleton extra"
    using assms(1) by (auto simp: build_router_eq tracked_routes_def extra_def Let_def split: if_splits)
  have "elsewhere (rt_pattern r)" if "r \<in> set extra" for r
  proof -
    have "first_segment r \<in> {''webhooks'', ''metrics'', ''docs'', ''api-doc''}"
      using that assms(2) by (auto simp: extra_def sync_routes_def set_add_layer swagger_ok_def split: if_splits)
    then show ?thesis by (auto simp: elsewhere_def first_segment_def split: list.splits segment.splits)
  qed
  with eq show ?thesis by (intro exI [of _ "skeleton extra"]) (auto simp: skeleton_def)
qed

definition no_config :: config where
  "no_config =
     \<lparr>cfg_server = None, cfg_database = \<lparr>dc_url = ConfigValue [], dc_max_connections = 0, dc_schema = None\<rparr>,
      cfg_redis = None, cfg_auth = None, cfg_sync = None, cfg_limits = None, cfg_webhooks = []\<rparr>"

lemma base_skeleton: "skeleton (base_routes c) = skeleton (base_routes no_config)"
  by (simp add: base_routes_def)

text \<open>Facts of the two tables, by evaluation.\<close>

lemma patterns_apart: "sorted_wrt apart (map fst (skeleton (base_routes no_config)))"
  by code_simp

lemma operations_routed:
  "list_all (\<lambda>(h, d). list_ex (\<lambda>(p, ms). if p = op_path d then map_of ms (op_method d) = Some h else False)
     (skeleton (base_routes no_config))) openapi_operations"
  by code_simp

lemma routes_documented:
  "list_all (\<lambda>(p, ms). list_all (\<lambda>(m, h). case map_of openapi_operations h of
       None \<Rightarrow> h \<in> {''health'', ''sse::stream'', ''ws::stream''}
     | Some d \<Rightarrow> op_path d = p \<and> op_method d = m) ms) (skeleton (base_routes no_config))"
  by code_simp

lemma apart_sym: "apart p q \<Longrightarrow> apart q p"
proof (induction p arbitrary: q)
  case Nil
  then show ?case by (cases q) auto
next
  case (Cons t p)
  then show ?case by (cases t; cases q; cases "hd q") auto
qed

lemma target_found:
  assumes "skeleton rs = pre @ rest" "(p, ms) \<in> set pre" "sorted_wrt apart (map fst pre)"
    "match_path p path = Some args" "handler_for m ms = Some h"
  shows "target (route_to rs m path) = Some (h, args)"
  using assms(1-3)
proof (induction pre arbitrary: rs)
  case (Cons x pre)
  then obtain r rs' where rs: "rs = r # rs'" "x = (rt_pattern r, rt_methods r)" "skeleton rs' = pre @ rest"
    by (cases rs) (auto simp: skeleton_def)
  show ?case
  proof (cases "(p, ms) = x")
    case True
    with rs assms(4,5) show ?thesis by auto
  next
    case False
    with Cons.prems have "(p, ms) \<in> set pre" "apart (fst x) p" by auto
    with apart_match [OF apart_sym assms(4)] Cons rs show ?thesis by auto
  qed
qed simp

lemma target_Some:
  "target (route_to rs m path) = Some (h, args) \<Longrightarrow>
     \<exists>(p, ms) \<in> set (skeleton rs). match_path p path = Some args \<and> handler_for m ms = Some h"
  by (induction rs) (auto simp: skeleton_def split: option.splits)

lemma handler_for_method:
  "handler_for m ms = Some h \<Longrightarrow> \<exists>m'. (m', h) \<in> set ms \<and> (m = m' \<or> m = HEAD \<and> m' = GET)"
  by (auto simp: handler_for_def dest: map_of_SomeD split: option.splits if_splits)

text \<open>
  C40: the server routes the documented paths, and no others. Whatever else is configured, the
  method and path of a documented operation, with any non-empty values for its parameters, lead to
  its handler with these values; and a request under \<open>/boards\<close> or \<open>/collections\<close> that is led to a
  handler is at the path of a documented operation, with its method or HEAD for GET, unless
  it opens a stream.
\<close>

theorem routes_as_documented:
  assumes "build_router header_value swagger c = Some rs" "swagger_ok swagger"
  shows "((h, d) \<in> set openapi_operations \<and> length args = arity (op_path d) \<and> [] \<notin> set args \<longrightarrow>
      target (route_to rs (op_method d) (fill (op_path d) args)) = Some (h, args)) \<and>
    (target (route_to rs m path) = Some (h', args') \<and> hd path \<in> {''boards'', ''collections''} \<and>
        h' \<notin> {''sse::stream'', ''ws::stream''} \<longrightarrow>
      (\<exists>d. (h', d) \<in> set openapi_operations \<and> path = fill (op_path d) args' \<and> length args' = arity (op_path d) \<and>
         (m = op_method d \<or> m = HEAD \<and> op_method d = GET)))"
proof -
  from built_skeleton [OF assms] base_skeleton [of c] obtain rest where
    rest: "skeleton rs = skeleton (base_routes no_config) @ rest" "\<forall>x \<in> set rest. elsewhere (fst x)" by auto
  have forward: "target (route_to rs (op_method d) (fill (op_path d) args)) = Some (h, args)"
    if d: "(h, d) \<in> set openapi_operations" "length args = arity (op_path d)" "[] \<notin> set args"
  proof -
    from d(1) operations_routed obtain ms where
      ms: "(op_path d, ms) \<in> set (skeleton (base_routes no_config))" "map_of ms (op_method d) = Some h"
      by (fastforce simp: list_all_iff list_ex_iff split: if_splits)
    from d(2,3) have "match_path (op_path d) (fill (op_path d) args) = Some args" by (simp add: match_path_fill)
    from target_found [OF rest(1) ms(1) patterns_apart this] ms(2) show ?thesis by (simp add: handler_for_def)
  qed
  have backward: "\<exists>d. (h', d) \<in> set openapi_operations \<and> path = fill (op_path d) args' \<and> length args' = arity (op_path d) \<and>
      (m = op_method d \<or> m = HEAD \<and> op_method d = GET)"
    if t: "target (route_to rs m path) = Some (h', args')" "hd path \<in> {''boards'', ''collections''}"
      "h' \<notin> {''sse::stream'', ''ws::stream''}"
  proof -
    from target_Some [OF t(1)] obtain p ms where
      p: "(p, ms) \<in> set (skeleton rs)" "match_path p path = Some args'" "handler_for m ms = Some h'" by blast
    have "\<not> elsewhere p"
      using p(2) t(2) by (cases path) (auto simp: elsewhere_def split: list.splits segment.splits if_splits)
    with rest p(1) have base: "(p, ms) \<in> set (skeleton (base_routes no_config))" by auto
    from handler_for_method [OF p(3)] obtain m' where m': "(m', h') \<in> set ms" "m = m' \<or> m = HEAD \<and> m' = GET" by blast
    have "h' \<noteq> ''health''"
      using base m'(1) p(2) t(2) by (cases path)
        (auto simp: skeleton_def base_routes_def add_layer_def nest_routes_def new_route_def board_routes_def
          collection_routes_def)
    moreover have "case map_of openapi_operations h' of
        None \<Rightarrow> h' \<in> {''health'', ''sse::stream'', ''ws::stream''}
      | Some d \<Rightarrow> op_path d = p \<and> op_method d = m'"
      using base m'(1) routes_documented by (fastforce simp: list_all_iff)
    ultimately obtain d where "(h', d) \<in> set openapi_operations" "op_path d = p" "op_method d = m'"
      using t(3) by (auto dest: map_of_SomeD split: option.splits)
    with p(2) m'(2) show ?thesis by (auto simp: match_path_fill)
  qed
  from forward backward show ?thesis by blast
qed

theorem routes_as_documented_witness:
  "\<exists>rs. build_router Some (\<lambda>_ _. []) metered_config = Some rs \<and>
     target (route_to rs DELETE [''boards'', ''nfl'', ''entries'', ''jets'']) = Some (''entries::delete'', [''nfl'', ''jets''])"
proof -
  obtain rs where rs: "build_router Some (\<lambda>_ _. []) metered_config = Some rs"
    by (cases "build_router Some (\<lambda>_ _. []) metered_config")
      (simp_all add: build_router_eq Let_def metered_config_def server_of_def default_server_def)
  have "(''entries::delete'', doc_entries_delete) \<in> set openapi_operations"
    by (rule map_of_SomeD [OF lookup_operation(10)])
  with routes_as_documented [OF rs, of "''entries::delete''" doc_entries_delete "[''nfl'', ''jets'']"]
  have "target (route_to rs DELETE [''boards'', ''nfl'', ''entries'', ''jets'']) = Some (''entries::delete'', [''nfl'', ''jets''])"
    by (simp add: swagger_ok_def doc_entries_delete_def)
  with rs show ?thesis by blast
qed

end
