(* ===== verification/Connect.thy ===== *)
theory Connect
  imports Config
begin

text \<open>
  \<open>db.rs\<close>: connecting to Postgres with a schema of its own. The server and its client are a
  record of the calls the code makes, over an unknown state; what the code relies on is in
  \<open>pg_ok\<close>. The migrations are the files of \<open>migrations/\<close>, run by a library.
\<close>

section \<open>The database server\<close>

text \<open>
  \<open>pg_open\<close> makes one connection; \<open>pg_execute\<close> runs a statement on a connection to a URL;
  \<open>pg_schema_exists\<close> answers the query on \<open>information_schema.schemata\<close> for a bound name.
\<close>

record 'p pg_lib =
  pg_open :: "string \<Rightarrow> 'p \<Rightarrow> (db_error + unit) \<times> 'p"
  pg_execute :: "string \<Rightarrow> string \<Rightarrow> 'p \<Rightarrow> (db_error + unit) \<times> 'p"
  pg_schema_exists :: "string \<Rightarrow> string \<Rightarrow> 'p \<Rightarrow> (db_error + bool) \<times> 'p"
  pg_migrate :: "string \<Rightarrow> string option \<Rightarrow> 'p \<Rightarrow> (string + unit) \<times> 'p"

text \<open>A pool: where it connects to, how often, and what each new connection runs first.\<close>

record pool =
  po_url :: string
  po_max_connections :: int
  po_after_connect :: "string option"

definition on_pg :: "(db_error + 'a) \<times> 'p \<Rightarrow> 'a result \<times> 'p" where
  "on_pg m = (map_err Database (fst m), snd m)"

section \<open>Quoting\<close>

definition double_quote :: char where "double_quote = CHR 0x22"

text \<open>\<open>name.replace('"', "\"\"")\<close>, between quotes.\<close>

definition quote_identifier :: "string \<Rightarrow> string" where
  "quote_identifier name =
     double_quote # concat (map (\<lambda>c. if c = double_quote then [double_quote, double_quote] else [c]) name) @ [double_quote]"

section \<open>Connecting\<close>

definition create_schema_sql :: "string \<Rightarrow> string" where
  "create_schema_sql schema = ''CREATE SCHEMA IF NOT EXISTS '' @ quote_identifier schema"

definition search_path_sql :: "string \<Rightarrow> string" where
  "search_path_sql schema = ''SET search_path TO '' @ quote_identifier schema @ '', public''"

definition build_pool :: "'p pg_lib \<Rightarrow> string \<Rightarrow> string \<Rightarrow> int \<Rightarrow> 'p \<Rightarrow> pool result \<times> 'p" where
  "build_pool P url schema max_connections p =
     (let after = (if schema \<noteq> ''public'' then Some (search_path_sql schema) else None);
          the_pool = \<lparr>po_url = url, po_max_connections = max_connections, po_after_connect = after\<rparr>
      in and_then (on_pg (pg_open P url p)) (\<lambda>_ p.
         case after of
           None \<Rightarrow> (Inr the_pool, p)
         | Some sql \<Rightarrow> and_then (on_pg (pg_execute P url sql p)) (\<lambda>_ p. (Inr the_pool, p))))"

definition connect :: "'p pg_lib \<Rightarrow> environment \<Rightarrow> database_config \<Rightarrow> 'p \<Rightarrow> pool result \<times> 'p" where
  "connect P env c p =
     and_then (resolve env (dc_url c), p) (\<lambda>url p.
     let schema = unwrap_or (dc_schema c) ''public'' in
     and_then
       (if schema \<noteq> ''public''
        then and_then (on_pg (pg_open P url p)) (\<lambda>_ p. on_pg (pg_execute P url (create_schema_sql schema) p))
        else (Inr (), p))
       (\<lambda>_ p. build_pool P url schema (dc_max_connections c) p))"

definition schema_missing :: "string \<Rightarrow> error" where
  "schema_missing schema = Config [Lit ''configured schema '', Quo schema, Lit '' does not exist'']"

definition connect_readonly :: "'p pg_lib \<Rightarrow> environment \<Rightarrow> database_config \<Rightarrow> 'p \<Rightarrow> pool result \<times> 'p" where
  "connect_readonly P env c p =
     and_then (resolve env (dc_url c), p) (\<lambda>url p.
     let schema = unwrap_or (dc_schema c) ''public'' in
     and_then (build_pool P url schema (dc_max_connections c) p) (\<lambda>pl p.
     if schema \<noteq> ''public''
     then and_then (on_pg (pg_schema_exists P url schema p)) (\<lambda>found p.
          if \<not> found then (Inl (schema_missing schema), p) else (Inr pl, p))
     else (Inr pl, p)))"

definition migrate :: "'p pg_lib \<Rightarrow> pool \<Rightarrow> 'p \<Rightarrow> unit result \<times> 'p" where
  "migrate P pl p =
     (case pg_migrate P (po_url pl) (po_after_connect pl) p of (r, p) \<Rightarrow> (map_err (\<lambda>_. Migration) r, p))"

section \<open>A quoted name is read back\<close>

text \<open>
  How SQL reads a quoted identifier: after the opening quote, up to a quote that is not doubled.
\<close>

fun read_quoted :: "string \<Rightarrow> (string \<times> string) option" where
  "read_quoted [] = None"
| "read_quoted (c # cs) =
     (if c \<noteq> double_quote then map_option (\<lambda>(n, rest). (c # n, rest)) (read_quoted cs)
      else case cs of
        [] \<Rightarrow> Some ([], [])
      | d # ds \<Rightarrow>
          if d = double_quote then map_option (\<lambda>(n, rest). (double_quote # n, rest)) (read_quoted ds)
          else Some ([], d # ds))"

fun read_identifier :: "string \<Rightarrow> (string \<times> string) option" where
  "read_identifier (c # cs) = (if c = double_quote then read_quoted cs else None)"
| "read_identifier [] = None"

lemma read_quoted_end: "rest = [] \<or> hd rest \<noteq> double_quote \<Longrightarrow> read_quoted (double_quote # rest) = Some ([], rest)"
  by (cases rest) simp_all

lemma quote_identifier_read:
  assumes "rest = [] \<or> hd rest \<noteq> double_quote"
  shows "read_identifier (quote_identifier name @ rest) = Some (name, rest)"
proof -
  have "read_quoted (concat (map (\<lambda>c. if c = double_quote then [double_quote, double_quote] else [c]) name) @
      double_quote # rest) = Some (name, rest)"
  proof (induction name)
    case Nil
    then show ?case using read_quoted_end [OF assms] by (simp del: read_quoted.simps)
  qed auto
  then show ?thesis by (simp add: quote_identifier_def)
qed

section \<open>What the two ways to connect do to the schemas\<close>

text \<open>
  Postgres keeps at most 63 bytes of an identifier, and keeps a shorter one as it is. Which bytes
  of a longer one stay depends on its encoding.
\<close>

definition clips_names :: "(string \<Rightarrow> string) \<Rightarrow> bool" where
  "clips_names clip \<longleftrightarrow> (\<forall>n. (\<exists>k \<le> 63. clip n = take k n) \<and> (length n \<le> 63 \<longrightarrow> clip n = n))"

text \<open>
  The laws. A URL leads to a database, and several may lead to the same one. The names of its
  schemas have at most 63 bytes. Opening a connection, setting a search path, for a list that
  begins with a quoted name, and asking for a schema leave the schemas as they are; a schema
  that is found is there. A \<open>CREATE SCHEMA IF NOT EXISTS\<close> of a quoted name that succeeds adds the
  schema it names, clipped, to that database, and no other.
\<close>

definition pg_ok ::
  "'p pg_lib \<Rightarrow> (string \<Rightarrow> string) \<Rightarrow> (string \<Rightarrow> 'd) \<Rightarrow> ('d \<Rightarrow> 'p \<Rightarrow> string set) \<Rightarrow> bool" where
  "pg_ok P clip target schemas \<longleftrightarrow>
     clips_names clip \<and>
     (\<forall>d p. \<forall>s \<in> schemas d p. length s \<le> 63) \<and>
     (\<forall>url p d. schemas d (snd (pg_open P url p)) = schemas d p) \<and>
     (\<forall>url s n p d. read_identifier s = Some (n, '', public'') \<longrightarrow>
        schemas d (snd (pg_execute P url (''SET search_path TO '' @ s) p)) = schemas d p) \<and>
     (\<forall>url s p d. schemas d (snd (pg_schema_exists P url s p)) = schemas d p) \<and>
     (\<forall>url s p. fst (pg_schema_exists P url s p) = Inr True \<longrightarrow> s \<in> schemas (target url) p) \<and>
     (\<forall>url s n p d. read_identifier s = Some (n, []) \<longrightarrow>
        (case pg_execute P url (''CREATE SCHEMA IF NOT EXISTS '' @ s) p of
           (Inr _, p') \<Rightarrow> schemas d p' = (if d = target url then insert (clip n) (schemas d p) else schemas d p)
         | (Inl _, _) \<Rightarrow> True))"

definition named_schema :: "database_config \<Rightarrow> string option" where
  "named_schema c = (if unwrap_or (dc_schema c) ''public'' = ''public'' then None else dc_schema c)"

lemma quoted_list_read: "read_identifier (quote_identifier n @ '', public'') = Some (n, '', public'')"
  using quote_identifier_read [of "'', public''" n] by (simp add: double_quote_def)

lemma pg_laws:
  assumes "pg_ok P clip target schemas"
  shows "schemas d (snd (pg_open P url p)) = schemas d p"
    "schemas d (snd (pg_execute P url (search_path_sql n) p)) = schemas d p"
    "schemas d (snd (pg_schema_exists P url n p)) = schemas d p"
    "fst (pg_schema_exists P url n p) = Inr True \<Longrightarrow> n \<in> schemas (target url) p"
    "n \<in> schemas d p \<Longrightarrow> length n \<le> 63" "length n \<le> 63 \<Longrightarrow> clip n = n"
proof -
  note ok = assms [unfolded pg_ok_def]
  note more = ok [THEN conjunct2, THEN conjunct2]
  note last = more [THEN conjunct2, THEN conjunct2]
  note l = ok [THEN conjunct1] ok [THEN conjunct2, THEN conjunct1] more [THEN conjunct1]
    more [THEN conjunct2, THEN conjunct1] last [THEN conjunct1] last [THEN conjunct2, THEN conjunct1]
  show "schemas d (snd (pg_open P url p)) = schemas d p" by (rule l(3) [rule_format])
  show "schemas d (snd (pg_execute P url (search_path_sql n) p)) = schemas d p"
    unfolding search_path_sql_def by (rule l(4) [rule_format, OF quoted_list_read])
  show "schemas d (snd (pg_schema_exists P url n p)) = schemas d p" by (rule l(5) [rule_format])
  show "fst (pg_schema_exists P url n p) = Inr True \<Longrightarrow> n \<in> schemas (target url) p" by (rule l(6) [rule_format])
  show "n \<in> schemas d p \<Longrightarrow> length n \<le> 63" by (rule l(2) [rule_format])
  show "length n \<le> 63 \<Longrightarrow> clip n = n" using l(1) by (simp add: clips_names_def)
qed

lemma create_schema_law:
  assumes "pg_ok P clip target schemas" "pg_execute P url (create_schema_sql n) p = (Inr (), p')"
  shows "schemas d p' = (if d = target url then insert (clip n) (schemas d p) else schemas d p)"
proof -
  have read: "read_identifier (quote_identifier n) = Some (n, [])" using quote_identifier_read [of "[]" n] by simp
  have law: "\<forall>url s n p d. read_identifier s = Some (n, []) \<longrightarrow>
        (case pg_execute P url (''CREATE SCHEMA IF NOT EXISTS '' @ s) p of
           (Inr _, p') \<Rightarrow> schemas d p' = (if d = target url then insert (clip n) (schemas d p) else schemas d p)
         | (Inl _, _) \<Rightarrow> True)"
    using assms(1) unfolding pg_ok_def by (elim conjE)
  note law [THEN spec [of _ url], THEN spec [of _ "quote_identifier n"], THEN spec [of _ n], THEN spec [of _ p],
      THEN spec [of _ d], THEN mp, OF read]
  with assms(2) [unfolded create_schema_sql_def] show ?thesis by simp
qed

lemma build_pool_keeps:
  assumes "pg_ok P clip target schemas" "build_pool P url schema m p = (r, p')"
  shows "schemas d p' = schemas d p"
proof -
  obtain r1 p1 where 1: "pg_open P url p = (r1, p1)" by (meson surj_pair)
  obtain r2 p2 where 2: "pg_execute P url (search_path_sql schema) p1 = (r2, p2)" by (meson surj_pair)
  have k: "schemas d p1 = schemas d p" "schemas d p2 = schemas d p1"
    using pg_laws(1) [OF assms(1), of d url p] pg_laws(2) [OF assms(1), of d url schema p1] 1 2 by simp_all
  show ?thesis
    using assms(2) 1 2 k by (cases r1; cases r2) (auto simp: build_pool_def on_pg_def map_err_def Let_def split: if_splits)
qed

lemma build_pool_Inr:
  "build_pool P url schema m p = (Inr pl, p') \<Longrightarrow>
     pl = \<lparr>po_url = url, po_max_connections = m,
           po_after_connect = (if schema \<noteq> ''public'' then Some (search_path_sql schema) else None)\<rparr>"
  by (auto simp: build_pool_def Let_def and_then_Inr split: if_splits)

lemma connect_schemas:
  assumes ok: "pg_ok P clip target schemas" and c: "connect P env c p = (Inr pl, p')"
  shows "resolve env (dc_url c) = Inr (po_url pl) \<and> po_max_connections pl = dc_max_connections c \<and>
    po_after_connect pl = map_option search_path_sql (named_schema c) \<and>
    schemas d p' = (if d = target (po_url pl) then clip ` set_option (named_schema c) else {}) \<union> schemas d p"
proof -
  define schema where "schema = unwrap_or (dc_schema c) ''public''"
  have named: "named_schema c = (if schema = ''public'' then None else Some schema)"
    by (cases "dc_schema c") (auto simp: named_schema_def schema_def)
  from c obtain url p1 where
    1: "resolve env (dc_url c) = Inr url"
      "(if schema \<noteq> ''public''
        then and_then (on_pg (pg_open P url p)) (\<lambda>_ p. on_pg (pg_execute P url (create_schema_sql schema) p))
        else (Inr (), p)) = (Inr (), p1)"
      "build_pool P url schema (dc_max_connections c) p1 = (Inr pl, p')"
    by (auto simp: connect_def Let_def and_then_Inr schema_def [symmetric])
  have s1: "schemas d p1 = (if d = target url then clip ` set_option (named_schema c) else {}) \<union> schemas d p"
  proof (cases "schema = ''public''")
    case True
    with 1(2) named show ?thesis by simp
  next
    case False
    obtain r0 p0 where 0: "pg_open P url p = (r0, p0)" by (meson surj_pair)
    obtain r2 p2 where 2: "pg_execute P url (create_schema_sql schema) p0 = (r2, p2)" by (meson surj_pair)
    have "schemas d p0 = schemas d p" using pg_laws(1) [OF ok, of d url p] 0 by simp
    moreover from 1(2) False 0 2 have "r2 = Inr ()" "p1 = p2"
      by (cases r0; cases r2; auto simp: on_pg_def map_err_def)+
    ultimately show ?thesis using create_schema_law [OF ok, of url schema p0 p2 d] 2 named False by auto
  qed
  from build_pool_Inr [OF 1(3)] build_pool_keeps [OF ok 1(3), of d] 1(1) s1 named show ?thesis by auto
qed

lemma readonly_schemas:
  assumes ok: "pg_ok P clip target schemas" and c: "connect_readonly P env c p = (r, p')"
  shows "schemas d p' = schemas d p \<and>
    (\<forall>pl. r = Inr pl \<longrightarrow> resolve env (dc_url c) = Inr (po_url pl) \<and>
       po_after_connect pl = map_option search_path_sql (named_schema c) \<and>
       set_option (named_schema c) \<subseteq> schemas (target (po_url pl)) p')"
proof (cases "resolve env (dc_url c)")
  case (Inl e)
  with c show ?thesis by (auto simp: connect_readonly_def)
next
  case (Inr url)
  define schema where "schema = unwrap_or (dc_schema c) ''public''"
  have named: "named_schema c = (if schema = ''public'' then None else Some schema)"
    by (cases "dc_schema c") (auto simp: named_schema_def schema_def)
  obtain r1 p1 where 1: "build_pool P url schema (dc_max_connections c) p = (r1, p1)" by (meson surj_pair)
  obtain r2 p2 where 2: "pg_schema_exists P url schema p1 = (r2, p2)" by (meson surj_pair)
  note k1 = build_pool_keeps [OF ok 1]
  have k2: "schemas v p2 = schemas v p1" for v using pg_laws(3) [OF ok, of v url schema p1] 2 by simp
  have found: "schema \<in> schemas (target url) p1" if "r2 = Inr True"
    using pg_laws(4) [OF ok, of url schema p1] 2 that by simp
  show ?thesis
  proof (cases r1)
    case (Inl e)
    with c Inr 1 k1 [of d] show ?thesis by (auto simp: connect_readonly_def Let_def schema_def)
  next
    case r1: (Inr pl)
    note pl = build_pool_Inr [OF 1 [unfolded r1]]
    show ?thesis
    proof (cases "schema = ''public''")
      case True
      with c Inr 1 r1 k1 [of d] pl named show ?thesis by (auto simp: connect_readonly_def Let_def schema_def)
    next
      case False
      with c Inr 1 r1 2 k1 [of d] k2 [of d] k2 [of "target url"] found pl named show ?thesis
        by (cases r2) (auto simp: connect_readonly_def Let_def schema_def [symmetric] on_pg_def map_err_def split: if_splits)
    qed
  qed
qed

text \<open>
  C37: a service keeps to its schema. The name of the configured schema survives quoting, whatever
  characters it has. A successful \<open>connect\<close> has created exactly that schema (none for \<open>public\<close>) in
  the database of its URL, under its own name when that has at most 63 bytes and clipped to 63 as
  Postgres clips it otherwise, and every connection of its pool starts with a search path that
  reads back as this schema. \<open>connect_readonly\<close> never creates a schema, succeed or fail, and
  succeeds only when the configured one exists under its full name, hence never for a longer name.
\<close>

theorem connect_keeps_to_schema:
  assumes "pg_ok P clip target schemas"
  shows "read_identifier (quote_identifier name @ '', public'') = Some (name, '', public'') \<and>
    (case connect P env c p of
       (Inr pl, p') \<Rightarrow>
         resolve env (dc_url c) = Inr (po_url pl) \<and> po_max_connections pl = dc_max_connections c \<and>
         po_after_connect pl = map_option search_path_sql (named_schema c) \<and>
         schemas d p' = (if d = target (po_url pl) then clip ` set_option (named_schema c) else {}) \<union> schemas d p \<and>
         (\<forall>n \<in> set_option (named_schema c). length n \<le> 63 \<longrightarrow> clip n = n)
     | (Inl _, _) \<Rightarrow> True) \<and>
    (case connect_readonly P env c p of
       (Inr pl, p') \<Rightarrow>
         schemas d p' = schemas d p \<and> resolve env (dc_url c) = Inr (po_url pl) \<and>
         po_after_connect pl = map_option search_path_sql (named_schema c) \<and>
         set_option (named_schema c) \<subseteq> schemas (target (po_url pl)) p' \<and>
         (\<forall>n \<in> set_option (named_schema c). length n \<le> 63)
     | (Inl _, p') \<Rightarrow> schemas d p' = schemas d p)"
proof (intro conjI quoted_list_read)
  obtain r p' where c: "connect P env c p = (r, p')" by (meson surj_pair)
  show "case connect P env c p of
       (Inr pl, p') \<Rightarrow>
         resolve env (dc_url c) = Inr (po_url pl) \<and> po_max_connections pl = dc_max_connections c \<and>
         po_after_connect pl = map_option search_path_sql (named_schema c) \<and>
         schemas d p' = (if d = target (po_url pl) then clip ` set_option (named_schema c) else {}) \<union> schemas d p \<and>
         (\<forall>n \<in> set_option (named_schema c). length n \<le> 63 \<longrightarrow> clip n = n)
     | (Inl _, _) \<Rightarrow> True"
    using connect_schemas [OF assms, of env c p _ p' d] pg_laws(6) [OF assms] c by (cases r) simp_all
  obtain q p'' where r: "connect_readonly P env c p = (q, p'')" by (meson surj_pair)
  show "case connect_readonly P env c p of
       (Inr pl, p') \<Rightarrow>
         schemas d p' = schemas d p \<and> resolve env (dc_url c) = Inr (po_url pl) \<and>
         po_after_connect pl = map_option search_path_sql (named_schema c) \<and>
         set_option (named_schema c) \<subseteq> schemas (target (po_url pl)) p' \<and>
         (\<forall>n \<in> set_option (named_schema c). length n \<le> 63)
     | (Inl _, p') \<Rightarrow> schemas d p' = schemas d p"
    using readonly_schemas [OF assms r, of d] pg_laws(5) [OF assms] r by (cases q) auto
qed

text \<open>
  A server that holds the names of its schemas, clips them to 63 bytes and reads the two
  statements; \<open>db\<close> and \<open>db2\<close> lead to its one database.
\<close>

definition sample_pg :: "(string list) pg_lib" where
  "sample_pg =
     \<lparr>pg_open = (\<lambda>_ p. (Inr (), p)),
      pg_execute = (\<lambda>url sql p.
        case strip_prefix ''CREATE SCHEMA IF NOT EXISTS '' sql of
          None \<Rightarrow> (Inr (), p)
        | Some s \<Rightarrow> (case read_identifier s of
            Some (n, []) \<Rightarrow> if url = ''db'' \<or> url = ''db2'' then (Inr (), take 63 n # p) else (Inl (Unavailable ''no server''), p)
          | _ \<Rightarrow> (Inl InvalidValue, p))),
      pg_schema_exists = (\<lambda>url s p. (Inr ((url = ''db'' \<or> url = ''db2'') \<and> s \<in> set p \<and> length s \<le> 63), p)),
      pg_migrate = (\<lambda>_ _ p. (Inr (), p))\<rparr>"

definition sample_schemas :: "bool \<Rightarrow> string list \<Rightarrow> string set" where
  "sample_schemas there p = (if there then {s \<in> set p. length s \<le> 63} else {})"

lemma sample_pg_ok: "pg_ok sample_pg (take 63) (\<lambda>url. url = ''db'' \<or> url = ''db2'') sample_schemas"
  by (auto simp: pg_ok_def clips_names_def sample_pg_def sample_schemas_def strip_prefix_def
      split: sum.splits prod.splits if_splits intro: exI [of _ 63])

theorem connect_keeps_to_schema_witness:
  "case connect sample_pg (\<lambda>_. None)
       \<lparr>dc_url = ConfigValue ''db'', dc_max_connections = 5, dc_schema = Some [CHR ''a'', double_quote]\<rparr> [''b''] of
     (Inr pl, p') \<Rightarrow> sample_schemas True p' = {[CHR ''a'', double_quote], ''b''} \<and>
       po_after_connect pl = Some (search_path_sql [CHR ''a'', double_quote])
   | (Inl _, _) \<Rightarrow> False"
proof -
  let ?c = "\<lparr>dc_url = ConfigValue ''db'', dc_max_connections = 5, dc_schema = Some [CHR ''a'', double_quote]\<rparr>"
  have n: "named_schema ?c = Some [CHR ''a'', double_quote]" by (simp add: named_schema_def)
  have "case connect sample_pg (\<lambda>_. None) ?c [''b''] of (Inr _, _) \<Rightarrow> True | (Inl _, _) \<Rightarrow> False"
    by code_simp
  then obtain pl p' where c: "connect sample_pg (\<lambda>_. None) ?c [''b''] = (Inr pl, p')"
    by (cases "connect sample_pg (\<lambda>_. None) ?c [''b'']") (auto split: sum.splits)
  have "po_url pl = ''db''" "sample_schemas True p' = {[CHR ''a'', double_quote], ''b''}"
    "po_after_connect pl = Some (search_path_sql [CHR ''a'', double_quote])"
    using connect_keeps_to_schema [OF sample_pg_ok, where name = "''x''" and env = "\<lambda>_. None" and c = ?c
        and p = "[''b'']" and d = True] c n
    by (auto simp: strip_prefix_def sample_schemas_def split: if_splits)
  with c show ?thesis by simp
qed

end
