(* ===== verification/Cli.thy ===== *)
theory Cli
  imports Connect Server Export
begin

text \<open>
  \<open>main.rs\<close>: the commands. What a command changes is a record of the state of the database server,
  the tables, Redis, the deliveries awaited and the lines printed. The clients it makes, the files
  it reads and the printing of values are parameters; log messages are left out.
\<close>

section \<open>State and services\<close>

record ('p, 'r) cli =
  cs_pg :: 'p
  cs_db :: db
  cs_redis :: 'r
  cs_deliveries :: "delivery list"
  cs_output :: "message list"

record ('p, 'r) cli_lib =
  cl_pg :: "'p pg_lib"
  cl_svc :: svc
  cl_toml :: toml_lib
  cl_files :: file_system
  cl_env :: environment
  cl_webhook :: webhook_lib
  cl_client :: "string \<Rightarrow> string + unit"
  cl_connect :: "string \<Rightarrow> string + 'r redis"
  cl_directory :: "path \<Rightarrow> directory"
  cl_parse_export :: "string \<Rightarrow> string + board_export"
  cl_print_export :: "board_export \<Rightarrow> string + string"
  cl_hash_order :: "(string \<times> string) list \<Rightarrow> (string \<times> string) list"
  cl_created :: "timestamp \<Rightarrow> string"

text \<open>An error of \<open>anyhow\<close>, with the context it was given.\<close>

datatype cli_error = Plain anyhow | Context message anyhow

type_synonym ('p, 'r, 'a) cli_step = "('p, 'r) cli \<Rightarrow> (cli_error + 'a) \<times> ('p, 'r) cli"

definition core :: "'a result \<Rightarrow> cli_error + 'a" where
  "core m = map_err (\<lambda>e. Plain (Core e)) m"

definition core_context :: "string \<Rightarrow> 'a result \<Rightarrow> cli_error + 'a" where
  "core_context ctx m = map_err (\<lambda>e. Context [Lit ctx] (Core e)) m"

definition lib_context :: "string \<Rightarrow> string + 'a \<Rightarrow> cli_error + 'a" where
  "lib_context ctx m = map_err (\<lambda>e. Context [Lit ctx] (Bail [Str e])) m"

definition print_line :: "message \<Rightarrow> ('p, 'r) cli \<Rightarrow> ('p, 'r) cli" where
  "print_line l s = s\<lparr>cs_output := cs_output s @ [l]\<rparr>"

definition on_server :: "('p \<Rightarrow> 'a result \<times> 'p) \<Rightarrow> ('p, 'r, 'a) cli_step" where
  "on_server f s = (case f (cs_pg s) of (x, p) \<Rightarrow> (core x, s\<lparr>cs_pg := p\<rparr>))"

definition on_tables :: "(db \<Rightarrow> ('a \<times> db) result) \<Rightarrow> ('p, 'r, 'a) cli_step" where
  "on_tables f s = (case f (cs_db s) of Inl e \<Rightarrow> (Inl (Plain (Core e)), s) | Inr (x, d) \<Rightarrow> (Inr x, s\<lparr>cs_db := d\<rparr>))"

definition await_fire ::
    "('p, 'r) cli_lib \<Rightarrow> config \<Rightarrow> webhook_event \<Rightarrow> string \<Rightarrow> string \<Rightarrow> version_info option \<Rightarrow>
     ('p, 'r) cli \<Rightarrow> ('p, 'r) cli" where
  "await_fire C c event slug name v s =
     s\<lparr>cs_deliveries := cs_deliveries s @ fire (cl_webhook C) (cl_env C) (cfg_webhooks c) event slug name v None\<rparr>"

definition open_tables :: "('p, 'r) cli_lib \<Rightarrow> config \<Rightarrow> ('p, 'r, pool) cli_step" where
  "open_tables C c = on_server (connect (cl_pg C) (cl_env C) (cfg_database c))"

definition open_readonly :: "('p, 'r) cli_lib \<Rightarrow> config \<Rightarrow> ('p, 'r, pool) cli_step" where
  "open_readonly C c = on_server (connect_readonly (cl_pg C) (cl_env C) (cfg_database c))"

definition open_migrated :: "('p, 'r) cli_lib \<Rightarrow> config \<Rightarrow> ('p, 'r, pool) cli_step" where
  "open_migrated C c s =
     and_then (open_tables C c s) (\<lambda>pl s.
     and_then (on_server (migrate (cl_pg C) pl) s) (\<lambda>_ s. (Inr pl, s)))"

section \<open>Padding\<close>

definition pad :: "nat \<Rightarrow> string \<Rightarrow> string" where
  "pad w s = s @ replicate (w - length s) (CHR '' '')"

fun decimal :: "nat \<Rightarrow> string" where
  "decimal n = (if n < 10 then [] else decimal (n div 10)) @ [char_of (48 + n mod 10)]"

declare decimal.simps [simp del]

definition decimal_int :: "int \<Rightarrow> string" where
  "decimal_int i = (if i < 0 then CHR ''-'' # decimal (nat (- i)) else decimal (nat i))"

section \<open>Redis\<close>

definition redis_client :: "('p, 'r) cli_lib \<Rightarrow> redis_config \<Rightarrow> cli_error + 'r redis" where
  "redis_client C rc =
     rbind (core_context ''failed to resolve Redis URL'' (resolve (cl_env C) (rc_url rc))) (\<lambda>url.
     rbind (lib_context ''failed to create Redis client'' (cl_client C url)) (\<lambda>_.
     lib_context ''failed to connect to Redis'' (cl_connect C url)))"

section \<open>Serve\<close>

text \<open>What the server starts with: the pool, the auth mode, Redis, the bus, the tracked tasks.\<close>

record ('k, 'r, 'c) start =
  st_pool :: pool
  st_auth :: "'k auth_mode"
  st_redis :: "'r redis option"
  st_bus :: "'c event_bus option"
  st_tasks :: "task list"

definition initial_bus :: "server_config \<Rightarrow> 'c event_bus option" where
  "initial_bus sv =
     (if sv_sse_enabled sv \<or> sv_ws_enabled sv
      then Some (new_bus (nat (sv_sse_max_connections sv)) (nat (sv_sse_score_debounce_ms sv))
                   (nat (sv_sse_broadcast_buffer sv)))
      else None)"

definition cmd_serve ::
    "('p, 'r) cli_lib \<Rightarrow> 'k jwt_lib \<Rightarrow> nat \<Rightarrow> (string \<Rightarrow> anyhow + jwk_entry list) \<Rightarrow> config \<Rightarrow>
     ('p, 'r, ('k, 'r, 'c) start) cli_step" where
  "cmd_serve C J now fetch c s =
     and_then (open_migrated C c s) (\<lambda>pl s.
     and_then (map_err (Context [Lit ''failed to initialize auth'']) (from_config J (cl_env C) now fetch (cfg_auth c)), s)
       (\<lambda>mode s.
     and_then (case cfg_redis c of None \<Rightarrow> Inr None | Some rc \<Rightarrow> rbind (redis_client C rc) (\<lambda>R. Inr (Some R)), s) (\<lambda>R s.
     (Inr \<lparr>st_pool = pl, st_auth = mode, st_redis = R, st_bus = initial_bus (server_of c),
           st_tasks = start_background_tasks mode []\<rparr>, s))))"

section \<open>Migrate and validate\<close>

definition cmd_migrate :: "('p, 'r) cli_lib \<Rightarrow> config \<Rightarrow> ('p, 'r, unit) cli_step" where
  "cmd_migrate C c s = and_then (open_migrated C c s) (\<lambda>_ s. (Inr (), s))"

text \<open>The probe \<open>SELECT 1\<close> of the validation: its error gets a context.\<close>

definition cmd_validate :: "('p, 'r) cli_lib \<Rightarrow> config \<Rightarrow> ('p, 'r, unit) cli_step" where
  "cmd_validate C c s =
     and_then (open_readonly C c s) (\<lambda>pl s.
     case pg_execute (cl_pg C) (po_url pl) ''SELECT 1'' (cs_pg s) of
       (Inl e, p) \<Rightarrow> (Inl (Context [Lit ''database connection failed''] (Core (Database e))), s\<lparr>cs_pg := p\<rparr>)
     | (Inr _, p) \<Rightarrow> (Inr (), s\<lparr>cs_pg := p\<rparr>))"

section \<open>Sync\<close>

text \<open>What one result of the sync announces.\<close>

definition sync_fires ::
    "('p, 'r) cli_lib \<Rightarrow> config \<Rightarrow> string option \<Rightarrow> board_sync_result \<Rightarrow> ('p, 'r) cli \<Rightarrow> ('p, 'r) cli" where
  "sync_fires C c nt r s =
     (case sr_action r of
        Created n \<Rightarrow>
          await_fire C c VersionCreated (sr_slug r) (sr_name r) (Some \<lparr>vi_version_number = n, vi_note = nt\<rparr>)
            (await_fire C c BoardCreated (sr_slug r) (sr_name r) None s)
      | Updated n \<Rightarrow>
          await_fire C c VersionCreated (sr_slug r) (sr_name r) (Some \<lparr>vi_version_number = n, vi_note = nt\<rparr>) s
      | _ \<Rightarrow> s)"

definition sync_path :: "file_system \<Rightarrow> config \<Rightarrow> path option \<Rightarrow> path option" where
  "sync_path F c given =
     (case given of Some p \<Rightarrow> Some p | None \<Rightarrow> map_option (path_of F) (Option.bind (cfg_sync c) sy_repo_path))"

definition cmd_sync ::
    "('p, 'r) cli_lib \<Rightarrow> config \<Rightarrow> path option \<Rightarrow> string option \<Rightarrow> ('p, 'r, board_sync_result list) cli_step" where
  "cmd_sync C c given nt s =
     and_then (ok_or (sync_path (cl_files C) c given)
         (Plain (Bail [Lit ''no path provided and no [sync] repo_path in config''])), s) (\<lambda>dir s.
     and_then (open_migrated C c s) (\<lambda>_ s.
     case sync_dir (cl_svc C) (cl_toml C) (cl_directory C dir) nt (cs_db s) of
       (Inl e, d) \<Rightarrow> (Inl (Context [Lit ''sync failed''] (Core e)), s\<lparr>cs_db := d\<rparr>)
     | (Inr results, d) \<Rightarrow> (Inr results, fold (sync_fires C c nt) results (s\<lparr>cs_db := d\<rparr>))))"

section \<open>Boards\<close>

definition board_line :: "board \<Rightarrow> message" where
  "board_line b =
     [Str (pad 20 (b_slug b)), Lit '' '', Str (pad 10 (b_board_type b)), Lit '' '', Str (pad 6 (b_sort_direction b)),
      Lit '' '', Str (pad 6 (if b_accumulative b then ''yes'' else ''no'')), Lit '' '', Str (b_name b)]"

definition count_line :: "nat \<Rightarrow> string \<Rightarrow> message list" where
  "count_line n what = [[], [Num (int n), Lit what]]"

definition boards_listing :: "board list \<Rightarrow> message list" where
  "boards_listing bs =
     (if bs = [] then [[Lit ''No boards found.'']]
      else [Str (pad 20 ''SLUG''), Lit '' '', Str (pad 10 ''TYPE''), Lit '' '', Str (pad 6 ''SORT''), Lit '' '',
            Str (pad 6 ''ACCUM''), Lit '' NAME''] # map board_line bs @ count_line (length bs) '' board(s)'')"

definition cmd_list_boards :: "('p, 'r) cli_lib \<Rightarrow> config \<Rightarrow> ('p, 'r, unit) cli_step" where
  "cmd_list_boards C c s =
     and_then (open_readonly C c s) (\<lambda>_ s. (Inr (), fold print_line (boards_listing (boards_list (cs_db s))) s))"

text \<open>The keys of a realtime board go first; that Redis cannot be reached is an error, a failed
  removal is not.\<close>

definition clear_keys :: "('p, 'r) cli_lib \<Rightarrow> config \<Rightarrow> string \<Rightarrow> board \<Rightarrow> ('p, 'r, unit) cli_step" where
  "clear_keys C c slug board s =
     (case (b_realtime board, cfg_redis c) of
        (True, Some rc) \<Rightarrow>
          and_then (redis_client C rc, s) (\<lambda>R s.
          (Inr (), s\<lparr>cs_redis := snd (snd (realtime_clear R slug (redis_key_prefix c) (cs_db s, cs_redis s)))\<rparr>))
      | _ \<Rightarrow> (Inr (), s))"

definition cmd_delete_board :: "('p, 'r) cli_lib \<Rightarrow> config \<Rightarrow> string \<Rightarrow> ('p, 'r, unit) cli_step" where
  "cmd_delete_board C c slug s =
     and_then (open_tables C c s) (\<lambda>_ s.
     and_then (core_context ''board not found'' (boards_get_by_slug slug (cs_db s)), s) (\<lambda>board s.
     and_then (clear_keys C c slug board s) (\<lambda>_ s.
     and_then (on_tables (\<lambda>d. rbind (boards_delete slug d) (\<lambda>d. Inr ((), d))) s) (\<lambda>_ s.
     (Inr (), print_line [Lit ''Board '', Quo slug, Lit '' deleted.'']
        (await_fire C c BoardDeleted slug (b_name board) None s))))))"

section \<open>Versions\<close>

definition version_line :: "('p, 'r) cli_lib \<Rightarrow> version \<Rightarrow> message" where
  "version_line C v =
     [Str (pad 8 (decimal_int (v_number v))), Lit '' '', Str (pad 28 (cl_created C (v_created_at v))), Lit '' '',
      Str (unwrap_or (v_note v) ''-'')]"

definition versions_listing :: "('p, 'r) cli_lib \<Rightarrow> string \<Rightarrow> version list \<Rightarrow> message list" where
  "versions_listing C slug vs =
     (if vs = [] then [[Lit ''No versions for board '', Quo slug, Lit ''.'']]
      else [Str (pad 8 ''VERSION''), Lit '' '', Str (pad 28 ''CREATED''), Lit '' NOTE''] #
           map (version_line C) vs @ count_line (length vs) '' version(s)'')"

definition cmd_list_versions :: "('p, 'r) cli_lib \<Rightarrow> config \<Rightarrow> string \<Rightarrow> ('p, 'r, unit) cli_step" where
  "cmd_list_versions C c slug s =
     and_then (open_readonly C c s) (\<lambda>_ s.
     and_then (core (boards_get_by_slug slug (cs_db s)), s) (\<lambda>board s.
     (Inr (), fold print_line (versions_listing C slug (versions_list (b_id board) (cs_db s))) s)))"

section \<open>Export and import\<close>

definition cmd_export :: "('p, 'r) cli_lib \<Rightarrow> config \<Rightarrow> string \<Rightarrow> ('p, 'r, unit) cli_step" where
  "cmd_export C c slug s =
     and_then (open_readonly C c s) (\<lambda>_ s.
     and_then (core (export_board (cl_svc C) slug (cs_db s)), s) (\<lambda>export s.
     and_then (lib_context ''failed to serialize export'' (cl_print_export C export), s) (\<lambda>json s.
     (Inr (), print_line [Str json] s))))"

definition file_context :: "string \<Rightarrow> file_system \<Rightarrow> path \<Rightarrow> string + 'a \<Rightarrow> cli_error + 'a" where
  "file_context what F file m = map_err (\<lambda>e. Context [Lit what, Str (fs_display F file)] (Bail [Str e])) m"

definition cmd_import :: "('p, 'r) cli_lib \<Rightarrow> config \<Rightarrow> path \<Rightarrow> ('p, 'r, unit) cli_step" where
  "cmd_import C c file s =
     and_then (file_context ''failed to read '' (cl_files C) file (fs_read (cl_files C) file), s) (\<lambda>contents s.
     and_then (file_context ''failed to parse '' (cl_files C) file (cl_parse_export C contents), s) (\<lambda>export s.
     and_then (open_migrated C c s) (\<lambda>_ s.
     and_then (on_tables (import_board (cl_svc C) (cl_hash_order C) export) s) (\<lambda>_ s.
     (Inr (), print_line [Lit ''Board '', Quo (bx_slug (ex_board export)), Lit '' imported successfully.'']
        (await_fire C c BoardCreated (bx_slug (ex_board export)) (bx_name (ex_board export)) None s))))))"

section \<open>Collections\<close>

definition collections_listing :: "collection list \<Rightarrow> message list" where
  "collections_listing cs =
     (if cs = [] then [[Lit ''No collections found.'']]
      else [Str (pad 30 ''SLUG''), Lit '' NAME''] #
           map (\<lambda>k. [Str (pad 30 (c_slug k)), Lit '' '', Str (c_name k)]) cs @ count_line (length cs) '' collection(s)'')"

definition cmd_list_collections :: "('p, 'r) cli_lib \<Rightarrow> config \<Rightarrow> ('p, 'r, unit) cli_step" where
  "cmd_list_collections C c s =
     and_then (open_readonly C c s) (\<lambda>_ s.
     (Inr (), fold print_line (collections_listing (collections_list (cs_db s))) s))"

definition cmd_delete_collection :: "('p, 'r) cli_lib \<Rightarrow> config \<Rightarrow> string \<Rightarrow> ('p, 'r, unit) cli_step" where
  "cmd_delete_collection C c slug s =
     and_then (open_tables C c s) (\<lambda>_ s.
     and_then (on_tables (\<lambda>d. rbind (collections_delete slug d) (\<lambda>d. Inr ((), d))) s) (\<lambda>_ s.
     (Inr (), print_line [Lit ''Collection '', Quo slug, Lit '' deleted.''] s)))"

section \<open>The commands\<close>

datatype command =
    Serve
  | Migrate
  | Validate
  | Sync "path option" "string option"
  | ListBoards
  | DeleteBoard string
  | ListVersions string
  | Export string
  | Import path
  | ListCollections
  | DeleteCollection string

text \<open>A command other than \<open>Serve\<close>, which goes on to \<open>run_server\<close>.\<close>

definition forget :: "(cli_error + 'a) \<times> ('p, 'r) cli \<Rightarrow> (cli_error + unit) \<times> ('p, 'r) cli" where
  "forget m = and_then m (\<lambda>_ s. (Inr (), s))"

fun run_command ::
    "('p, 'r) cli_lib \<Rightarrow> 'k jwt_lib \<Rightarrow> nat \<Rightarrow> (string \<Rightarrow> anyhow + jwk_entry list) \<Rightarrow> config \<Rightarrow> command \<Rightarrow>
     ('p, 'r, unit) cli_step" where
  "run_command C J now fetch c Serve s =
     forget (cmd_serve C J now fetch c s :: (cli_error + ('k, 'r, unit) start) \<times> ('p, 'r) cli)"
| "run_command C J now fetch c Migrate s = cmd_migrate C c s"
| "run_command C J now fetch c Validate s = cmd_validate C c s"
| "run_command C J now fetch c (Sync path nt) s = forget (cmd_sync C c path nt s)"
| "run_command C J now fetch c ListBoards s = cmd_list_boards C c s"
| "run_command C J now fetch c (DeleteBoard slug) s = cmd_delete_board C c slug s"
| "run_command C J now fetch c (ListVersions slug) s = cmd_list_versions C c slug s"
| "run_command C J now fetch c (Export slug) s = cmd_export C c slug s"
| "run_command C J now fetch c (Import file) s = cmd_import C c file s"
| "run_command C J now fetch c ListCollections s = cmd_list_collections C c s"
| "run_command C J now fetch c (DeleteCollection slug) s = cmd_delete_collection C c slug s"

text \<open>The program: the configuration is loaded before any command.\<close>

definition run_cli ::
    "('p, 'r) cli_lib \<Rightarrow> 'k jwt_lib \<Rightarrow> nat \<Rightarrow> (string \<Rightarrow> anyhow + jwk_entry list) \<Rightarrow> path option \<Rightarrow> command \<Rightarrow>
     ('p, 'r, unit) cli_step" where
  "run_cli C J now fetch config_path cmd s =
     and_then (core_context ''failed to load config'' (load_config (cl_toml C) (cl_files C) (cl_env C) config_path), s)
       (\<lambda>c s. run_command C J now fetch c cmd s)"

section \<open>What the steps leave\<close>

lemma then_keeps:
  assumes "Q (snd m)" "\<And>x s. m = (Inr x, s) \<Longrightarrow> Q s \<Longrightarrow> Q (snd (f x s))"
  shows "Q (snd (and_then m f))"
  using assms by (cases m; cases "fst m") auto

lemma on_server_fields:
  "cs_db (snd (on_server f s)) = cs_db s" "cs_redis (snd (on_server f s)) = cs_redis s"
  "cs_deliveries (snd (on_server f s)) = cs_deliveries s" "cs_output (snd (on_server f s)) = cs_output s"
  by (cases "f (cs_pg s)"; simp add: on_server_def)+

lemma open_tables_fields:
  "cs_db (snd (open_tables C c s)) = cs_db s" "cs_redis (snd (open_tables C c s)) = cs_redis s"
  "cs_deliveries (snd (open_tables C c s)) = cs_deliveries s"
  unfolding open_tables_def on_server_fields by (rule refl)+

lemma open_readonly_fields:
  "cs_db (snd (open_readonly C c s)) = cs_db s" "cs_redis (snd (open_readonly C c s)) = cs_redis s"
  "cs_deliveries (snd (open_readonly C c s)) = cs_deliveries s"
  unfolding open_readonly_def on_server_fields by (rule refl)+

definition same_stores :: "('p, 'r) cli \<Rightarrow> ('p, 'r) cli \<Rightarrow> bool" where
  "same_stores s s' \<longleftrightarrow> cs_db s' = cs_db s \<and> cs_redis s' = cs_redis s \<and> cs_deliveries s' = cs_deliveries s"

lemma same_stores_print [simp]: "same_stores s (fold print_line ls s') = same_stores s s'"
  by (induction ls arbitrary: s') (simp_all add: print_line_def same_stores_def)

lemma same_stores_print_line [simp]: "same_stores s (print_line l s') = same_stores s s'"
  by (simp add: print_line_def same_stores_def)

lemma same_stores_refl [simp]: "same_stores s s"
  by (simp add: same_stores_def)

lemma same_stores_open [simp]:
  "same_stores s (snd (open_tables C c s')) = same_stores s s'"
  "same_stores s (snd (open_readonly C c s')) = same_stores s s'"
  by (simp_all add: same_stores_def open_tables_fields open_readonly_fields)

lemma same_stores_migrated: "same_stores s s' \<Longrightarrow> same_stores s (snd (open_migrated C c s'))"
  unfolding open_migrated_def
  by (rule then_keeps, simp, rule then_keeps) (simp_all add: same_stores_def on_server_fields)

text \<open>The commands that only look.\<close>

fun read_only :: "command \<Rightarrow> bool" where
  "read_only Validate = True"
| "read_only ListBoards = True"
| "read_only (ListVersions _) = True"
| "read_only (Export _) = True"
| "read_only ListCollections = True"
| "read_only _ = False"

lemma read_only_same:
  assumes "read_only cmd"
  shows "same_stores s (snd (run_command C J now fetch c cmd s))"
proof (cases cmd)
  case Validate
  show ?thesis unfolding Validate run_command.simps cmd_validate_def
    by (rule then_keeps) (auto simp: same_stores_def open_readonly_fields split: prod.split sum.split)
next
  case ListBoards
  show ?thesis unfolding ListBoards run_command.simps cmd_list_boards_def by (rule then_keeps) simp_all
next
  case (ListVersions slug)
  show ?thesis unfolding ListVersions run_command.simps cmd_list_versions_def
    by (rule then_keeps, simp, rule then_keeps) simp_all
next
  case (Export slug)
  show ?thesis unfolding Export run_command.simps cmd_export_def
    by (rule then_keeps, simp, rule then_keeps, simp, rule then_keeps) simp_all
next
  case ListCollections
  show ?thesis unfolding ListCollections run_command.simps cmd_list_collections_def by (rule then_keeps) simp_all
qed (use assms in simp_all)

text \<open>A step on the tables keeps what its operation keeps.\<close>

lemma on_tables_keeps:
  assumes "Q (cs_db s)" "\<And>x d. f (cs_db s) = Inr (x, d) \<Longrightarrow> Q d"
  shows "Q (cs_db (snd (on_tables f s)))"
  using assms by (auto simp: on_tables_def split: sum.split prod.split)

lemma fires_db [simp]: "cs_db (await_fire C c e sl n v s) = cs_db s" "cs_db (print_line l s) = cs_db s"
  "cs_db (sync_fires C c nt r s) = cs_db s"
  by (simp_all add: await_fire_def print_line_def sync_fires_def split: sync_action.split)

lemma fold_sync_fires_db [simp]: "cs_db (fold (sync_fires C c nt) rs s) = cs_db s"
  by (induction rs arbitrary: s) simp_all

lemma import_keeps:
  assumes "svc_ok S" "db_inv S db" "\<And>xs. mset (sh xs) = mset xs" "import_board S sh ex db = Inr (res, db')"
  shows "keeps_history S db db'"
  using import_board_inv [OF assms] by (simp add: keeps_history_def history_extends_def)

lemma collections_delete_keeps:
  assumes "db_inv S db" "collections_delete slug db = Inr db'"
  shows "keeps_history S db db'"
proof -
  have "versions db' = versions db" "placements db' = placements db"
    using assms(2) by (auto simp: collections_delete_def delete_collection_rows_def Let_def)
  with collections_delete_inv [OF assms] history_same [OF assms(1)] show ?thesis by (simp add: keeps_history_def)
qed

definition boards_after :: "svc \<Rightarrow> command \<Rightarrow> db \<Rightarrow> db \<Rightarrow> bool" where
  "boards_after S cmd d d' \<longleftrightarrow> db_inv S d' \<and> ((\<forall>slug. cmd \<noteq> DeleteBoard slug) \<longrightarrow> history_extends d d')"

lemma boards_after_same: "db_inv S d \<Longrightarrow> boards_after S cmd d d"
  by (simp add: boards_after_def history_refl)

lemma boards_after_keeps: "keeps_history S d d' \<Longrightarrow> boards_after S cmd d d'"
  by (simp add: boards_after_def keeps_history_def)

lemma migrated_db [simp]: "cs_db (snd (open_migrated C c s)) = cs_db s"
  using same_stores_migrated [OF same_stores_refl, of s C c] by (simp add: same_stores_def)

text \<open>What each command can do to the tables, for any property \<open>P\<close> of them.\<close>

lemma on_tables_then:
  assumes "cs_db s = before" "P before" "\<And>x d. f before = Inr (x, d) \<Longrightarrow> P d" "\<And>x s. cs_db (snd (g x s)) = cs_db s"
  shows "P (cs_db (snd (and_then (on_tables f s) g)))"
proof -
  have "P (cs_db (snd (on_tables f s)))"
  proof (rule on_tables_keeps [where Q = P])
    show "P (cs_db s)" using assms(1,2) by simp
  next
    fix x d assume "f (cs_db s) = Inr (x, d)"
    with assms(1) have "f before = Inr (x, d)" by simp
    then show "P d" by (rule assms(3))
  qed
  then show ?thesis by (rule then_keeps [where Q = "\<lambda>s. P (cs_db s)"]) (simp add: assms(4))
qed

lemma clear_keys_db [simp]: "cs_db (snd (clear_keys C c slug b s)) = cs_db s"
  by (cases "redis_client C (the (cfg_redis c))") (auto simp: clear_keys_def split: bool.split option.split)

lemma delete_board_tables:
  assumes "P (cs_db s)" "\<And>d. boards_delete slug (cs_db s) = Inr d \<Longrightarrow> P d"
  shows "P (cs_db (snd (cmd_delete_board C c slug s)))"
  unfolding cmd_delete_board_def
proof (rule then_keeps [where Q = "\<lambda>s. P (cs_db s)"], simp add: open_tables_fields assms(1),
    rule then_keeps [where Q = "\<lambda>s. P (cs_db s)"], simp, rule then_keeps [where Q = "\<lambda>s. P (cs_db s)"], simp)
  fix pl s1 b s2 u s3
  assume 1: "open_tables C c s = (Inr pl, s1)"
    and 2: "(core_context ''board not found'' (boards_get_by_slug slug (cs_db s1)), s1) = (Inr b, s2)"
    and 3: "clear_keys C c slug b s2 = (Inr u, s3)"
  have "cs_db s3 = cs_db s"
    using open_tables_fields(1) [of C c s] clear_keys_db [of C c slug b s2] 1 2 3 by simp
  then show "P (cs_db (snd (and_then (on_tables (\<lambda>d. rbind (boards_delete slug d) (\<lambda>d. Inr ((), d))) s3)
      (\<lambda>_ s. (Inr (), print_line [Lit ''Board '', Quo slug, Lit '' deleted.'']
        (await_fire C c BoardDeleted slug (b_name b) None s))))))"
    by (rule on_tables_then [where P = P and before = "cs_db s"]) (use assms in auto)
qed

lemma delete_collection_tables:
  assumes "P (cs_db s)" "\<And>d. collections_delete slug (cs_db s) = Inr d \<Longrightarrow> P d"
  shows "P (cs_db (snd (cmd_delete_collection C c slug s)))"
  unfolding cmd_delete_collection_def
proof (rule then_keeps [where Q = "\<lambda>s. P (cs_db s)"], simp add: open_tables_fields assms(1))
  fix pl s1
  assume "open_tables C c s = (Inr pl, s1)"
  then have "cs_db s1 = cs_db s" using open_tables_fields(1) [of C c s] by simp
  then show "P (cs_db (snd (and_then (on_tables (\<lambda>d. rbind (collections_delete slug d) (\<lambda>d. Inr ((), d))) s1)
      (\<lambda>_ s. (Inr (), print_line [Lit ''Collection '', Quo slug, Lit '' deleted.''] s)))))"
    by (rule on_tables_then [where P = P and before = "cs_db s"]) (use assms in auto)
qed

lemma import_tables:
  assumes "P (cs_db s)" "\<And>ex r d. import_board (cl_svc C) (cl_hash_order C) ex (cs_db s) = Inr (r, d) \<Longrightarrow> P d"
  shows "P (cs_db (snd (cmd_import C c file s)))"
  unfolding cmd_import_def
proof (rule then_keeps [where Q = "\<lambda>s. P (cs_db s)"], simp add: assms(1),
    rule then_keeps [where Q = "\<lambda>s. P (cs_db s)"], simp, rule then_keeps [where Q = "\<lambda>s. P (cs_db s)"], simp)
  fix contents s1 ex s2 pl s3
  assume 1: "(file_context ''failed to read '' (cl_files C) file (fs_read (cl_files C) file), s) = (Inr contents, s1)"
    and 2: "(file_context ''failed to parse '' (cl_files C) file (cl_parse_export C contents), s1) = (Inr ex, s2)"
    and 3: "open_migrated C c s2 = (Inr pl, s3)"
  have "cs_db s3 = cs_db s" using migrated_db [of C c s2] 1 2 3 by simp
  then show "P (cs_db (snd (and_then (on_tables (import_board (cl_svc C) (cl_hash_order C) ex) s3)
      (\<lambda>_ s. (Inr (), print_line [Lit ''Board '', Quo (bx_slug (ex_board ex)), Lit '' imported successfully.'']
        (await_fire C c BoardCreated (bx_slug (ex_board ex)) (bx_name (ex_board ex)) None s))))))"
    by (rule on_tables_then [where P = P and before = "cs_db s"]) (rule assms(1), rule assms(2), assumption, simp)
qed

lemma sync_tables:
  assumes "P (cs_db s)" "\<And>dir r d. sync_dir (cl_svc C) (cl_toml C) dir nt (cs_db s) = (r, d) \<Longrightarrow> P d"
  shows "P (cs_db (snd (cmd_sync C c path nt s)))"
  unfolding cmd_sync_def
proof (rule then_keeps [where Q = "\<lambda>s. P (cs_db s)"], simp add: assms(1),
    rule then_keeps [where Q = "\<lambda>s. P (cs_db s)"], simp)
  fix dir s1 pl s2
  assume 1: "(ok_or (sync_path (cl_files C) c path) (Plain (Bail [Lit ''no path provided and no [sync] repo_path in config''])), s) = (Inr dir, s1)"
    and 2: "open_migrated C c s1 = (Inr pl, s2)"
  have s2: "cs_db s2 = cs_db s" using migrated_db [of C c s1] 1 2 by simp
  obtain r d where r: "sync_dir (cl_svc C) (cl_toml C) (cl_directory C dir) nt (cs_db s2) = (r, d)" by (meson surj_pair)
  have "P d" by (rule assms(2)) (use r s2 in simp)
  with r show "P (cs_db (snd (case sync_dir (cl_svc C) (cl_toml C) (cl_directory C dir) nt (cs_db s2) of
      (Inl e, d) \<Rightarrow> (Inl (Context [Lit ''sync failed''] (Core e)), s2\<lparr>cs_db := d\<rparr>)
    | (Inr results, d) \<Rightarrow> (Inr results, fold (sync_fires C c nt) results (s2\<lparr>cs_db := d\<rparr>)))))"
    by (cases r) simp_all
qed

lemma forget_fields [simp]: "snd (forget m) = snd m"
  by (cases m; cases "fst m") (auto simp: forget_def)

lemma start_db: "cs_db (snd (cmd_serve C J now fetch c s)) = cs_db s" "cs_db (snd (cmd_migrate C c s)) = cs_db s"
  unfolding cmd_serve_def cmd_migrate_def
  by (rule then_keeps, simp, rule then_keeps, simp, rule then_keeps, simp_all) (rule then_keeps, simp_all)

lemma command_keeps:
  assumes "svc_ok (cl_svc C)" "db_inv (cl_svc C) (cs_db s)" "\<And>xs. mset (cl_hash_order C xs) = mset xs"
  shows "boards_after (cl_svc C) cmd (cs_db s) (cs_db (snd (run_command C J now fetch c cmd s)))"
proof (cases "read_only cmd")
  case True
  from read_only_same [OF this, of s C J now fetch c] boards_after_same [OF assms(2)] show ?thesis
    by (simp add: same_stores_def)
next
  case False
  note same = boards_after_same [OF assms(2), of cmd]
  show ?thesis
  proof (cases cmd)
    case (Sync path nt)
    from same boards_after_keeps [OF sync_dir_keeps [OF assms(1,2)], of _ _ nt _ _ cmd]
    show ?thesis unfolding Sync run_command.simps forget_fields by (rule sync_tables)
  next
    case (DeleteBoard slug)
    have "boards_after (cl_svc C) cmd (cs_db s) d" if "boards_delete slug (cs_db s) = Inr d" for d
      using boards_delete_inv [OF assms(2) that] DeleteBoard by (simp add: boards_after_def)
    with same show ?thesis unfolding DeleteBoard run_command.simps by (rule delete_board_tables)
  next
    case (Import source)
    from same boards_after_keeps [OF import_keeps [OF assms], of _ _ _ cmd]
    show ?thesis unfolding Import run_command.simps by (rule import_tables)
  next
    case (DeleteCollection slug)
    from same boards_after_keeps [OF collections_delete_keeps [OF assms(2)], of _ _ cmd]
    show ?thesis unfolding DeleteCollection run_command.simps by (rule delete_collection_tables)
  qed (use False same in \<open>simp_all add: start_db\<close>)
qed

section \<open>What the commands keep\<close>

text \<open>
  C35: no command loses what is published. Whatever command is run, with whatever configuration,
  files and outcome, the tables keep their invariant; only deleting a board removes versions; and
  validating, listing and exporting change neither the tables, nor Redis, and notify nobody.
\<close>

theorem commands_keep_history:
  assumes "svc_ok (cl_svc C)" "db_inv (cl_svc C) (cs_db s)" "\<And>xs. mset (cl_hash_order C xs) = mset xs"
  shows "let s' = snd (run_cli C J now fetch config_path cmd s) in
    db_inv (cl_svc C) (cs_db s') \<and>
    ((\<forall>slug. cmd \<noteq> DeleteBoard slug) \<longrightarrow> history_extends (cs_db s) (cs_db s')) \<and>
    (read_only cmd \<longrightarrow> cs_db s' = cs_db s \<and> cs_redis s' = cs_redis s \<and> cs_deliveries s' = cs_deliveries s)"
proof (cases "load_config (cl_toml C) (cl_files C) (cl_env C) config_path")
  case (Inl e)
  with assms(2) show ?thesis by (simp add: run_cli_def core_context_def map_err_def Let_def history_refl)
next
  case (Inr c)
  then have "run_cli C J now fetch config_path cmd s = run_command C J now fetch c cmd s"
    by (simp add: run_cli_def core_context_def map_err_def)
  with command_keeps [OF assms, of cmd J now fetch c] read_only_same [of cmd s C J now fetch c] show ?thesis
    by (simp add: Let_def boards_after_def same_stores_def)
qed

section \<open>The commands and the server\<close>

text \<open>A command line and a server with the same configuration and services, in the same state.\<close>

definition same_service :: "('p, 'r) cli_lib \<Rightarrow> config \<Rightarrow> ('r, 'c, 'x) ctx \<Rightarrow> bool" where
  "same_service C c X \<longleftrightarrow>
     cl_svc C = cx_svc X \<and> cl_webhook C = cx_webhook X \<and> cl_env C = cx_env X \<and> c = cx_config X \<and>
     (case cfg_redis c of None \<Rightarrow> cx_redis X = None | Some rc \<Rightarrow> map_option Inr (cx_redis X) = Some (redis_client C rc))"

definition agrees :: "('p, 'r) cli \<Rightarrow> ('r, 'c) app \<Rightarrow> bool" where
  "agrees s a \<longleftrightarrow> cs_db s = ap_db a \<and> cs_redis s = ap_redis a \<and> cs_deliveries s = ap_deliveries a"

lemma agrees_fire:
  "same_service C c X \<Longrightarrow> agrees s a \<Longrightarrow>
     agrees (await_fire C c ev slug name v s) (fire_app X ev slug name v None a)"
  by (simp add: agrees_def same_service_def await_fire_def fire_app_def)

lemma agrees_print [simp]: "agrees (print_line l s) a = agrees s a"
  by (simp add: agrees_def print_line_def)

lemma agrees_bus [simp]: "agrees s (announce_version X slug n nt a) = agrees s a"
  by (simp add: agrees_def)

lemma found_slug: "boards_get_by_slug slug db = Inr b \<Longrightarrow> b_slug b = slug"
  by (auto simp: boards_get_by_slug_def find_Some_iff split: option.splits)

lemma agrees_clear:
  assumes "same_service C c X" "agrees s a" "b_slug b = slug"
  shows "\<exists>s'. clear_keys C c slug b s = (Inr (), s') \<and> agrees s' (clear_redis X b a)"
proof (cases "b_realtime b \<and> cfg_redis c \<noteq> None")
  case False
  then have "clear_keys C c slug b s = (Inr (), s)" by (auto simp: clear_keys_def split: bool.split option.split)
  moreover have "clear_redis X b a = a"
    using False assms(1) by (auto simp: clear_redis_def same_service_def split: option.splits)
  ultimately show ?thesis using assms(2) by simp
next
  case True
  then obtain rc where rc: "cfg_redis c = Some rc" by auto
  with assms(1) obtain R where R: "cx_redis X = Some R" "redis_client C rc = Inr R"
    by (auto simp: same_service_def)
  obtain x d r where w: "realtime_clear R slug (redis_key_prefix c) (cs_db s, cs_redis s) = (x, d, r)" by (rule prod_cases3)
  have "d = cs_db s" using realtime_clear_db [OF w] by simp
  moreover have "c = cx_config X" using assms(1) by (simp add: same_service_def)
  ultimately have "clear_keys C c slug b s = (Inr (), s\<lparr>cs_redis := r\<rparr>)" "agrees (s\<lparr>cs_redis := r\<rparr>) (clear_redis X b a)"
    using True rc R w assms(2,3)
    by (simp_all add: clear_keys_def clear_redis_def agrees_def on_world_def key_prefix_def)
  then show ?thesis by blast
qed

lemma agrees_result:
  assumes "same_service C c X" "agrees s a"
  shows "agrees (sync_fires C c nt r s) (announce_result X nt r a)"
  using assms by (cases "sr_action r")
    (simp_all add: sync_fires_def announce_result_def announce_synced_version_def agrees_fire)

lemma agrees_results:
  assumes "same_service C c X" "agrees s a"
  shows "agrees (fold (sync_fires C c nt) rs s) (fold (announce_result X nt) rs a)"
  using assms(2) by (induction rs arbitrary: s a) (simp_all add: agrees_result [OF assms(1)])

text \<open>
  C36: the command line does what the server does. With the same configuration and services, in
  the same state and with the database reachable, \<open>delete-board\<close> and the DELETE request succeed
  for the same boards and leave the same tables, the same Redis and the same notifications; and
  \<open>sync\<close> of a directory does what the GitHub webhook does with that directory checked out.
\<close>

theorem commands_as_server:
  assumes "same_service C c X" "agrees s a"
    "fst (open_tables C c s) = Inr pl" "fst (open_migrated C c s) = Inr pl'"
    "git [''-C'', tk_repo_path t, ''fetch'', ''origin'', tk_branch t] = GitOk"
    "git [''-C'', tk_repo_path t, ''reset'', ''--hard'', ''origin/'' @ tk_branch t] = GitOk"
  shows "(let cli = cmd_delete_board C c slug s; http = route_boards_delete X slug a in
      (is_ok (fst cli) \<longleftrightarrow> is_ok (fst http)) \<and> agrees (snd cli) (snd http)) \<and>
    (let cli = cmd_sync C c (Some dir) (tk_note t) s;
         hook = run_sync X (cl_toml C) git (cl_directory C dir) t a in
      (is_ok (fst cli) \<longleftrightarrow> is_ok (fst hook)) \<and> agrees (snd cli) (snd hook))"
proof (intro conjI)
  obtain s1 where s1: "open_tables C c s = (Inr pl, s1)" using assms(3) by (cases "open_tables C c s") simp
  have a1: "agrees s1 a" using open_tables_fields [of C c s] s1 assms(2) by (simp add: agrees_def)
  then have d1: "cs_db s1 = ap_db a" by (simp add: agrees_def)
  show "let cli = cmd_delete_board C c slug s; http = route_boards_delete X slug a in
      (is_ok (fst cli) \<longleftrightarrow> is_ok (fst http)) \<and> agrees (snd cli) (snd http)"
  proof (cases "boards_get_by_slug slug (ap_db a)")
    case (Inl e)
    with s1 a1 d1 show ?thesis
      by (simp add: cmd_delete_board_def route_boards_delete_def core_context_def map_err_def Let_def is_ok_def)
  next
    case (Inr b)
    then have "b_slug b = slug" by (rule found_slug)
    with agrees_clear [OF assms(1) a1] obtain s2 where
      s2: "clear_keys C c slug b s1 = (Inr (), s2)" "agrees s2 (clear_redis X b a)" by blast
    then have d2: "cs_db s2 = ap_db (clear_redis X b a)" by (simp add: agrees_def)
    show ?thesis
    proof (cases "boards_delete slug (ap_db (clear_redis X b a))")
      case (Inl e)
      with Inr s1 d1 s2 d2 show ?thesis
        by (simp add: cmd_delete_board_def route_boards_delete_def core_context_def map_err_def on_tables_def
            exec_db_def write_db_def Let_def is_ok_def)
    next
      case deleted: (Inr d)
      from s2(2) have "agrees (s2\<lparr>cs_db := d\<rparr>) ((clear_redis X b a)\<lparr>ap_db := d\<rparr>)" by (simp add: agrees_def)
      from agrees_fire [OF assms(1) this] deleted Inr s1 d1 s2 d2 \<open>b_slug b = slug\<close> show ?thesis
        by (simp add: cmd_delete_board_def route_boards_delete_def core_context_def map_err_def on_tables_def
            exec_db_def write_db_def Let_def is_ok_def)
    qed
  qed
next
  obtain s1 where s1: "open_migrated C c s = (Inr pl', s1)" using assms(4) by (cases "open_migrated C c s") simp
  have a1: "agrees s1 a"
    using same_stores_migrated [OF same_stores_refl, of s C c] s1 assms(2) by (simp add: agrees_def same_stores_def)
  have svc: "cl_svc C = cx_svc X" using assms(1) by (simp add: same_service_def)
  obtain r d where r: "sync_dir (cx_svc X) (cl_toml C) (cl_directory C dir) (tk_note t) (ap_db a) = (r, d)" by (meson surj_pair)
  from a1 have d1: "cs_db s1 = ap_db a" and a2: "agrees (s1\<lparr>cs_db := d\<rparr>) (a\<lparr>ap_db := d\<rparr>)" by (simp_all add: agrees_def)
  from agrees_results [OF assms(1) a2] a2 r s1 d1 svc assms(5,6)
  show "let cli = cmd_sync C c (Some dir) (tk_note t) s; hook = run_sync X (cl_toml C) git (cl_directory C dir) t a in
      (is_ok (fst cli) \<longleftrightarrow> is_ok (fst hook)) \<and> agrees (snd cli) (snd hook)"
    by (cases r) (simp_all add: cmd_sync_def run_sync_def git_step_def sync_path_def Let_def is_ok_def)
qed

section \<open>Instances\<close>

definition sample_cli_toml :: toml_lib where
  "sample_cli_toml =
     sample_toml\<lparr>toml_parse := (\<lambda>s. if s = ''c'' then Inr [(''database'', TTable [(''url'', TString ''db'')])]
                               else toml_parse sample_toml s)\<rparr>"

definition sample_cli_lib :: "(string list, sample_store) cli_lib" where
  "sample_cli_lib =
     \<lparr>cl_pg = sample_pg, cl_svc = sample_svc, cl_toml = sample_cli_toml,
      cl_files = \<lparr>fs_exists = (\<lambda>_. True), fs_read = (\<lambda>_. Inr ''c''), fs_cwd = None, fs_display = concat,
        path_of = (\<lambda>s. [s])\<rparr>,
      cl_env = (\<lambda>_. None), cl_webhook = sample_webhook_lib, cl_client = (\<lambda>_. Inr ()),
      cl_connect = (\<lambda>_. Inl ''no Redis''), cl_directory = (\<lambda>_. sample_dir), cl_parse_export = Inl,
      cl_print_export = (\<lambda>_. Inr []), cl_hash_order = (\<lambda>xs. xs), cl_created = (\<lambda>_. [])\<rparr>"

definition sample_cli :: "(string list, sample_store) cli" where
  "sample_cli =
     \<lparr>cs_pg = [], cs_db = ordered_db, cs_redis = live_store, cs_deliveries = [], cs_output = []\<rparr>"

theorem commands_keep_history_witness:
  "(let m = run_cli sample_cli_lib sample_jwt_lib 0 (\<lambda>_. Inr []) (Some [''c'']) (Sync (Some [''d'']) None) sample_cli in
    is_ok (fst m) \<and> map v_number (versions (cs_db (snd m))) = [1] \<and> db_inv sample_svc (cs_db (snd m)) \<and>
    history_extends ordered_db (cs_db (snd m)))"
proof -
  let ?m = "run_cli sample_cli_lib sample_jwt_lib 0 (\<lambda>_. Inr []) (Some [''c'']) (Sync (Some [''d'']) None) sample_cli"
  have "case ?m of (r, s') \<Rightarrow> is_ok r \<and> map v_number (versions (cs_db s')) = [1]" by code_simp
  then have ok: "is_ok (fst ?m)" "map v_number (versions (cs_db (snd ?m))) = [1]" by (simp_all add: case_prod_beta)
  have "cl_svc sample_cli_lib = sample_svc" "cs_db sample_cli = ordered_db" "cl_hash_order sample_cli_lib = (\<lambda>xs. xs)"
    by (simp_all add: sample_cli_lib_def sample_cli_def)
  with commands_keep_history [of sample_cli_lib sample_cli sample_jwt_lib 0 "\<lambda>_. Inr []" "Some [''c'']" "Sync (Some [''d'']) None"]
    ordered_db_inv ok show ?thesis by (simp add: Let_def)
qed

theorem commands_as_server_witness:
  "map b_slug (boards (cs_db (snd (cmd_delete_board sample_cli_lib sample_config ''speed'' sample_cli)))) =
     map b_slug (boards (ap_db (snd (route_boards_delete sample_ctx ''speed'' sample_app))))"
proof -
  let ?t = "\<lparr>tk_repo_path = ''r'', tk_branch = ''main'', tk_note = None\<rparr>"
  have "same_service sample_cli_lib sample_config sample_ctx" "agrees sample_cli sample_app"
    by (simp_all add: same_service_def agrees_def sample_cli_lib_def sample_cli_def sample_ctx_def sample_app_def
        sample_config_def)
  moreover have "is_ok (fst (open_tables sample_cli_lib sample_config sample_cli))"
    "is_ok (fst (open_migrated sample_cli_lib sample_config sample_cli))" by code_simp+
  then obtain pl pl' where "fst (open_tables sample_cli_lib sample_config sample_cli) = Inr pl"
    "fst (open_migrated sample_cli_lib sample_config sample_cli) = Inr pl'" unfolding is_ok_iff by blast
  ultimately have "agrees (snd (cmd_delete_board sample_cli_lib sample_config ''speed'' sample_cli))
      (snd (route_boards_delete sample_ctx ''speed'' sample_app))"
    using commands_as_server [of sample_cli_lib sample_config sample_ctx sample_cli sample_app pl pl' "\<lambda>_. GitOk" ?t "''speed''" "[''d'']"]
    by (simp add: Let_def)
  then show ?thesis by (simp add: agrees_def)
qed

end
