(* ===== verification/Spec2Isabelle.thy ===== *)
theory Spec2Isabelle
  imports Collections References Snapshots Roundtrip Syncing Outbound Auth Event_Bus Serving Streams Github Server Api Connect Cli
begin

text \<open>
  A model of riley-leaderboards, a service that keeps versioned rankings: its core crate
  (\<open>crates/riley-leaderboards-core\<close>), its HTTP server (\<open>crates/riley-leaderboards-api\<close>) and its
  command line (\<open>crates/riley-leaderboards-cli\<close>), with the theorems that make them correct.

  The program. A board ranks entries. It is ordered (positions), scored (positions derived from
  scores) or tiered. A version of a board is a numbered, immutable list of placements. Versions come
  from four writers: a request, a snapshot of accumulated scores, a snapshot of a realtime board
  whose scores live in Redis, and a sync of TOML files or an import. A request passes the layers of
  the router and the auth middleware to a handler, which calls the repository functions and then
  notifies the webhooks and the event bus that feeds the SSE and WebSocket streams. The command line
  runs the same repository functions on a connection of its own.

  The theories, each after those it uses.

  \<^item> \<open>Prelude\<close>, \<open>Values\<close>: errors and messages (\<open>error.rs\<close>), sequencing of fallible steps, 32-bit
    integers with their wrap-around, scores as 64-bit patterns with the order Postgres and Redis
    sort them by, JSON, the services of Postgres (\<open>svc\<close>).
  \<^item> \<open>Schema\<close>, \<open>Tables\<close>: the structs of \<open>models.rs\<close>, the tables of \<open>migrations/\<close> as a record of row
    lists, each statement with its constraints, the invariant \<open>db_inv\<close> (keys, foreign keys, CHECKs,
    unused identifiers) and its preservation by every statement.
  \<^item> \<open>Validate\<close>, \<open>Pagination\<close>, \<open>Boards\<close>, \<open>Entries\<close>, \<open>Versions\<close> (with \<open>Numbering\<close>), \<open>Scores\<close>,
    \<open>Collections\<close>, \<open>References\<close>, \<open>Export\<close>: \<open>repo/mod.rs\<close> and the file of the same name under
    \<open>repo/\<close>, function by function, from the checks to the statements.
  \<^item> \<open>Redis\<close>, \<open>Realtime\<close>: \<open>repo/realtime.rs\<close> over a Redis server known by its laws.
  \<^item> \<open>Parse\<close>, \<open>Sync\<close>: \<open>sync/parse.rs\<close> and \<open>sync/execute.rs\<close>.
  \<^item> \<open>Config\<close>, \<open>Connect\<close>: \<open>config.rs\<close> and \<open>db.rs\<close>.
  \<^item> \<open>Outbound\<close>, \<open>Auth\<close>, \<open>Event_Bus\<close>: \<open>outbound_webhooks.rs\<close>, \<open>auth.rs\<close>, the registry of
    channels of \<open>sse.rs\<close>, the latter also as a step relation of the tasks that share it.
  \<^item> \<open>App\<close>, \<open>Routes\<close>, \<open>Streams\<close>, \<open>Github\<close>: the state of the server (a context a request only reads,
    and the stores it changes), the handlers of \<open>routes/\<close>, the stream handlers of \<open>sse.rs\<close> and
    \<open>ws.rs\<close>, the GitHub webhook with the sync it queues.
  \<^item> \<open>Server\<close>, \<open>Api\<close>, \<open>Cli\<close>: the router, health check and shutdown of \<open>lib.rs\<close>, \<open>metrics.rs\<close>; the
    OpenAPI document of \<open>openapi.rs\<close> and of the annotations in \<open>routes/\<close>; the commands of
    \<open>main.rs\<close>.
  \<^item> \<open>History\<close>, \<open>Snapshots\<close>, \<open>Importing\<close>, \<open>Roundtrip\<close>, \<open>Syncing\<close>, \<open>Serving\<close> and this theory hold
    theorems that span components.

  How code is written here. A fallible function returns \<open>error + 'a\<close>, and an error carries no new
  database, since its transaction is rolled back. A step whose effects stay after an error
  (Redis, several transactions in a row) returns the result beside the state, sequenced with
  \<open>and_then\<close>. Names are the code's, with the module as a prefix. Interfaces are locales: the
  keyset listing of \<open>Pagination\<close> is interpreted on the five paginated listings, the writer of
  versions of \<open>Numbering\<close> on creation and the two snapshots.

  What the lemmas show. Per repository function: exactly which inputs are refused, what the tables
  are afterwards, that \<open>db_inv\<close> is kept. For versions: the accepted requests, ranking, positions,
  reading order, diffs. For realtime boards: what a submission sets, what a snapshot publishes and
  what becomes of scores submitted beside it. For files: parsing, an idempotent sync, export and
  import as a round trip. For the server: every sequence of requests keeps the invariant and is a
  run of an abstract machine that keeps an append-only log for each board there is, where only a
  request made for it creates, extends or removes a log (\<open>log_step\<close>); errors are silent; versions are
  announced; the auth modes, the bus under every interleaving, the deliveries, the streams; a
  shutdown, from the responses in flight to the drain of the background tasks; the routes and answers
  are the documented ones, with one exception stated. For the command line: it loses no history and
  does what the server does.

  Parameters and what is assumed of them, always as a named hypothesis with a concrete instance.
  \<open>svc_ok\<close>: \<open>uuidv7()\<close> gives fresh identifiers and a cast reads back integers. \<open>codec_ok\<close>: printing and
  parsing of timestamps and UUIDs in cursors is a round trip. \<open>redis_ok\<close>: the documented behaviour of
  sorted sets, hashes, DEL, EXISTS and RENAME; any command may fail. \<open>chan_ok\<close>: the documentation of
  tokio's broadcast channel. \<open>pg_ok\<close>: which statements change the set of schemas, with identifiers clipped to 63
  bytes and several URLs leading to one database. \<open>swagger_ok\<close>: where
  the routes of the Swagger UI are. HMAC, JWT decoding, the JSON, TOML and hexadecimal libraries, git,
  the file system, the network and the clock are parameters without laws, except that the theorems
  on tokens assume that HMAC gives different tokens different hashes.

  Bounds. A page walk has fuel for one page more than there are rows, which suffices for any page
  size. A delivery makes three attempts with pauses of 1 and 5 seconds, the constants of the code.
  Keys are refused after 7200 seconds without a refresh, counted in whole seconds as the code does.
  Version numbers and positions wrap at 32 bits where the code adds them. All other recursions are
  structural or have a termination proof, and no theorem depends on a run having enough fuel.

  Not modelled. The extraction of paths, queries and bodies by axum and serde, and the exact
  normalisation of numbers by \<open>jsonb\<close>: a handler starts from extracted values. The failure of the
  database connection inside a handler, the connection pool and concurrent transactions: a
  repository function is atomic, as its transaction and row lock make it, while the interleavings
  that cross stores (Redis, the bus, git) are modelled. The inner working of the rate limiter, CORS
  and tracing layers, argument parsing, signal handling, log messages, the text of the metrics page
  and the descriptions of the API document. Constant-time comparison is equality.

  Where the model is more definite than the program. Text and JSON with the character U+0000 are
  accepted, while Postgres refuses them. Placements of one tier, position and name are read in the
  order of their insertion, which SQL leaves open. A channel of the event bus exists for any buffer
  size, while tokio panics for 0. The tables are always there, while the commands that connect without
  migrating fail in a schema without them.
\<close>

section \<open>Reading everything, page by page\<close>

text \<open>
  C9: a client that follows the cursors sees everything once. For each of the five paginated
  listings (boards, collections, and the entries, versions and references of a board), whatever
  page size it asks for, a client that starts without a cursor and follows \<open>next_cursor\<close> never
  meets an error, is told that there is no next page after at most one page more than there are
  rows, and has then received every row exactly once, in the order of creation time and id of the
  listing.
\<close>

theorem paging_complete:
  assumes "codec_ok C" "db_inv S db"
  shows "walk (Suc (length (boards db))) (\<lambda>c. boards_list_paginated C \<lparr>pg_limit = l, pg_cursor = c\<rparr> db) None =
      Some (order_by Desc board_cursor (boards db)) \<and>
    walk (Suc (length (collections db))) (\<lambda>c. collections_list_paginated C \<lparr>pg_limit = l, pg_cursor = c\<rparr> db) None =
      Some (order_by Desc collection_cursor (collections db)) \<and>
    walk (Suc (length (board_entries bid db))) (\<lambda>c. entries_list_paginated C bid \<lparr>pg_limit = l, pg_cursor = c\<rparr> db) None =
      Some (order_by Asc entry_cursor (board_entries bid db)) \<and>
    walk (Suc (length (board_versions bid db))) (\<lambda>c. versions_list_paginated C bid \<lparr>pg_limit = l, pg_cursor = c\<rparr> db) None =
      Some (order_by Desc version_cursor (board_versions bid db)) \<and>
    walk (Suc (length (references_of bid db))) (\<lambda>c. references_list_paginated C bid \<lparr>pg_limit = l, pg_cursor = c\<rparr> db) None =
      Some (order_by Asc reference_cursor (references_of bid db))"
  using assms
  by (intro conjI board_listing.walk_all collection_listing.walk_all entry_listing.walk_all
      version_listing.walk_all reference_listing.walk_all)

theorem paging_complete_witness:
  "walk 2 (\<lambda>c. entries_list_paginated sample_codec (b_id sample_row) \<lparr>pg_limit = Some 1, pg_cursor = c\<rparr> ordered_db) None =
     Some [sample_entry_row]"
proof -
  have "board_entries (b_id sample_row) ordered_db = [sample_entry_row]"
    by (simp add: ordered_db_def plain_db_def sample_entry_db_def board_entries_def sample_entry_row_def new_entry_def
        sample_db_def empty_db_def)
  with paging_complete [OF sample_codec_ok ordered_db_inv, where bid = "b_id sample_row" and l = "Some 1"]
  show ?thesis by (simp add: numeral_2_eq_2)
qed

end
